(* ===== verification/Pem_Prelude.thy ===== *)
theory Pem_Prelude
  imports Main "HOL-Library.List_Lexorder" "HOL-Library.Char_ord"
begin

text \<open>
  What every component shares. A Go \<open>string\<close> or \<open>[]byte\<close> is an Isabelle \<open>string\<close>, a list of
  8-bit characters; \<open>len\<close> is \<open>length\<close> and Go's byte-wise \<open><\<close> on strings is the lexicographic
  order of \<open>List_Lexorder\<close> over \<open>Char_ord\<close>. A Go pair \<open>(value, error)\<close> is \<open>'e + 'a\<close> with \<open>Inl\<close>
  for a non-nil error. A call that also changes a shared state returns a pair of its result and
  the new state.
\<close>

type_synonym bytes = string
type_synonym ('e, 'a) result = "'e + 'a"

named_theorems wf_intro \<open>introduction facts of the well-formedness predicates\<close>
named_theorems io_simps \<open>what a call against a shared state returns\<close>

section \<open>Results\<close>

definition is_ok :: "('e, 'a) result \<Rightarrow> bool" where
  "is_ok r = (case r of Inl _ \<Rightarrow> False | Inr _ \<Rightarrow> True)"

lemma is_ok_simps [simp]: "is_ok (Inr x)" "\<not> is_ok (Inl e)"
  by (simp_all add: is_ok_def)

lemma is_ok_iff: "is_ok r \<longleftrightarrow> (\<exists>x. r = Inr x)"
  by (cases r) auto

lemma unit_ok: "r = Inr () \<longleftrightarrow> is_ok r"
  by (auto simp: is_ok_iff)

text \<open>\<open>if err != nil { return wrap(err) }\<close>: pass a value on, or wrap the error.\<close>

definition and_then :: "('e, 'a) result \<Rightarrow> ('e \<Rightarrow> 'f) \<Rightarrow> ('a \<Rightarrow> ('f, 'b) result) \<Rightarrow> ('f, 'b) result" where
  "and_then r wrap k = (case r of Inl e \<Rightarrow> Inl (wrap e) | Inr x \<Rightarrow> k x)"

lemma and_then_simps [simp]:
  "and_then (Inl e) w k = Inl (w e)"
  "and_then (Inr x) w k = k x"
  by (simp_all add: and_then_def)

lemma and_then_Inr: "and_then r w k = Inr y \<longleftrightarrow> (\<exists>x. r = Inr x \<and> k x = Inr y)"
  by (cases r) auto

lemma and_then_is_ok: "is_ok (and_then r w k) \<longleftrightarrow> (\<exists>x. r = Inr x \<and> is_ok (k x))"
  by (cases r) auto

text \<open>A Go loop that returns at the first error: the first error of a list of checks.\<close>

fun first_error :: "('e, unit) result list \<Rightarrow> ('e, unit) result" where
  "first_error [] = Inr ()"
| "first_error (Inl e # _) = Inl e"
| "first_error (Inr _ # cs) = first_error cs"

lemma first_error_ok: "first_error cs = Inr u \<longleftrightarrow> (\<forall>c \<in> set cs. is_ok c)"
  by (induction cs rule: first_error.induct) auto

text \<open>A Go loop that appends one result per element and returns at the first error.\<close>

fun map_results :: "('a \<Rightarrow> ('e, 'b) result) \<Rightarrow> 'a list \<Rightarrow> ('e, 'b list) result" where
  "map_results f [] = Inr []"
| "map_results f (x # xs) =
     (case f x of
        Inl e \<Rightarrow> Inl e
      | Inr y \<Rightarrow> (case map_results f xs of Inl e \<Rightarrow> Inl e | Inr ys \<Rightarrow> Inr (y # ys)))"

lemma map_results_Inr:
  "map_results f xs = Inr ys \<longleftrightarrow> list_all2 (\<lambda>x y. f x = Inr y) xs ys"
proof (induction xs arbitrary: ys)
  case Nil
  then show ?case by auto
next
  case (Cons x xs)
  then show ?case
    by (cases ys) (fastforce split: sum.splits)+
qed

lemma map_results_length: "map_results f xs = Inr ys \<Longrightarrow> length ys = length xs"
  by (auto simp: map_results_Inr dest: list_all2_lengthD)

section \<open>Stateful calls\<close>

text \<open>
  A Go call that may fail and change shared state is a function from a state to its result and
  the next state. \<open>call m wrap k\<close> is \<open>x, err := m(); if err != nil { return wrap(err) }; k(x)\<close>.
\<close>

type_synonym ('s, 'e, 'a) io = "'s \<Rightarrow> ('e, 'a) result \<times> 's"

definition done_with :: "('e, 'a) result \<Rightarrow> ('s, 'e, 'a) io" where
  "done_with r s = (r, s)"

definition call :: "('s, 'e, 'a) io \<Rightarrow> ('e \<Rightarrow> 'f) \<Rightarrow> ('a \<Rightarrow> ('s, 'f, 'b) io) \<Rightarrow> ('s, 'f, 'b) io" where
  "call m wrap k s =
     (case m s of (r, s') \<Rightarrow> (case r of Inl e \<Rightarrow> (Inl (wrap e), s') | Inr x \<Rightarrow> k x s'))"

lemma done_with_eq [simp]: "done_with r s = (r', s') \<longleftrightarrow> r' = r \<and> s' = s"
  by (auto simp: done_with_def)

lemma call_Inr:
  "call m wrap k s = (Inr y, s') \<longleftrightarrow> (\<exists>x t. m s = (Inr x, t) \<and> k x t = (Inr y, s'))"
  by (auto simp: call_def split: prod.splits sum.splits)

lemma call_Inl:
  "call m wrap k s = (Inl e, s') \<longleftrightarrow>
     (\<exists>e'. m s = (Inl e', s') \<and> e = wrap e') \<or> (\<exists>x t. m s = (Inr x, t) \<and> k x t = (Inl e, s'))"
  by (auto simp: call_def split: prod.splits sum.splits)

text \<open>Whatever a sequence of calls returns, its first call ran, and the rest ran after a success.\<close>

lemma call_cases:
  assumes "call m wrap k s = (r, s')"
  obtains (failed) e where "m s = (Inl e, s')" "r = Inl (wrap e)"
    | (passed) x t where "m s = (Inr x, t)" "k x t = (r, s')"
  using assms by (auto simp: call_def split: prod.splits sum.splits)

lemma call_step:
  assumes "m s = (r, t)"
  shows "call m wrap k s = (case r of Inl e \<Rightarrow> (Inl (wrap e), t) | Inr x \<Rightarrow> k x t)"
  using assms by (simp add: call_def)

lemma call_done:
  "call (done_with q) wrap k s = (case q of Inl e \<Rightarrow> (Inl (wrap e), s) | Inr x \<Rightarrow> k x s)"
  by (simp add: call_def done_with_def)

lemma call_ok: "call (done_with (Inr x)) wrap k = k x"
  by (rule ext) (simp add: call_done)

text \<open>
  What a stateful program guarantees: started in a state with \<open>P\<close>, whatever it returns, the result
  and the final state satisfy \<open>Q\<close>.
\<close>

definition triple :: "('s \<Rightarrow> bool) \<Rightarrow> ('s, 'e, 'a) io \<Rightarrow> (('e, 'a) result \<Rightarrow> 's \<Rightarrow> bool) \<Rightarrow> bool" where
  "triple P m Q \<longleftrightarrow> (\<forall>s r s'. P s \<longrightarrow> m s = (r, s') \<longrightarrow> Q r s')"

lemma tripleI: "(\<And>s r s'. P s \<Longrightarrow> m s = (r, s') \<Longrightarrow> Q r s') \<Longrightarrow> triple P m Q"
  and tripleD: "triple P m Q \<Longrightarrow> m s = (r, s') \<Longrightarrow> P s \<Longrightarrow> Q r s'"
  unfolding triple_def by blast+

lemma triple_done [simp]: "triple P (done_with r) Q \<longleftrightarrow> (\<forall>s. P s \<longrightarrow> Q r s)"
  by (auto simp: triple_def)

lemma triple_call:
  assumes "triple P m B" and "\<And>e s. B (Inl e) s \<Longrightarrow> Q (Inl (wrap e)) s"
    and "\<And>x. triple (B (Inr x)) (k x) Q"
  shows "triple P (call m wrap k) Q"
proof (rule tripleI)
  fix s r s' assume "P s" "call m wrap k s = (r, s')"
  from this(2) show "Q r s'"
  proof (cases rule: call_cases)
    case (failed e)
    then show ?thesis using tripleD [OF assms(1) _ \<open>P s\<close>] assms(2) by blast
  next
    case (passed x t)
    then show ?thesis using tripleD [OF assms(1) _ \<open>P s\<close>] tripleD [OF assms(3)] by blast
  qed
qed

lemma triple_pre: "triple P m Q \<Longrightarrow> (\<And>s. P' s \<Longrightarrow> P s) \<Longrightarrow> triple P' m Q"
  and triple_post: "triple P m Q \<Longrightarrow> (\<And>r s. Q r s \<Longrightarrow> Q' r s) \<Longrightarrow> triple P m Q'"
  unfolding triple_def by blast+

text \<open>A property of states that the whole program keeps.\<close>

abbreviation keeping :: "('s \<Rightarrow> bool) \<Rightarrow> ('s, 'e, 'a) io \<Rightarrow> bool" where
  "keeping P m \<equiv> triple P m (\<lambda>_. P)"

lemma keeping_call:
  assumes "keeping P m" and "\<And>x. keeping P (k x)"
  shows "keeping P (call m wrap k)"
  by (rule triple_call [OF assms(1)]) (simp_all add: assms(2))

text \<open>The same, when the continuation may use what the first call promises of its result.\<close>

lemma keeping_call_with:
  assumes "triple P m (\<lambda>r s. P s \<and> (\<forall>x. r = Inr x \<longrightarrow> A x))" and "\<And>x. A x \<Longrightarrow> keeping P (k x)"
  shows "keeping P (call m wrap k)"
proof (rule triple_call [OF assms(1)])
  show "triple (\<lambda>s. P s \<and> (\<forall>y. Inr x = Inr y \<longrightarrow> A y)) (k x) (\<lambda>_. P)" for x
    using assms(2) [of x] by (auto simp: triple_def)
qed simp

text \<open>
  Code that looks at the error itself, as in \<open>if x, err := m(); err == nil { ... } else { ... }\<close>, or
  that drops it, as in \<open>_ = m()\<close>. A deferred call runs after the body, whatever the body returned.
\<close>

definition attempt :: "('s, 'e, 'a) io \<Rightarrow> (('e, 'a) result \<Rightarrow> ('s, 'f, 'b) io) \<Rightarrow> ('s, 'f, 'b) io" where
  "attempt m k s = (case m s of (r, s') \<Rightarrow> k r s')"

definition deferring :: "('s, 'd, 'c) io \<Rightarrow> ('s, 'e, 'a) io \<Rightarrow> ('s, 'e, 'a) io" where
  "deferring d m = attempt m (\<lambda>r. attempt d (\<lambda>_. done_with r))"

lemma attempt_eq: "attempt m k s = (r, s') \<longleftrightarrow> (\<exists>q t. m s = (q, t) \<and> k q t = (r, s'))"
  by (auto simp: attempt_def split: prod.splits)

lemma deferring_eq:
  "deferring d m s = (r, s') \<longleftrightarrow> (\<exists>t q. m s = (r, t) \<and> d t = (q, s'))"
  by (auto simp: deferring_def attempt_eq)

lemma triple_attempt:
  assumes "triple P m B" and "\<And>r. triple (B r) (k r) Q"
  shows "triple P (attempt m k) Q"
proof (rule tripleI)
  fix s r s' assume "P s" "attempt m k s = (r, s')"
  then obtain q t where m: "m s = (q, t)" and k: "k q t = (r, s')" by (auto simp: attempt_eq)
  from tripleD [OF assms(2) k tripleD [OF assms(1) m \<open>P s\<close>]] show "Q r s'" .
qed

lemma keeping_attempt: "keeping P m \<Longrightarrow> (\<And>r. keeping P (k r)) \<Longrightarrow> keeping P (attempt m k)"
  by (rule triple_attempt)

lemma triple_deferring:
  assumes "triple P m B" and "\<And>r. triple (B r) d (\<lambda>_. Q r)"
  shows "triple P (deferring d m) Q"
  unfolding deferring_def
  by (rule triple_attempt [OF assms(1)], rule triple_attempt [OF assms(2)]) simp

text \<open>A loop over stateful calls that returns at the first error.\<close>

fun each :: "('a \<Rightarrow> ('s, 'e, unit) io) \<Rightarrow> 'a list \<Rightarrow> ('s, 'e, unit) io" where
  "each f [] = done_with (Inr ())"
| "each f (x # xs) = call (f x) id (\<lambda>_. each f xs)"

text \<open>A relation that every call keeps is kept by the whole loop.\<close>

lemma each_invariant:
  assumes step: "\<And>x r s s'. x \<in> set xs \<Longrightarrow> P s \<Longrightarrow> f x s = (r, s') \<Longrightarrow> P s'"
    and "P s" and "each f xs s = (r, s')"
  shows "P s'"
  using assms(2,3) step
proof (induction xs arbitrary: s)
  case (Cons x xs)
  from Cons.prems(2) have "call (f x) id (\<lambda>_. each f xs) s = (r, s')" by simp
  then show ?case
  proof (cases rule: call_cases)
    case (failed e)
    then show ?thesis using Cons.prems(1,3) by (meson list.set_intros(1))
  next
    case (passed u t)
    then have "P t" using Cons.prems(1,3) by (meson list.set_intros(1))
    then show ?thesis using Cons.IH [OF _ passed(2)] Cons.prems(3) by (meson list.set_intros(2))
  qed
qed simp

lemma each_ok_all:
  assumes "each f xs s = (Inr u, s')" and "x \<in> set xs"
  shows "\<exists>t t'. f x t = (Inr (), t')"
  using assms
proof (induction xs arbitrary: s)
  case (Cons y xs)
  from Cons.prems(1) obtain t where "f y s = (Inr (), t)" "each f xs t = (Inr u, s')"
    by (auto simp: call_Inr)
  then show ?case using Cons.IH Cons.prems(2) by (cases "x = y") auto
qed simp

section \<open>Association lists\<close>

text \<open>
  A Go map that the code only fills and looks up is an association list read by \<open>map_of\<close>: a
  later store goes in front and hides an earlier one. \<open>len(m)\<close> counts distinct keys.
\<close>

definition map_len :: "('k \<times> 'v) list \<Rightarrow> nat" where
  "map_len m = length (remdups (map fst m))"

lemma map_len_distinct: "distinct (map fst m) \<Longrightarrow> map_len m = length m"
  by (simp add: map_len_def distinct_remdups_id)

definition sorted_keys :: "('k::linorder \<times> 'v) list \<Rightarrow> 'k list" where
  "sorted_keys m = sort (remdups (map fst m))"

lemma set_sorted_keys [simp]: "set (sorted_keys m) = fst ` set m"
  by (simp add: sorted_keys_def)

lemma sorted_sorted_keys: "sorted (sorted_keys m)" and distinct_sorted_keys: "distinct (sorted_keys m)"
  by (simp_all add: sorted_keys_def)

lemma sorted_keys_cong:
  assumes "fst ` set m = fst ` set m'"
  shows "sorted_keys m = sorted_keys m'"
  by (rule sorted_distinct_set_unique)
    (simp_all add: assms sorted_sorted_keys distinct_sorted_keys)

lemma map_of_rev_distinct: "distinct (map fst ps) \<Longrightarrow> map_of (rev ps) k = map_of ps k"
proof (induction ps)
  case (Cons p ps)
  then have "map_of ps (fst p) = None" by (auto simp: map_of_eq_None_iff)
  with Cons show ?case by (cases "map_of ps k") (auto simp: map_add_def)
qed simp

end
