(* ===== verification/Go_Strings.thy ===== *)
theory Go_Strings
  imports Pem_Prelude
begin

text \<open>
  What the code uses of Go's \<open>strings\<close> package, on byte strings: \<open>HasPrefix\<close>, \<open>HasSuffix\<close>,
  \<open>TrimPrefix\<close>, \<open>TrimSpace\<close>, \<open>Split\<close>, \<open>Join\<close>, \<open>Cut\<close>, \<open>ContainsAny\<close>, \<open>ToLower\<close>.
  \<open>TrimSpace\<close> strips Unicode white space, which on bytes is the removal of any of the UTF-8
  sequences of \<open>space_seqs\<close> from the two ends.
\<close>

section \<open>Prefixes\<close>

fun HasPrefix :: "string \<Rightarrow> string \<Rightarrow> bool" where
  "HasPrefix s [] = True"
| "HasPrefix [] (p # ps) = False"
| "HasPrefix (c # s) (p # ps) = (c = p \<and> HasPrefix s ps)"

lemma HasPrefix_iff: "HasPrefix s p \<longleftrightarrow> (\<exists>r. s = p @ r)"
  by (induction s p rule: HasPrefix.induct) auto

lemma HasPrefix_append [simp]: "HasPrefix (p @ r) p"
  by (auto simp: HasPrefix_iff)

lemma HasPrefix_append_append [simp]: "HasPrefix (p @ r) (p @ q) \<longleftrightarrow> HasPrefix r q"
  by (auto simp: HasPrefix_iff)

definition HasSuffix :: "string \<Rightarrow> string \<Rightarrow> bool" where
  "HasSuffix s p = HasPrefix (rev s) (rev p)"

definition TrimPrefix :: "string \<Rightarrow> string \<Rightarrow> string" where
  "TrimPrefix s p = (if HasPrefix s p then drop (length p) s else s)"

lemma TrimPrefix_append [simp]: "TrimPrefix (p @ r) p = r"
  by (simp add: TrimPrefix_def)

lemma TrimPrefix_Cons [simp]: "TrimPrefix (p # r) [p] = r"
  by (simp add: TrimPrefix_def)

section \<open>White space\<close>

text \<open>
  The code points \<open>unicode.IsSpace\<close> accepts, in UTF-8: the ASCII controls 9 to 13 and the space,
  then U+0085, U+00A0, U+1680, U+2000 to U+200A, U+2028, U+2029, U+202F, U+205F and U+3000.
\<close>

definition byte_seq :: "nat list \<Rightarrow> string" where
  "byte_seq ns = map char_of ns"

definition space_seqs :: "string list" where
  "space_seqs =
     map (\<lambda>n. byte_seq [n]) [9, 10, 11, 12, 13, 32] @
     map byte_seq [[194, 133], [194, 160], [225, 154, 128]] @
     map (\<lambda>n. byte_seq [226, 128, n]) ([128..<139] @ [168, 169, 175]) @
     map byte_seq [[226, 129, 159], [227, 128, 128]]"

fun strip_one :: "string list \<Rightarrow> string \<Rightarrow> string option" where
  "strip_one [] s = None"
| "strip_one (p # ps) s = (if HasPrefix s p then Some (drop (length p) s) else strip_one ps s)"

lemma strip_one_Some:
  "strip_one ps s = Some t \<Longrightarrow> \<exists>p \<in> set ps. s = p @ t"
  by (induction ps) (auto simp: HasPrefix_iff split: if_splits)

lemma strip_one_shorter:
  assumes "strip_one ps s = Some t" and "[] \<notin> set ps"
  shows "length t < length s"
  using strip_one_Some [OF assms(1)] assms(2) by auto

lemma space_seqs_nonempty: "[] \<notin> set space_seqs" "[] \<notin> set (map rev space_seqs)"
  by (auto simp: space_seqs_def byte_seq_def)

function strip_left :: "string list \<Rightarrow> string \<Rightarrow> string" where
  "strip_left ps s =
     (if [] \<in> set ps then s
      else case strip_one ps s of None \<Rightarrow> s | Some t \<Rightarrow> strip_left ps t)"
  by pat_completeness auto
termination
  by (relation "measure (\<lambda>(ps, s). length s)") (auto dest: strip_one_shorter)

declare strip_left.simps [simp del]

definition TrimSpace :: "string \<Rightarrow> string" where
  "TrimSpace s = rev (strip_left (map rev space_seqs) (rev (strip_left space_seqs s)))"

lemma TrimSpace_Nil [simp]: "TrimSpace [] = []"
  by code_simp

section \<open>Splitting and joining\<close>

text \<open>\<open>strings.Split(s, sep)\<close> for a separator of one byte: never the empty list.\<close>

fun Split :: "char \<Rightarrow> string \<Rightarrow> string list" where
  "Split sep [] = [[]]"
| "Split sep (c # cs) =
     (if c = sep then [] # Split sep cs
      else case Split sep cs of [] \<Rightarrow> [[c]] | w # ws \<Rightarrow> (c # w) # ws)"

fun Join :: "string list \<Rightarrow> string \<Rightarrow> string" where
  "Join [] sep = []"
| "Join [w] sep = w"
| "Join (w # v # ws) sep = w @ sep @ Join (v # ws) sep"

lemma Split_not_Nil [simp]: "Split sep s \<noteq> []"
  by (induction s) (auto split: list.splits)

lemma Split_no_sep: "w \<in> set (Split sep s) \<Longrightarrow> sep \<notin> set w"
proof (induction s arbitrary: w)
  case Nil
  then show ?case by simp
next
  case (Cons c cs)
  then show ?case
    by (cases "Split sep cs") (auto split: if_splits)
qed

lemma Split_chars: "w \<in> set (Split sep s) \<Longrightarrow> set w \<subseteq> set s"
proof (induction s arbitrary: w)
  case Nil
  then show ?case by simp
next
  case (Cons c cs)
  then show ?case
    by (cases "Split sep cs") (fastforce split: if_splits)+
qed

lemma Split_single: "sep \<notin> set w \<Longrightarrow> Split sep w = [w]"
  by (induction w) auto

lemma Split_append_sep:
  "sep \<notin> set w \<Longrightarrow> Split sep (w @ sep # s) = w # Split sep s"
  by (induction w) auto

lemma Split_Join:
  assumes "ws \<noteq> []" and "\<forall>w \<in> set ws. sep \<notin> set w"
  shows "Split sep (Join ws [sep]) = ws"
  using assms
proof (induction ws rule: induct_list012)
  case (3 w v ws)
  then show ?case by (simp add: Split_append_sep)
qed (auto simp: Split_single)

lemma Join_Split [simp]: "Join (Split sep s) [sep] = s"
proof (induction s)
  case (Cons c cs)
  then show ?case
  proof (cases "Split sep cs")
    case (Cons w ws)
    with Cons.IH show ?thesis by (cases ws) auto
  qed simp
qed simp

lemma Join_Cons: "Join (w # ws) sep = (if ws = [] then w else w @ sep @ Join ws sep)"
  by (cases ws) simp_all

lemma set_Join: "set (Join ws sep) \<subseteq> (\<Union>w \<in> set ws. set w) \<union> set sep"
  by (induction ws sep rule: Join.induct) auto

text \<open>\<open>strings.Cut\<close> at the first separator byte: before, after, found.\<close>

fun Cut :: "string \<Rightarrow> char \<Rightarrow> string \<times> string \<times> bool" where
  "Cut [] sep = ([], [], False)"
| "Cut (c # cs) sep =
     (if c = sep then ([], cs, True)
      else case Cut cs sep of (b, a, f) \<Rightarrow> (c # b, a, f))"

lemma Cut_found: "Cut s sep = (b, a, True) \<Longrightarrow> s = b @ sep # a \<and> sep \<notin> set b"
proof (induction s arbitrary: b a)
  case (Cons c cs)
  then show ?case by (auto split: if_splits prod.splits)
qed simp

lemma Cut_not_found: "Cut s sep = (b, a, False) \<Longrightarrow> b = s \<and> a = [] \<and> sep \<notin> set s"
proof (induction s arbitrary: b a)
  case (Cons c cs)
  then show ?case by (fastforce split: if_splits prod.splits)
qed simp

lemma Cut_append: "sep \<notin> set b \<Longrightarrow> Cut (b @ sep # a) sep = (b, a, True)"
  by (induction b) auto

definition ContainsAny :: "string \<Rightarrow> string \<Rightarrow> bool" where
  "ContainsAny s chars = list_ex (\<lambda>c. c \<in> set chars) s"

lemma ContainsAny_iff: "ContainsAny s chars \<longleftrightarrow> set s \<inter> set chars \<noteq> {}"
  by (auto simp: ContainsAny_def list_ex_iff)

text \<open>\<open>strings.ToLower\<close> on ASCII, where alone the code uses it.\<close>

definition lower_char :: "char \<Rightarrow> char" where
  "lower_char c =
     (if CHR ''A'' \<le> c \<and> c \<le> CHR ''Z'' then char_of (of_char c + (32::nat)) else c)"

definition ToLower :: "string \<Rightarrow> string" where
  "ToLower s = map lower_char s"

end
