(* ===== verification/Go_Paths.thy ===== *)
theory Go_Paths
  imports Go_Strings
begin

text \<open>
  What the code uses of \<open>path\<close> and, on a Unix system, \<open>path/filepath\<close>: \<open>Clean\<close>, \<open>Join\<close>,
  \<open>IsAbs\<close>, \<open>Base\<close>, \<open>Dir\<close> and \<open>Rel\<close>. \<open>Clean\<close> is the documented lexical rule: drop empty and
  \<open>.\<close> components, let \<open>..\<close> remove the component before it, drop \<open>..\<close> at the root, keep it at
  the start of a relative path, and return \<open>.\<close> for the empty path.
\<close>

abbreviation (input) slash :: char where "slash \<equiv> CHR ''/''"

definition IsAbs :: "string \<Rightarrow> bool" where
  "IsAbs p = HasPrefix p ''/''"

text \<open>The components kept so far are in reverse order.\<close>

fun clean_components :: "bool \<Rightarrow> string list \<Rightarrow> string list \<Rightarrow> string list" where
  "clean_components rooted acc [] = rev acc"
| "clean_components rooted acc (w # ws) =
     (if w = [] \<or> w = ''.'' then clean_components rooted acc ws
      else if w = ''..'' then
        (case acc of
           [] \<Rightarrow> clean_components rooted (if rooted then [] else [''..'']) ws
         | a # as \<Rightarrow> clean_components rooted (if a = ''..'' then ''..'' # acc else as) ws)
      else clean_components rooted (w # acc) ws)"

definition Clean :: "string \<Rightarrow> string" where
  "Clean p =
     (let body = Join (clean_components (IsAbs p) [] (Split slash p)) ''/''
      in if IsAbs p then ''/'' @ body else if body = [] then ''.'' else body)"

definition PathJoin :: "string list \<Rightarrow> string" where
  "PathJoin elems =
     (let es = filter (\<lambda>e. e \<noteq> []) elems in if es = [] then [] else Clean (Join es ''/''))"

definition strip_slashes :: "string \<Rightarrow> string" where
  "strip_slashes p = rev (dropWhile (\<lambda>c. c = slash) (rev p))"

definition Base :: "string \<Rightarrow> string" where
  "Base p =
     (if p = [] then ''.''
      else let q = last (Split slash (strip_slashes p)) in if q = [] then ''/'' else q)"

text \<open>\<open>Dir\<close> is \<open>Clean\<close> of everything up to and including the last slash.\<close>

definition Dir :: "string \<Rightarrow> string" where
  "Dir p = Clean (rev (dropWhile (\<lambda>c. c \<noteq> slash) (rev p)))"

section \<open>Clean paths\<close>

definition plain_component :: "string \<Rightarrow> bool" where
  "plain_component w \<longleftrightarrow> w \<noteq> [] \<and> w \<noteq> ''.'' \<and> w \<noteq> ''..'' \<and> slash \<notin> set w"

lemma clean_components_plain:
  "\<forall>w \<in> set ws. plain_component w \<Longrightarrow> clean_components rooted acc ws = rev acc @ ws"
  by (induction ws arbitrary: acc) (auto simp: plain_component_def)

lemma clean_components_rooted:
  assumes "\<forall>w \<in> set acc. plain_component w" and "\<forall>w \<in> set ws. slash \<notin> set w"
  shows "\<forall>w \<in> set (clean_components True acc ws). plain_component w"
  using assms
proof (induction ws arbitrary: acc)
  case Nil
  then show ?case by simp
next
  case (Cons w ws)
  have ws: "\<forall>w \<in> set ws. slash \<notin> set w" and w: "slash \<notin> set w"
    using Cons.prems by auto
  consider (skip) "w = [] \<or> w = ''.''" | (up) "w = ''..''" | (plain) "plain_component w"
    using w unfolding plain_component_def by blast
  then show ?case
  proof cases
    case skip
    with Cons.IH [OF Cons.prems(1) ws] show ?thesis by simp
  next
    case up
    show ?thesis
    proof (cases acc)
      case Nil
      with up Cons.IH [OF _ ws, of "[]"] show ?thesis by simp
    next
      case (Cons a as)
      then have "a \<noteq> ''..''" and as: "\<forall>w \<in> set as. plain_component w"
        using Cons.prems(1) unfolding plain_component_def by auto
      with up Cons Cons.IH [OF as ws] show ?thesis by simp
    qed
  next
    case plain
    have "\<forall>v \<in> set (w # acc). plain_component v" using plain Cons.prems(1) by simp
    from Cons.IH [OF this ws] plain show ?thesis by (simp add: plain_component_def)
  qed
qed

definition abs_path :: "string list \<Rightarrow> string" where
  "abs_path ws = ''/'' @ Join ws ''/''"

lemma Split_abs_path:
  assumes "\<forall>w \<in> set ws. plain_component w"
  shows "Split slash (abs_path ws) = (if ws = [] then [[], []] else [] # ws)"
proof -
  have "Split slash (Join ws ''/'') = ws" if "ws \<noteq> []"
    using that assms by (intro Split_Join) (auto simp: plain_component_def)
  then show ?thesis by (simp add: abs_path_def)
qed

lemma IsAbs_abs_path [simp]: "IsAbs (abs_path ws)"
  by (simp add: IsAbs_def abs_path_def)

lemma Clean_abs_path:
  assumes "\<forall>w \<in> set ws. plain_component w"
  shows "Clean (abs_path ws) = abs_path ws"
  using assms
  by (simp add: Clean_def Split_abs_path clean_components_plain)
    (simp add: abs_path_def)

text \<open>\<open>Clean\<close> of an absolute path is a list of plain components below the root.\<close>

lemma Clean_rooted:
  assumes "IsAbs p"
  obtains ws where "Clean p = abs_path ws" and "\<forall>w \<in> set ws. plain_component w"
proof
  let ?ws = "clean_components True [] (Split slash p)"
  show "Clean p = abs_path ?ws"
    using assms by (simp add: Clean_def abs_path_def)
  show "\<forall>w \<in> set ?ws. plain_component w"
    by (rule clean_components_rooted) (auto dest: Split_no_sep)
qed

lemma Clean_idem_abs: "IsAbs p \<Longrightarrow> Clean (Clean p) = Clean p"
  by (metis Clean_rooted Clean_abs_path)

lemma Clean_IsAbs [simp]: "IsAbs p \<Longrightarrow> IsAbs (Clean p)"
  by (metis Clean_rooted IsAbs_abs_path)

lemma Join_append:
  "ws \<noteq> [] \<Longrightarrow> vs \<noteq> [] \<Longrightarrow> Join (ws @ vs) sep = Join ws sep @ sep @ Join vs sep"
proof (induction ws rule: induct_list012)
  case (2 w)
  then show ?case by (cases vs) simp_all
qed simp_all

lemma abs_path_append:
  "ws \<noteq> [] \<Longrightarrow> vs \<noteq> [] \<Longrightarrow> abs_path (ws @ vs) = abs_path ws @ ''/'' @ Join vs ''/''"
  by (simp add: abs_path_def Join_append)

lemma plain_component_not_Nil: "\<not> plain_component []"
  by (simp add: plain_component_def)

lemma abs_path_inj:
  assumes eq: "abs_path ws = abs_path vs"
    and ws: "\<forall>w \<in> set ws. plain_component w" and vs: "\<forall>w \<in> set vs. plain_component w"
  shows "ws = vs"
proof -
  have "(if ws = [] then [[], []] else [] # ws) = (if vs = [] then [[], []] else [] # vs)"
    using Split_abs_path [OF ws] Split_abs_path [OF vs] eq by simp
  moreover have "ws \<noteq> [[]]" "vs \<noteq> [[]]"
    using ws vs plain_component_not_Nil by auto
  ultimately show ?thesis by (cases "ws = []"; cases "vs = []") simp_all
qed

section \<open>Relative paths\<close>

fun drop_common :: "string list \<Rightarrow> string list \<Rightarrow> string list \<times> string list" where
  "drop_common (a # as) (b # bs) =
     (if a = b then drop_common as bs else (a # as, b # bs))"
| "drop_common as bs = (as, bs)"

text \<open>The components of a clean path; the root and \<open>.\<close> have none.\<close>

definition components :: "string \<Rightarrow> string list" where
  "components p =
     (if p = ''.'' \<or> p = ''/'' then [] else Split slash (TrimPrefix p ''/''))"

datatype rel_error = CannotMakeRelative string string

text \<open>
  \<open>filepath.Rel(base, targ)\<close>: both paths are cleaned; it fails when one is absolute and the
  other not, or when the base has a \<open>..\<close> that the target does not share.
\<close>

definition Rel :: "string \<Rightarrow> string \<Rightarrow> (rel_error, string) result" where
  "Rel basepath targpath =
     (let base = Clean basepath; targ = Clean targpath in
      if targ = base then Inr ''.''
      else if IsAbs base \<noteq> IsAbs targ then Inl (CannotMakeRelative basepath targpath)
      else case drop_common (components base) (components targ) of
        (b, t) \<Rightarrow>
          if b \<noteq> [] \<and> hd b = ''..'' then Inl (CannotMakeRelative basepath targpath)
          else Inr (Join (replicate (length b) ''..'' @ t) ''/''))"

end
