(* ===== verification/Keyspace.thy ===== *)
theory Keyspace
  imports Go_Paths
begin

text \<open>
  \<open>internal/keyspace/keys.go\<close>: the etcd namespace prefix and the fixed v6 paths below it. A
  \<open>Keys\<close> value is one validated, normalised prefix; every key the program reads or writes is built
  from it. The lemmas show that \<open>NewKeys\<close> only returns clean absolute prefixes and is idempotent,
  that keys determine the target and generation they are built from, and that active keys and
  bundle keys are disjoint.
\<close>

section \<open>Safe names\<close>

text \<open>\<open>SafeName\<close> of \<open>internal/bundle/manifest.go\<close>: one safe etcd path component.\<close>

definition safe_char :: "nat \<Rightarrow> char \<Rightarrow> bool" where
  "safe_char index character =
     ((CHR ''a'' \<le> character \<and> character \<le> CHR ''z'') \<or>
      (CHR ''A'' \<le> character \<and> character \<le> CHR ''Z'') \<or>
      (CHR ''0'' \<le> character \<and> character \<le> CHR ''9'') \<or>
      (0 < index \<and> (character = CHR ''.'' \<or> character = CHR ''_'' \<or> character = CHR ''-'')))"

fun safe_chars :: "nat \<Rightarrow> string \<Rightarrow> bool" where
  "safe_chars index [] = True"
| "safe_chars index (c # cs) = (if safe_char index c then safe_chars (Suc index) cs else False)"

definition SafeName :: "string \<Rightarrow> bool" where
  "SafeName value =
     (if length value = 0 \<or> 128 < length value then False
      else if \<not> safe_chars 0 value then False
      else value \<noteq> ''.'' \<and> value \<noteq> ''..'')"

lemma safe_char_not_slash: "safe_char i c \<Longrightarrow> c \<noteq> CHR ''/''"
  by (auto simp: safe_char_def)

lemma safe_chars_no_slash: "safe_chars i s \<Longrightarrow> CHR ''/'' \<notin> set s"
  by (induction i s rule: safe_chars.induct) (auto dest: safe_char_not_slash split: if_splits)

lemma SafeName_no_slash: "SafeName v \<Longrightarrow> CHR ''/'' \<notin> set v"
  by (auto simp: SafeName_def dest: safe_chars_no_slash split: if_splits)

lemma SafeName_nonempty: "SafeName v \<Longrightarrow> v \<noteq> []"
  by (auto simp: SafeName_def)

lemma SafeName_plain: "SafeName v \<Longrightarrow> plain_component v"
  unfolding plain_component_def
  by (auto simp: SafeName_nonempty SafeName_no_slash) (auto simp: SafeName_def split: if_splits)

section \<open>Keys\<close>

definition ProtocolRoot :: string where "ProtocolRoot = ''/v6''"
definition DefaultPrefix :: string where "DefaultPrefix = ''/pemcast''"

record Keys =
  keys_prefix :: string

datatype keys_error =
    EmptyPrefix
  | NotAbsolutePrefix string
  | UnsafePrefixComponent string string

definition safePrefixComponent :: "string \<Rightarrow> bool" where
  "safePrefixComponent component \<longleftrightarrow>
     component \<noteq> [] \<and> component \<noteq> ''.'' \<and> component \<noteq> ''..'' \<and>
     \<not> ContainsAny component (byte_seq [47, 92])"

text \<open>The two loops over components return at the first bad one.\<close>

definition NewKeys :: "string \<Rightarrow> (keys_error, Keys) result" where
  "NewKeys raw =
     (let prefix = TrimSpace raw in
      if prefix = [] then Inl EmptyPrefix
      else if \<not> HasPrefix prefix ''/'' then Inl (NotAbsolutePrefix prefix)
      else case find (\<lambda>c. c = ''.'' \<or> c = ''..'') (Split slash prefix) of
        Some c \<Rightarrow> Inl (UnsafePrefixComponent prefix c)
      | None \<Rightarrow>
          (let cleaned = Clean prefix in
           if cleaned \<noteq> ''/'' then
             (case find (\<lambda>c. \<not> safePrefixComponent c) (Split slash (TrimPrefix cleaned ''/'')) of
                Some c \<Rightarrow> Inl (UnsafePrefixComponent cleaned c)
              | None \<Rightarrow> Inr \<lparr>keys_prefix = cleaned\<rparr>)
           else Inr \<lparr>keys_prefix = cleaned\<rparr>))"

definition DefaultKeys :: Keys where "DefaultKeys = \<lparr>keys_prefix = DefaultPrefix\<rparr>"

definition Keys_Prefix :: "Keys \<Rightarrow> string" where "Keys_Prefix k = keys_prefix k"

definition Keys_Root :: "Keys \<Rightarrow> string" where
  "Keys_Root k = PathJoin [keys_prefix k, ProtocolRoot]"

definition Keys_ActivePrefix :: "Keys \<Rightarrow> string" where
  "Keys_ActivePrefix k = Keys_Root k @ ''/active/''"

definition Keys_ActiveKey :: "Keys \<Rightarrow> string \<Rightarrow> string" where
  "Keys_ActiveKey k targetID = Keys_ActivePrefix k @ targetID"

definition Keys_BundlePrefix :: "Keys \<Rightarrow> string" where
  "Keys_BundlePrefix k = Keys_Root k @ ''/bundles/''"

definition Keys_TargetBundlePrefix :: "Keys \<Rightarrow> string \<Rightarrow> string" where
  "Keys_TargetBundlePrefix k targetID = Keys_BundlePrefix k @ targetID @ ''/''"

definition Keys_BundleKey :: "Keys \<Rightarrow> string \<Rightarrow> string \<Rightarrow> string" where
  "Keys_BundleKey k targetID generation = Keys_TargetBundlePrefix k targetID @ generation"

section \<open>Well-formed keys\<close>

definition backslash :: char where "backslash = CHR 0x5C"

lemma path_separators: "byte_seq [47, 92] = [CHR ''/'', backslash]"
  by code_simp

lemma backslash_not_slash [simp]: "backslash \<noteq> CHR ''/''"
  by code_simp

text \<open>What \<open>NewKeys\<close> guarantees: a clean absolute prefix without backslashes.\<close>

definition wf_keys :: "Keys \<Rightarrow> bool" where
  "wf_keys k \<longleftrightarrow>
     IsAbs (keys_prefix k) \<and> Clean (keys_prefix k) = keys_prefix k \<and>
     backslash \<notin> set (keys_prefix k)"

lemma wf_keysE:
  assumes "wf_keys k"
  obtains ws where "keys_prefix k = abs_path ws" "\<forall>w \<in> set ws. plain_component w"
  using assms Clean_rooted [of "keys_prefix k"] unfolding wf_keys_def by metis

lemma IsAbs_HasPrefix: "IsAbs p = HasPrefix p ''/''"
  by (simp add: IsAbs_def)

lemma not_ContainsAny_path: "\<not> ContainsAny w (byte_seq [47, 92]) \<Longrightarrow> backslash \<notin> set w"
  by (auto simp: ContainsAny_iff path_separators)

lemma NewKeys_Inr:
  assumes "NewKeys raw = Inr k"
  shows "wf_keys k" and "keys_prefix k = Clean (TrimSpace raw)"
    and "\<forall>w \<in> set (Split slash (TrimSpace raw)). w \<noteq> ''.'' \<and> w \<noteq> ''..''"
proof -
  let ?p = "TrimSpace raw"
  have abs: "IsAbs ?p" and k: "keys_prefix k = Clean ?p"
    and dots: "find (\<lambda>c. c = ''.'' \<or> c = ''..'') (Split slash ?p) = None"
    and comps: "Clean ?p \<noteq> ''/'' \<longrightarrow>
      find (\<lambda>c. \<not> safePrefixComponent c) (Split slash (TrimPrefix (Clean ?p) ''/'')) = None"
    using assms by (auto simp: NewKeys_def Let_def IsAbs_def split: if_splits option.splits)
  obtain ws where ws: "Clean ?p = abs_path ws" "\<forall>w \<in> set ws. plain_component w"
    using Clean_rooted [OF abs] .
  show "keys_prefix k = Clean ?p" by (fact k)
  show "\<forall>w \<in> set (Split slash ?p). w \<noteq> ''.'' \<and> w \<noteq> ''..''"
    using dots unfolding find_None_iff by blast
  have "backslash \<notin> set (Clean ?p)"
  proof (cases "ws = []")
    case True
    then show ?thesis by (simp add: ws abs_path_def)
  next
    case False
    then have "Clean ?p \<noteq> ''/''" using ws(2) plain_component_not_Nil
      unfolding ws(1) abs_path_def by (cases ws) (auto simp: Join_Cons)
    then have "\<forall>w \<in> set (Split slash (Join ws ''/'')). backslash \<notin> set w"
      using comps unfolding find_None_iff ws(1) abs_path_def TrimPrefix_append safePrefixComponent_def
      by (blast dest: not_ContainsAny_path)
    moreover have "Split slash (Join ws ''/'') = ws"
      using False ws(2) by (intro Split_Join) (auto simp: plain_component_def)
    ultimately show ?thesis
      using set_Join [of ws "''/''"] by (auto simp: ws(1) abs_path_def)
  qed
  then show "wf_keys k"
    unfolding wf_keys_def k using abs by (simp add: Clean_idem_abs)
qed

lemma wf_DefaultKeys: "wf_keys DefaultKeys"
  by code_simp

lemma IsAbs_TrimSpace_find:
  "wf_keys k \<Longrightarrow> find (\<lambda>c. c = ''.'' \<or> c = ''..'') (Split slash (keys_prefix k)) = None"
  by (erule wf_keysE) (auto simp: find_None_iff Split_abs_path plain_component_def split: if_splits)

lemma NewKeys_wf:
  assumes "wf_keys k" and "TrimSpace (keys_prefix k) = keys_prefix k"
  shows "NewKeys (keys_prefix k) = Inr k"
proof -
  obtain ws where ws: "keys_prefix k = abs_path ws" "\<forall>w \<in> set ws. plain_component w"
    using wf_keysE [OF assms(1)] .
  have c: "Clean (keys_prefix k) = keys_prefix k" "IsAbs (keys_prefix k)"
    and b: "backslash \<notin> set (keys_prefix k)"
    using assms(1) by (auto simp: wf_keys_def)
  have "find (\<lambda>c. \<not> safePrefixComponent c) (Split slash (TrimPrefix (keys_prefix k) ''/'')) = None"
    if "keys_prefix k \<noteq> ''/''"
  proof -
    have ne: "ws \<noteq> []" using that ws(1) by (auto simp: abs_path_def)
    have "Split slash (Join ws ''/'') = ws"
      using ne ws(2) by (intro Split_Join) (auto simp: plain_component_def)
    moreover have "safePrefixComponent w" if w: "w \<in> set ws" for w
    proof -
      have "set w \<subseteq> set (Join ws ''/'')"
        using Split_chars [of w slash "Join ws ''/''"] w calculation by simp
      then have "backslash \<notin> set w" using b by (auto simp: ws(1) abs_path_def)
      then show ?thesis using w ws(2)
        by (auto simp: safePrefixComponent_def plain_component_def ContainsAny_iff path_separators)
    qed
    ultimately show ?thesis by (simp add: ws(1) abs_path_def find_None_iff)
  qed
  moreover have "keys_prefix k \<noteq> []" by (simp add: ws(1) abs_path_def)
  moreover have "HasPrefix (keys_prefix k) ''/''" using c(2) by (simp add: IsAbs_def)
  ultimately show ?thesis
    using IsAbs_TrimSpace_find [OF assms(1)] c assms(2)
    by (simp add: NewKeys_def Let_def)
qed

section \<open>The layout of keys\<close>

lemma plain_literals:
  "plain_component ''v6''" "plain_component ''v5''" "plain_component ''v4''"
  "plain_component ''active''" "plain_component ''bundles''"
  by (simp_all add: plain_component_def)

text \<open>\<open>path.Join\<close> of a clean prefix and a protocol root \<open>/v\<close> appends one component.\<close>

lemma PathJoin_abs_path:
  assumes "\<forall>w \<in> set ws. plain_component w" and "plain_component v"
  shows "PathJoin [abs_path ws, CHR ''/'' # v] = abs_path (ws @ [v])"
proof -
  have ne: "abs_path ws \<noteq> []" by (simp add: abs_path_def)
  have v: "CHR ''/'' \<notin> set v" using assms(2) by (simp add: plain_component_def)
  have split: "Split slash (abs_path ws @ ''//'' @ v) = Split slash (abs_path ws) @ [[], v]"
  proof (cases "ws = []")
    case True
    then show ?thesis using v by (simp add: abs_path_def Split_single)
  next
    case False
    have "abs_path ws @ ''//'' @ v = Join (([] # ws) @ [[], v]) ''/''"
      using False by (simp add: Join_append Join_Cons abs_path_def)
    also have "Split slash (Join (([] # ws) @ [[], v]) ''/'') = ([] # ws) @ [[], v]"
      using assms v by (intro Split_Join) (auto simp: plain_component_def)
    finally show ?thesis using False assms(1) by (simp add: Split_abs_path)
  qed
  have skip: "clean_components True [] (Split slash (abs_path ws) @ [[], v]) = ws @ [v]"
  proof -
    have "clean_components True acc (us @ [[], v]) = rev acc @ us @ [v]"
      if "\<forall>w \<in> set us. plain_component w" for us acc
      using that assms(2)
      by (induction us arbitrary: acc) (auto simp: plain_component_def)
    from this [of ws "[]"] show ?thesis using assms
      by (auto simp: Split_abs_path plain_component_def)
  qed
  have "IsAbs (abs_path ws @ ''//'' @ v)" by (simp add: IsAbs_def abs_path_def)
  with split skip ne show ?thesis by (simp add: PathJoin_def Clean_def abs_path_def)
qed


lemma abs_path_snoc:
  "ws \<noteq> [] \<Longrightarrow> abs_path (ws @ [v]) = abs_path ws @ CHR ''/'' # v"
  by (simp add: abs_path_append)

text \<open>Every key is an absolute path of plain components below the namespace.\<close>

lemma Keys_paths:
  assumes k: "keys_prefix k = abs_path ws" and ws: "\<forall>w \<in> set ws. plain_component w"
  shows "Keys_Root k = abs_path (ws @ [''v6''])"
    and "Keys_ActivePrefix k = abs_path (ws @ [''v6'', ''active'']) @ ''/''"
    and "Keys_ActiveKey k t = abs_path (ws @ [''v6'', ''active'', t])"
    and "Keys_BundlePrefix k = abs_path (ws @ [''v6'', ''bundles'']) @ ''/''"
    and "Keys_BundleKey k t g = abs_path (ws @ [''v6'', ''bundles'', t, g])"
proof -
  show root: "Keys_Root k = abs_path (ws @ [''v6''])"
    using PathJoin_abs_path [OF ws plain_literals(1)]
    by (simp add: Keys_Root_def ProtocolRoot_def k)
  show "Keys_ActivePrefix k = abs_path (ws @ [''v6'', ''active'']) @ ''/''"
    "Keys_ActiveKey k t = abs_path (ws @ [''v6'', ''active'', t])"
    "Keys_BundlePrefix k = abs_path (ws @ [''v6'', ''bundles'']) @ ''/''"
    "Keys_BundleKey k t g = abs_path (ws @ [''v6'', ''bundles'', t, g])"
    using abs_path_snoc [of "ws @ [''v6'']"] abs_path_snoc [of "ws @ [''v6'', ''active'']"]
      abs_path_snoc [of "ws @ [''v6'', ''bundles'']"] abs_path_snoc [of "ws @ [''v6'', ''bundles'', t]"]
    by (simp_all add: Keys_ActivePrefix_def Keys_ActiveKey_def Keys_BundlePrefix_def
        Keys_TargetBundlePrefix_def Keys_BundleKey_def root)
qed

lemma Keys_eqI: "keys_prefix k = keys_prefix k' \<Longrightarrow> k = (k' :: Keys)"
  by simp

lemma ActiveKey_inj:
  assumes "wf_keys k" "wf_keys k'" "SafeName t" "SafeName t'"
    and eq: "Keys_ActiveKey k t = Keys_ActiveKey k' t'"
  shows "k = k' \<and> t = t'"
proof -
  obtain ws where ws: "keys_prefix k = abs_path ws" "\<forall>w \<in> set ws. plain_component w"
    using wf_keysE [OF assms(1)] .
  obtain vs where vs: "keys_prefix k' = abs_path vs" "\<forall>w \<in> set vs. plain_component w"
    using wf_keysE [OF assms(2)] .
  have "ws @ [''v6'', ''active'', t] = vs @ [''v6'', ''active'', t']"
    using eq unfolding Keys_paths(3) [OF ws] Keys_paths(3) [OF vs]
    by (rule abs_path_inj) (use ws(2) vs(2) assms(3,4) in \<open>auto simp: plain_literals SafeName_plain\<close>)
  then show ?thesis by (simp add: ws vs Keys_eqI)
qed

lemma BundleKey_inj:
  assumes "wf_keys k" "wf_keys k'" "SafeName t" "SafeName t'" "SafeName g" "SafeName g'"
    and eq: "Keys_BundleKey k t g = Keys_BundleKey k' t' g'"
  shows "k = k' \<and> t = t' \<and> g = g'"
proof -
  obtain ws where ws: "keys_prefix k = abs_path ws" "\<forall>w \<in> set ws. plain_component w"
    using wf_keysE [OF assms(1)] .
  obtain vs where vs: "keys_prefix k' = abs_path vs" "\<forall>w \<in> set vs. plain_component w"
    using wf_keysE [OF assms(2)] .
  have "ws @ [''v6'', ''bundles'', t, g] = vs @ [''v6'', ''bundles'', t', g']"
    using eq unfolding Keys_paths(5) [OF ws] Keys_paths(5) [OF vs]
    by (rule abs_path_inj) (use ws(2) vs(2) assms(3-6) in \<open>auto simp: plain_literals SafeName_plain\<close>)
  then show ?thesis by (simp add: ws vs Keys_eqI)
qed

text \<open>No active key is a bundle key, whatever the two namespaces are.\<close>

lemma ActiveKey_not_BundleKey:
  assumes "wf_keys k" "wf_keys k'" "SafeName t" "SafeName t'" "SafeName g"
  shows "Keys_ActiveKey k t \<noteq> Keys_BundleKey k' t' g"
proof
  assume eq: "Keys_ActiveKey k t = Keys_BundleKey k' t' g"
  obtain ws where ws: "keys_prefix k = abs_path ws" "\<forall>w \<in> set ws. plain_component w"
    using wf_keysE [OF assms(1)] .
  obtain vs where vs: "keys_prefix k' = abs_path vs" "\<forall>w \<in> set vs. plain_component w"
    using wf_keysE [OF assms(2)] .
  have "ws @ [''v6'', ''active'', t] = vs @ [''v6'', ''bundles'', t', g]"
    using eq unfolding Keys_paths(3) [OF ws] Keys_paths(5) [OF vs]
    by (rule abs_path_inj) (use ws(2) vs(2) assms(3-5) in \<open>auto simp: plain_literals SafeName_plain\<close>)
  then have "rev (ws @ [''v6'', ''active'', t]) = rev (vs @ [''v6'', ''bundles'', t', g])" by simp
  then show False by simp
qed

text \<open>A key found below the active prefix gives back its target.\<close>

lemma TrimPrefix_ActiveKey [simp]: "TrimPrefix (Keys_ActiveKey k t) (Keys_ActivePrefix k) = t"
  by (simp add: Keys_ActiveKey_def)

lemma HasPrefix_ActiveKey [simp]: "HasPrefix (Keys_ActiveKey k t) (Keys_ActivePrefix k)"
  by (simp add: Keys_ActiveKey_def)

lemma Cut_BundleKey:
  "SafeName t \<Longrightarrow> Cut (TrimPrefix (Keys_BundleKey k t g) (Keys_BundlePrefix k)) (CHR ''/'') = (t, g, True)"
  by (simp add: Keys_BundleKey_def Keys_TargetBundlePrefix_def Cut_append SafeName_no_slash)

section \<open>Cleaning never lengthens\<close>

definition path_total :: "string list \<Rightarrow> nat" where
  "path_total ws = sum_list (map (\<lambda>w. length w + 1) ws)"

lemma tot_simps [simp]:
  "path_total [] = 0" "path_total (w # ws) = length w + 1 + path_total ws" "path_total (ws @ vs) = path_total ws + path_total vs"
  "path_total (rev ws) = path_total ws"
  by (simp_all add: path_total_def rev_map [symmetric])

lemma tot_clean: "path_total (clean_components rooted acc ws) \<le> path_total acc + path_total ws"
proof (induction ws arbitrary: acc)
  case (Cons w ws)
  have IH: "path_total (clean_components rooted a ws) \<le> path_total a + path_total ws" for a by (rule Cons.IH)
  show ?case
  proof (cases "w = ''..''")
    case True
    then show ?thesis
      using IH [of "[]"] IH [of "[''..'']"] IH [of "''..'' # acc"] IH [of "tl acc"]
      by (cases acc) auto
  next
    case False
    then show ?thesis using IH [of acc] IH [of "w # acc"] by auto
  qed
qed simp

lemma tot_Split: "path_total (Split sep s) = length s + 1"
  by (induction s) (auto split: list.splits)

lemma length_Join: "ws \<noteq> [] \<Longrightarrow> length (Join ws ''/'') + 1 = path_total ws"
  by (induction ws rule: induct_list012) auto

lemma Clean_length:
  assumes "IsAbs p"
  shows "length (Clean p) \<le> length p"
proof -
  obtain q where q: "p = CHR ''/'' # q" using assms by (cases p) (auto simp: IsAbs_def)
  let ?ws = "clean_components True [] (Split slash q)"
  have c: "Clean p = ''/'' @ Join ?ws ''/''" using assms by (simp add: Clean_def q)
  have "path_total ?ws \<le> length q + 1" using tot_clean [of True "[]" "Split slash q"] by (simp add: tot_Split)
  then have "length (''/'' @ Join ?ws ''/'') \<le> length q + 1"
    using length_Join [of ?ws] by (cases "?ws = []") auto
  then show ?thesis unfolding c by (simp add: q)
qed

lemma strip_left_length: "length (strip_left ps s) \<le> length s"
proof (induction ps s rule: strip_left.induct)
  case (1 ps s)
  then show ?case
    by (subst strip_left.simps) (fastforce split: option.split dest: strip_one_shorter)
qed

lemma strip_left_eq: "length (strip_left ps s) = length s \<Longrightarrow> strip_left ps s = s"
proof (cases "[] \<in> set ps \<or> strip_one ps s = None")
  case True
  then show ?thesis by (subst strip_left.simps) auto
next
  case False
  then obtain t where t: "[] \<notin> set ps" "strip_one ps s = Some t" by auto
  then have "strip_left ps s = strip_left ps t" by (subst strip_left.simps) auto
  moreover have "length (strip_left ps t) < length s"
    using strip_left_length [of ps t] strip_one_shorter [OF t(2,1)] by linarith
  moreover assume "length (strip_left ps s) = length s"
  ultimately show ?thesis by simp
qed

lemma TrimSpace_length: "length (TrimSpace s) \<le> length s"
  using strip_left_length [of "map rev space_seqs" "rev (strip_left space_seqs s)"]
    strip_left_length [of space_seqs s]
  by (simp add: TrimSpace_def)

lemma TrimSpace_eq: "length (TrimSpace s) = length s \<Longrightarrow> TrimSpace s = s"
proof -
  assume len: "length (TrimSpace s) = length s"
  let ?l = "strip_left space_seqs s" and ?r = "map rev space_seqs"
  have a: "length ?l \<le> length s" and b: "length (strip_left ?r (rev ?l)) \<le> length (rev ?l)"
    by (rule strip_left_length)+
  have c: "length (TrimSpace s) = length (strip_left ?r (rev ?l))" by (simp add: TrimSpace_def)
  have "length ?l = length s" using a b c len by simp
  then have l: "?l = s" by (rule strip_left_eq)
  have "length (strip_left ?r (rev s)) = length (rev s)" using c len by (simp add: l)
  then have "strip_left ?r (rev s) = rev s" by (rule strip_left_eq)
  then show "TrimSpace s = s" by (simp add: TrimSpace_def l)
qed

text \<open>A namespace prefix reads back as itself exactly when it has no white space at its ends.\<close>

lemma NewKeys_self:
  assumes "wf_keys k"
  shows "NewKeys (keys_prefix k) = Inr k \<longleftrightarrow> TrimSpace (keys_prefix k) = keys_prefix k"
proof
  assume "NewKeys (keys_prefix k) = Inr k"
  then have p: "keys_prefix k = Clean (TrimSpace (keys_prefix k))" and "wf_keys k"
    using NewKeys_Inr(1,2) by blast+
  have "IsAbs (TrimSpace (keys_prefix k))"
    using \<open>NewKeys (keys_prefix k) = Inr k\<close>
    by (auto simp: NewKeys_def Let_def IsAbs_def split: if_splits)
  then have "length (keys_prefix k) \<le> length (TrimSpace (keys_prefix k))"
    using Clean_length p by metis
  then show "TrimSpace (keys_prefix k) = keys_prefix k"
    using TrimSpace_length [of "keys_prefix k"] by (intro TrimSpace_eq) simp
qed (rule NewKeys_wf [OF assms])

end
