(* ===== verification/Go_Encoding.thy ===== *)
theory Go_Encoding
  imports Go_Strings
begin

text \<open>
  \<open>encoding/hex\<close> and \<open>encoding/base64\<close> (the standard alphabet with padding), with the round trip
  of each. \<open>hex\<close> decodes both cases of a digit; \<open>base64\<close> skips carriage returns and newlines and
  accepts any trailing bits, as Go's non-strict decoders do.
\<close>

abbreviation (input) byte_val :: "char \<Rightarrow> nat" where "byte_val c \<equiv> of_char c"

lemma byte_val_bound [simp]: "(of_char c :: nat) < 256"
  by (simp add: of_char_def)

text \<open>Characters that JSON writes and reads without an escape.\<close>

definition plain_char :: "char \<Rightarrow> bool" where
  "plain_char c \<longleftrightarrow> 32 \<le> byte_val c \<and> byte_val c < 127 \<and> byte_val c \<noteq> 34 \<and> byte_val c \<noteq> 92"

section \<open>Hex\<close>

definition hex_digit :: "nat \<Rightarrow> char" where
  "hex_digit n = (if n < 10 then char_of (n + 48) else char_of (n + 87))"

definition hex_value :: "char \<Rightarrow> nat option" where
  "hex_value c =
     (let n = byte_val c in
      if 48 \<le> n \<and> n \<le> 57 then Some (n - 48)
      else if 97 \<le> n \<and> n \<le> 102 then Some (n - 87)
      else if 65 \<le> n \<and> n \<le> 70 then Some (n - 55)
      else None)"

definition hex_encode :: "bytes \<Rightarrow> string" where
  "hex_encode bs = concat (map (\<lambda>c. [hex_digit (byte_val c div 16), hex_digit (byte_val c mod 16)]) bs)"

fun hex_decode :: "string \<Rightarrow> bytes option" where
  "hex_decode [] = Some []"
| "hex_decode [c] = None"
| "hex_decode (c # d # cs) =
     (case (hex_value c, hex_value d) of
        (Some a, Some b) \<Rightarrow>
          (case hex_decode cs of None \<Rightarrow> None | Some bs \<Rightarrow> Some (char_of (16 * a + b) # bs))
      | _ \<Rightarrow> None)"

lemma lower_char_id: "byte_val c < 65 \<or> 90 < byte_val c \<Longrightarrow> lower_char c = c"
  by (auto simp: lower_char_def less_eq_char_def)

lemma hex_digit_facts:
  assumes "n < 16"
  shows "hex_value (hex_digit n) = Some n" "lower_char (hex_digit n) = hex_digit n"
    "plain_char (hex_digit n)"
proof -
  have "byte_val (hex_digit n) < 65 \<or> 90 < byte_val (hex_digit n)"
    using assms by (auto simp: hex_digit_def)
  then show "lower_char (hex_digit n) = hex_digit n" by (rule lower_char_id)
  show "hex_value (hex_digit n) = Some n" "plain_char (hex_digit n)"
    using assms by (auto simp: hex_digit_def hex_value_def Let_def plain_char_def)
qed

lemma hex_decode_encode [simp]: "hex_decode (hex_encode bs) = Some bs"
proof (induction bs)
  case (Cons c bs)
  have "of_char c div 16 < (16::nat)" "of_char c mod 16 < (16::nat)"
    using byte_val_bound [of c] by (simp_all add: less_mult_imp_div_less)
  moreover have "char_of (16 * (of_char c div 16) + of_char c mod 16 :: nat) = c"
    by (metis char_of_char mult_div_mod_eq)
  ultimately show ?case
    using Cons by (simp add: hex_encode_def hex_digit_facts)
qed (simp add: hex_encode_def)

lemma length_hex_encode [simp]: "length (hex_encode bs) = 2 * length bs"
  by (induction bs) (simp_all add: hex_encode_def)

lemma hex_encode_plain: "\<forall>c \<in> set (hex_encode bs). plain_char c"
proof (induction bs)
  case (Cons c bs)
  have "of_char c div 16 < (16::nat)" "of_char c mod 16 < (16::nat)"
    using byte_val_bound [of c] by (simp_all add: less_mult_imp_div_less)
  with Cons show ?case by (simp add: hex_encode_def hex_digit_facts)
qed (simp add: hex_encode_def)

lemma ToLower_hex_encode [simp]: "ToLower (hex_encode bs) = hex_encode bs"
proof (induction bs)
  case (Cons c bs)
  have "of_char c div 16 < (16::nat)" "of_char c mod 16 < (16::nat)"
    using byte_val_bound [of c] by (simp_all add: less_mult_imp_div_less)
  with Cons show ?case by (simp add: ToLower_def hex_encode_def hex_digit_facts)
qed (simp add: ToLower_def hex_encode_def)

lemma hex_encode_inj: "hex_encode as = hex_encode bs \<Longrightarrow> as = bs"
  by (metis hex_decode_encode option.inject)

section \<open>Base64\<close>

text \<open>The standard alphabet: A to Z, a to z, 0 to 9, \<open>+\<close> and \<open>/\<close>.\<close>

definition b64_char :: "nat \<Rightarrow> char" where
  "b64_char n =
     (if n < 26 then char_of (n + 65)
      else if n < 52 then char_of (n + 71)
      else if n < 62 then char_of (n - 4)
      else if n = 62 then CHR ''+'' else CHR ''/'')"

definition b64_value :: "char \<Rightarrow> nat option" where
  "b64_value c =
     (let n = byte_val c in
      if 65 \<le> n \<and> n \<le> 90 then Some (n - 65)
      else if 97 \<le> n \<and> n \<le> 122 then Some (n - 71)
      else if 48 \<le> n \<and> n \<le> 57 then Some (n + 4)
      else if n = 43 then Some 62
      else if n = 47 then Some 63
      else None)"

abbreviation (input) pad_char :: char where "pad_char \<equiv> CHR ''=''"

fun b64_encode :: "bytes \<Rightarrow> string" where
  "b64_encode [] = []"
| "b64_encode [x] =
     (let a = byte_val x in
      [b64_char (a div 4), b64_char (a mod 4 * 16), pad_char, pad_char])"
| "b64_encode [x, y] =
     (let a = byte_val x; b = byte_val y in
      [b64_char (a div 4), b64_char (a mod 4 * 16 + b div 16), b64_char (b mod 16 * 4), pad_char])"
| "b64_encode (x # y # z # rest) =
     (let a = byte_val x; b = byte_val y; c = byte_val z in
      [b64_char (a div 4), b64_char (a mod 4 * 16 + b div 16),
       b64_char (b mod 16 * 4 + c div 64), b64_char (c mod 64)] @ b64_encode rest)"

text \<open>One byte out of two neighbouring six-bit digits; the unused low bits are dropped.\<close>

definition b64_byte1 :: "nat \<Rightarrow> nat \<Rightarrow> char" where
  "b64_byte1 p q = char_of (p * 4 + q div 16)"
definition b64_byte2 :: "nat \<Rightarrow> nat \<Rightarrow> char" where
  "b64_byte2 q r = char_of (q mod 16 * 16 + r div 4)"
definition b64_byte3 :: "nat \<Rightarrow> nat \<Rightarrow> char" where
  "b64_byte3 r s = char_of (r mod 4 * 64 + s)"

fun b64_quads :: "string \<Rightarrow> bytes option" where
  "b64_quads [] = Some []"
| "b64_quads (c1 # c2 # c3 # c4 # rest) =
     (case (b64_value c1, b64_value c2) of
        (Some p, Some q) \<Rightarrow>
          (if c3 = pad_char then
             (if c4 = pad_char \<and> rest = [] then Some [b64_byte1 p q] else None)
           else case b64_value c3 of
             None \<Rightarrow> None
           | Some r \<Rightarrow>
               (if c4 = pad_char then
                  (if rest = [] then Some [b64_byte1 p q, b64_byte2 q r] else None)
                else case b64_value c4 of
                  None \<Rightarrow> None
                | Some s \<Rightarrow>
                    (case b64_quads rest of
                       None \<Rightarrow> None
                     | Some bs \<Rightarrow> Some (b64_byte1 p q # b64_byte2 q r # b64_byte3 r s # bs))))
      | _ \<Rightarrow> None)"
| "b64_quads _ = None"

definition b64_decode :: "string \<Rightarrow> bytes option" where
  "b64_decode s = b64_quads (filter (\<lambda>c. byte_val c \<noteq> 10 \<and> byte_val c \<noteq> 13) s)"

lemma b64_char_facts:
  assumes "n < 64"
  shows "b64_value (b64_char n) = Some n" "b64_char n \<noteq> pad_char"
    "byte_val (b64_char n) \<noteq> 10" "byte_val (b64_char n) \<noteq> 13" "plain_char (b64_char n)"
proof -
  have pad: "c \<noteq> pad_char" if "byte_val c \<noteq> 61" for c
    using that by auto
  have "b64_value (b64_char n) = Some n \<and> byte_val (b64_char n) \<noteq> 61
      \<and> byte_val (b64_char n) \<noteq> 10 \<and> byte_val (b64_char n) \<noteq> 13 \<and> plain_char (b64_char n)"
    using assms by (auto simp: b64_char_def b64_value_def Let_def plain_char_def)
  then show "b64_value (b64_char n) = Some n" "b64_char n \<noteq> pad_char"
    "byte_val (b64_char n) \<noteq> 10" "byte_val (b64_char n) \<noteq> 13" "plain_char (b64_char n)"
    using pad by blast+
qed

lemma sextet_bounds:
  assumes "a < (256::nat)" "b < (256::nat)" "c < (256::nat)"
  shows "a div 4 < 64" "a mod 4 * 16 < 64" "a mod 4 * 16 + b div 16 < 64"
    "b mod 16 * 4 < 64" "b mod 16 * 4 + c div 64 < 64" "c mod 64 < 64"
proof -
  have d: "a div 4 < 64" "b div 16 < 16" "c div 64 < 4"
    using assms by (simp_all add: less_mult_imp_div_less)
  have m: "a mod 4 < 4" "b mod 16 < 16" "c mod 64 < 64" by simp_all
  show "a div 4 < 64" "c mod 64 < 64" by (fact d m)+
  show "a mod 4 * 16 < 64" "a mod 4 * 16 + b div 16 < 64" using d(2) m(1) by linarith+
  show "b mod 16 * 4 < 64" "b mod 16 * 4 + c div 64 < 64" using d(3) m(2) by linarith+
qed

lemma sextet_bytes:
  assumes "a < (256::nat)" "b < (256::nat)" "c < (256::nat)"
  shows "b64_byte1 (a div 4) (a mod 4 * 16 + b div 16) = char_of a"
    "b64_byte1 (a div 4) (a mod 4 * 16) = char_of a"
    "b64_byte2 (a mod 4 * 16 + b div 16) (b mod 16 * 4 + c div 64) = char_of b"
    "b64_byte2 (a mod 4 * 16 + b div 16) (b mod 16 * 4) = char_of b"
    "b64_byte3 (b mod 16 * 4 + c div 64) (c mod 64) = char_of c"
proof -
  have "(a mod 4 * 16 + b div 16) div 16 = a mod 4" "(a mod 4 * 16 + b div 16) mod 16 = b div 16"
    "(b mod 16 * 4 + c div 64) div 4 = b mod 16" "(b mod 16 * 4 + c div 64) mod 4 = c div 64"
    using assms by (simp_all add: less_mult_imp_div_less)
  then show "b64_byte1 (a div 4) (a mod 4 * 16 + b div 16) = char_of a"
    "b64_byte1 (a div 4) (a mod 4 * 16) = char_of a"
    "b64_byte2 (a mod 4 * 16 + b div 16) (b mod 16 * 4 + c div 64) = char_of b"
    "b64_byte2 (a mod 4 * 16 + b div 16) (b mod 16 * 4) = char_of b"
    "b64_byte3 (b mod 16 * 4 + c div 64) (c mod 64) = char_of c"
    by (simp_all add: b64_byte1_def b64_byte2_def b64_byte3_def)
qed

lemma b64_decode_encode [simp]: "b64_decode (b64_encode bs) = Some bs"
proof (induction bs rule: b64_encode.induct)
  case 1
  show ?case by (simp add: b64_decode_def)
next
  case (2 x)
  note B = sextet_bounds [OF byte_val_bound [of x] byte_val_bound [of x] byte_val_bound [of x]]
    and Y = sextet_bytes [OF byte_val_bound [of x] byte_val_bound [of x] byte_val_bound [of x]]
  show ?case by (simp add: b64_decode_def Let_def b64_char_facts B Y)
next
  case (3 x y)
  note B = sextet_bounds [OF byte_val_bound [of x] byte_val_bound [of y] byte_val_bound [of y]]
    and Y = sextet_bytes [OF byte_val_bound [of x] byte_val_bound [of y] byte_val_bound [of y]]
  show ?case by (simp add: b64_decode_def Let_def b64_char_facts B Y)
next
  case (4 x y z rest)
  note B = sextet_bounds [OF byte_val_bound [of x] byte_val_bound [of y] byte_val_bound [of z]]
    and Y = sextet_bytes [OF byte_val_bound [of x] byte_val_bound [of y] byte_val_bound [of z]]
  show ?case using 4 by (simp add: b64_decode_def Let_def b64_char_facts B Y)
qed

lemma plain_char_pad: "plain_char pad_char"
  by (simp add: plain_char_def)

lemma b64_encode_plain: "\<forall>c \<in> set (b64_encode bs). plain_char c"
proof (induction bs rule: b64_encode.induct)
  case 1
  show ?case by simp
next
  case (2 x)
  note B = sextet_bounds [OF byte_val_bound [of x] byte_val_bound [of x] byte_val_bound [of x]]
  show ?case by (simp add: Let_def b64_char_facts B plain_char_pad)
next
  case (3 x y)
  note B = sextet_bounds [OF byte_val_bound [of x] byte_val_bound [of y] byte_val_bound [of y]]
  show ?case by (simp add: Let_def b64_char_facts B plain_char_pad)
next
  case (4 x y z rest)
  note B = sextet_bounds [OF byte_val_bound [of x] byte_val_bound [of y] byte_val_bound [of z]]
  show ?case using 4 by (simp add: Let_def b64_char_facts B)
qed

end
