(* ===== verification/Go_Json.thy ===== *)
theory Go_Json
  imports Go_Encoding
begin

text \<open>
  What the code uses of \<open>encoding/json/v2\<close>: parsing one JSON text into a tree and printing a
  tree compactly. The parser has the defaults of version 2: strings are valid UTF-8 with complete
  surrogate pairs, an object has no duplicate names, nothing but white space follows the value.
  The struct decoders of the components read the tree (with \<open>RejectUnknownMembers\<close>).
\<close>

datatype json =
    JNull
  | JBool bool
  | JNum string
  | JStr string
  | JArr "json list"
  | JObj "(string \<times> json) list"

section \<open>UTF-8\<close>

definition in_range :: "char \<Rightarrow> nat \<Rightarrow> nat \<Rightarrow> bool" where
  "in_range c lo hi \<longleftrightarrow> lo \<le> byte_val c \<and> byte_val c \<le> hi"

abbreviation (input) cont_byte :: "char \<Rightarrow> bool" where "cont_byte c \<equiv> in_range c 128 191"

text \<open>The length of the UTF-8 sequence at the head of a string; 0 when there is none.\<close>

fun utf8_seq_len :: "string \<Rightarrow> nat" where
  "utf8_seq_len [] = 0"
| "utf8_seq_len (a # s) =
     (if byte_val a < 128 then 1
      else if in_range a 194 223 then
        (case s of b # _ \<Rightarrow> if cont_byte b then 2 else 0 | [] \<Rightarrow> 0)
      else if in_range a 224 239 then
        (case s of
           b # c # _ \<Rightarrow>
             if (if byte_val a = 224 then in_range b 160 191
                 else if byte_val a = 237 then in_range b 128 159
                 else cont_byte b) \<and> cont_byte c then 3 else 0
         | _ \<Rightarrow> 0)
      else if in_range a 240 244 then
        (case s of
           b # c # d # _ \<Rightarrow>
             if (if byte_val a = 240 then in_range b 144 191
                 else if byte_val a = 244 then in_range b 128 143
                 else cont_byte b) \<and> cont_byte c \<and> cont_byte d then 4 else 0
         | _ \<Rightarrow> 0)
      else 0)"

lemma utf8_seq_len_le: "utf8_seq_len s \<le> length s"
  by (cases s) (auto split: list.splits)

function utf8_valid :: "string \<Rightarrow> bool" where
  "utf8_valid s =
     (case s of
        [] \<Rightarrow> True
      | c # cs \<Rightarrow>
          if utf8_seq_len (c # cs) = 0 then False
          else utf8_valid (drop (utf8_seq_len (c # cs)) (c # cs)))"
  by pat_completeness auto
termination
  by (relation "measure length") auto

declare utf8_valid.simps [simp del]

text \<open>The UTF-8 bytes of a code point.\<close>

definition utf8_encode :: "nat \<Rightarrow> string" where
  "utf8_encode n =
     (if n < 128 then byte_seq [n]
      else if n < 2048 then byte_seq [192 + n div 64, 128 + n mod 64]
      else if n < 65536 then byte_seq [224 + n div 4096, 128 + n div 64 mod 64, 128 + n mod 64]
      else byte_seq [240 + n div 262144, 128 + n div 4096 mod 64, 128 + n div 64 mod 64,
             128 + n mod 64])"

section \<open>Strings\<close>

definition json_escape :: "char \<Rightarrow> string" where
  "json_escape c =
     (let n = byte_val c in
      if n = 34 then byte_seq [92, 34]
      else if n = 92 then byte_seq [92, 92]
      else if n = 8 then byte_seq [92, 98]
      else if n = 12 then byte_seq [92, 102]
      else if n = 10 then byte_seq [92, 110]
      else if n = 13 then byte_seq [92, 114]
      else if n = 9 then byte_seq [92, 116]
      else if n < 32 then byte_seq [92, 117, 48, 48] @ [hex_digit (n div 16), hex_digit (n mod 16)]
      else [c])"

definition json_quote :: "string \<Rightarrow> string" where
  "json_quote s = byte_seq [34] @ concat (map json_escape s) @ byte_seq [34]"

fun hex4 :: "string \<Rightarrow> nat option" where
  "hex4 (a # b # c # d # s) =
     (case (hex_value a, hex_value b, hex_value c, hex_value d) of
        (Some p, Some q, Some r, Some t) \<Rightarrow> Some (((p * 16 + q) * 16 + r) * 16 + t)
      | _ \<Rightarrow> None)"
| "hex4 _ = None"

lemma hex4_length: "hex4 s = Some v \<Longrightarrow> 4 \<le> length s"
  by (induction s rule: hex4.induct) auto

text \<open>One escape, after its backslash: the bytes it stands for and the rest.\<close>

definition parse_escape :: "string \<Rightarrow> (string \<times> string) option" where
  "parse_escape s =
     (case s of
        [] \<Rightarrow> None
      | e # r \<Rightarrow>
          (let n = byte_val e in
           if n \<in> {34, 92, 47} then Some ([e], r)
           else if n = 98 then Some (byte_seq [8], r)
           else if n = 102 then Some (byte_seq [12], r)
           else if n = 110 then Some (byte_seq [10], r)
           else if n = 114 then Some (byte_seq [13], r)
           else if n = 116 then Some (byte_seq [9], r)
           else if n = 117 then
             (case hex4 r of
                None \<Rightarrow> None
              | Some v \<Rightarrow>
                  if v < 55296 \<or> 57344 \<le> v then Some (utf8_encode v, drop 4 r)
                  else if 56320 \<le> v then None
                  else (let r2 = drop 4 r in
                    if HasPrefix r2 (byte_seq [92, 117]) then
                      (case hex4 (drop 2 r2) of
                         None \<Rightarrow> None
                       | Some w \<Rightarrow>
                           if 56320 \<le> w \<and> w < 57344
                           then Some (utf8_encode (65536 + (v - 55296) * 1024 + (w - 56320)),
                                  drop 6 r2)
                           else None)
                    else None))
           else None))"

lemma parse_escape_shorter: "parse_escape s = Some (x, r) \<Longrightarrow> length r < length s"
  by (auto simp: parse_escape_def Let_def split: list.splits if_splits option.splits)

text \<open>The body of a string, after its opening quote.\<close>

function parse_string :: "string \<Rightarrow> (string \<times> string) option" where
  "parse_string s =
     (case s of
        [] \<Rightarrow> None
      | c # cs \<Rightarrow>
          if byte_val c = 34 then Some ([], cs)
          else if byte_val c = 92 then
            (case parse_escape cs of
               None \<Rightarrow> None
             | Some (x, r) \<Rightarrow>
                 (case parse_string r of None \<Rightarrow> None | Some (y, r') \<Rightarrow> Some (x @ y, r')))
          else if byte_val c < 32 then None
          else (let k = utf8_seq_len (c # cs) in
            if k = 0 then None
            else case parse_string (drop k (c # cs)) of
                   None \<Rightarrow> None
                 | Some (y, r') \<Rightarrow> Some (take k (c # cs) @ y, r')))"
  by pat_completeness auto
termination
  by (relation "measure length") (auto dest: parse_escape_shorter)

declare parse_string.simps [simp del]

lemma parse_string_shorter: "parse_string s = Some (x, r) \<Longrightarrow> length r < length s"
proof (induction s arbitrary: x r rule: parse_string.induct)
  case (1 s)
  show ?case
  proof (cases s)
    case Nil
    with 1(3) show ?thesis by (simp add: parse_string.simps [of "[]"])
  next
    case (Cons c cs)
    consider (quote) "byte_val c = 34"
      | (esc) "byte_val c = 92"
      | (plain) "byte_val c \<noteq> 34" "byte_val c \<noteq> 92" by blast
    then show ?thesis
    proof cases
      case quote
      with 1(3) Cons show ?thesis by (simp add: parse_string.simps [of "c # cs"])
    next
      case esc
      with 1(3) Cons obtain p q y where e: "parse_escape cs = Some (p, q)"
        and y: "parse_string q = Some (y, r)"
        by (auto simp: parse_string.simps [of "c # cs"] split: option.splits)
      have "length r < length q" using "1.IH"(1) [OF Cons _ esc e _ y] esc by simp
      with parse_escape_shorter [OF e] Cons show ?thesis by simp
    next
      case plain
      with 1(3) Cons obtain y where k: "utf8_seq_len (c # cs) \<noteq> 0" "\<not> byte_val c < 32"
        and y: "parse_string (drop (utf8_seq_len (c # cs)) (c # cs)) = Some (y, r)"
        by (auto simp: parse_string.simps [of "c # cs"] Let_def split: option.splits if_splits)
      have "length r < length (drop (utf8_seq_len (c # cs)) (c # cs))"
        using "1.IH"(2) [OF Cons plain(1) plain(2) k(2) refl k(1) y] by simp
      with Cons show ?thesis by simp
    qed
  qed
qed


section \<open>Values\<close>

text \<open>White space between tokens: space, tab, newline, carriage return.\<close>

definition skip_ws :: "string \<Rightarrow> string" where
  "skip_ws s = dropWhile (\<lambda>c. byte_val c \<in> {32, 9, 10, 13}) s"

lemma skip_ws_le: "length (skip_ws s) \<le> length s"
  by (simp add: skip_ws_def length_dropWhile_le)

definition is_digit :: "char \<Rightarrow> bool" where
  "is_digit c = in_range c 48 57"

text \<open>The longest number literal at the head: sign, integer part, fraction, exponent.\<close>

definition span_digits :: "string \<Rightarrow> string \<times> string" where
  "span_digits s = (takeWhile is_digit s, dropWhile is_digit s)"

definition parse_int_part :: "string \<Rightarrow> (string \<times> string) option" where
  "parse_int_part s =
     (case span_digits s of
        (ds, r) \<Rightarrow>
          (case ds of
             [] \<Rightarrow> None
           | d # ds' \<Rightarrow> if byte_val d = 48 then Some ([d], ds' @ r) else Some (ds, r)))"

definition parse_frac :: "string \<Rightarrow> (string \<times> string) option" where
  "parse_frac s =
     (case s of
        c # s' \<Rightarrow>
          if byte_val c = 46 then
            (case span_digits s' of (ds, r) \<Rightarrow> if ds = [] then None else Some (c # ds, r))
          else Some ([], s)
      | [] \<Rightarrow> Some ([], s))"

definition parse_exp :: "string \<Rightarrow> (string \<times> string) option" where
  "parse_exp s =
     (case s of
        c # s' \<Rightarrow>
          if byte_val c \<in> {69, 101} then
            (let sgn = (if s' \<noteq> [] \<and> byte_val (hd s') \<in> {43, 45} then [hd s'] else []);
                 s'' = drop (length sgn) s' in
             (case span_digits s'' of
                (ds, r) \<Rightarrow> if ds = [] then None else Some (c # sgn @ ds, r)))
          else Some ([], s)
      | [] \<Rightarrow> Some ([], s))"

definition parse_number :: "string \<Rightarrow> (string \<times> string) option" where
  "parse_number s =
     (let sgn = (if s \<noteq> [] \<and> byte_val (hd s) = 45 then [hd s] else []) in
      case parse_int_part (drop (length sgn) s) of
        None \<Rightarrow> None
      | Some (i, r) \<Rightarrow>
          (case parse_frac r of
             None \<Rightarrow> None
           | Some (f, r') \<Rightarrow>
               (case parse_exp r' of
                  None \<Rightarrow> None
                | Some (e, r'') \<Rightarrow> Some (sgn @ i @ f @ e, r''))))"

lemma span_digits_append: "span_digits s = (ds, r) \<Longrightarrow> s = ds @ r"
  by (auto simp: span_digits_def)

lemma parse_int_part_append: "parse_int_part s = Some (x, r) \<Longrightarrow> s = x @ r \<and> x \<noteq> []"
  by (auto simp: parse_int_part_def split: prod.splits list.splits if_splits
      dest: span_digits_append)

lemma parse_frac_append: "parse_frac s = Some (x, r) \<Longrightarrow> s = x @ r"
  by (auto simp: parse_frac_def split: prod.splits list.splits if_splits
      dest: span_digits_append)

lemma parse_exp_append: "parse_exp s = Some (x, r) \<Longrightarrow> s = x @ r"
  by (cases s) (auto simp: parse_exp_def Let_def neq_Nil_conv split: prod.splits if_splits
      dest: span_digits_append)

lemma parse_number_append: "parse_number s = Some (x, r) \<Longrightarrow> s = x @ r \<and> x \<noteq> []"
  by (cases s) (auto simp: parse_number_def Let_def split: option.splits if_splits
      dest!: parse_int_part_append parse_frac_append parse_exp_append)

text \<open>
  The parser of values recurses on arrays and objects; \<open>fuel\<close> bounds the depth of the recursion
  and \<open>json_fuel s\<close> is always enough for a text \<open>s\<close> (\<open>parse_enough_fuel\<close>).
\<close>

definition parse_literal :: "string \<Rightarrow> (json \<times> string) option" where
  "parse_literal s =
     (if HasPrefix s ''null'' then Some (JNull, drop 4 s)
      else if HasPrefix s ''true'' then Some (JBool True, drop 4 s)
      else if HasPrefix s ''false'' then Some (JBool False, drop 5 s)
      else map_option (\<lambda>(n, r). (JNum n, r)) (parse_number s))"

fun parse_value :: "nat \<Rightarrow> string \<Rightarrow> (json \<times> string) option"
  and parse_elems :: "nat \<Rightarrow> string \<Rightarrow> (json list \<times> string) option"
  and parse_members :: "nat \<Rightarrow> string list \<Rightarrow> string \<Rightarrow> ((string \<times> json) list \<times> string) option"
where
  "parse_value 0 s = None"
| "parse_value (Suc fuel) s =
     (case skip_ws s of
        [] \<Rightarrow> None
      | c # cs \<Rightarrow>
          if byte_val c = 34 then
            (case parse_string cs of None \<Rightarrow> None | Some (x, r) \<Rightarrow> Some (JStr x, r))
          else if byte_val c = 91 then
            (case skip_ws cs of
               [] \<Rightarrow> None
             | d # ds \<Rightarrow>
                 if byte_val d = 93 then Some (JArr [], ds)
                 else (case parse_elems fuel (d # ds) of
                         None \<Rightarrow> None | Some (vs, r) \<Rightarrow> Some (JArr vs, r)))
          else if byte_val c = 123 then
            (case skip_ws cs of
               [] \<Rightarrow> None
             | d # ds \<Rightarrow>
                 if byte_val d = 125 then Some (JObj [], ds)
                 else (case parse_members fuel [] (d # ds) of
                         None \<Rightarrow> None | Some (ms, r) \<Rightarrow> Some (JObj ms, r)))
          else parse_literal (c # cs))"
| "parse_elems 0 s = None"
| "parse_elems (Suc fuel) s =
     (case parse_value fuel s of
        None \<Rightarrow> None
      | Some (v, r) \<Rightarrow>
          (case skip_ws r of
             [] \<Rightarrow> None
           | c # cs \<Rightarrow>
               if byte_val c = 93 then Some ([v], cs)
               else if byte_val c = 44 then
                 (case parse_elems fuel cs of None \<Rightarrow> None | Some (vs, r') \<Rightarrow> Some (v # vs, r'))
               else None))"
| "parse_members 0 seen s = None"
| "parse_members (Suc fuel) seen s =
     (case skip_ws s of
        [] \<Rightarrow> None
      | q # qs \<Rightarrow>
          if byte_val q = 34 then
            (case parse_string qs of
               None \<Rightarrow> None
             | Some (k, r) \<Rightarrow>
                 if k \<in> set seen then None
                 else (case skip_ws r of
                   [] \<Rightarrow> None
                 | c # cs \<Rightarrow>
                     if byte_val c = 58 then
                       (case parse_value fuel cs of
                          None \<Rightarrow> None
                        | Some (v, r2) \<Rightarrow>
                            (case skip_ws r2 of
                               [] \<Rightarrow> None
                             | d # ds \<Rightarrow>
                                 if byte_val d = 125 then Some ([(k, v)], ds)
                                 else if byte_val d = 44 then
                                   (case parse_members fuel (k # seen) ds of
                                      None \<Rightarrow> None
                                    | Some (ms, r3) \<Rightarrow> Some ((k, v) # ms, r3))
                                 else None))
                     else None))
          else None)"

definition json_fuel :: "string \<Rightarrow> nat" where
  "json_fuel s = 2 * length s + 2"

definition json_parse :: "string \<Rightarrow> json option" where
  "json_parse s =
     (case parse_value (json_fuel s) s of
        None \<Rightarrow> None
      | Some (v, r) \<Rightarrow> if skip_ws r = [] then Some v else None)"

text \<open>Printing, with the members in the order of the tree.\<close>

fun json_print :: "json \<Rightarrow> string" where
  "json_print JNull = ''null''"
| "json_print (JBool b) = (if b then ''true'' else ''false'')"
| "json_print (JNum n) = n"
| "json_print (JStr s) = json_quote s"
| "json_print (JArr vs) = ''['' @ Join (map json_print vs) '','' @ '']''"
| "json_print (JObj ms) =
     ''{'' @ Join (map (\<lambda>(k, v). json_quote k @ CHR '':'' # json_print v) ms) '','' @ ''}''"

section \<open>The fuel is enough\<close>

lemma skip_ws_shorter: "skip_ws s = c # cs \<Longrightarrow> length cs < length s"
  using skip_ws_le [of s] by simp

lemma parse_literal_shorter: "parse_literal s = Some (v, r) \<Longrightarrow> length r < length s"
  by (auto simp: parse_literal_def HasPrefix_iff split: if_splits dest!: parse_number_append)

lemmas token_shorter = skip_ws_shorter parse_string_shorter parse_literal_shorter

lemma parse_shorter:
  "parse_value fuel s = Some (v, r) \<Longrightarrow> length r < length s"
  "parse_elems fuel s = Some (vs, r) \<Longrightarrow> length r < length s"
  "parse_members fuel seen s = Some (ms, r) \<Longrightarrow> length r < length s"
proof (induction fuel s and fuel s and fuel seen s
    arbitrary: v r and vs r and ms r rule: parse_value_parse_elems_parse_members.induct)
  case (2 fuel s)
  then show ?case
    by (fastforce split: list.splits if_splits option.splits dest!: token_shorter)
next
  case (4 fuel s)
  then show ?case
    by (fastforce split: list.splits if_splits option.splits dest!: token_shorter)
next
  case (6 fuel seen s)
  then show ?case
    by (fastforce split: list.splits if_splits option.splits dest!: token_shorter)
qed simp_all

declare parse_value.simps [simp del] parse_elems.simps [simp del] parse_members.simps [simp del]

lemma parse_more_fuel_all:
  "(\<forall>s. 2 * length s + 1 \<le> fuel \<longrightarrow> parse_value (Suc fuel) s = parse_value fuel s) \<and>
   (\<forall>s. 2 * length s + 2 \<le> fuel \<longrightarrow> parse_elems (Suc fuel) s = parse_elems fuel s) \<and>
   (\<forall>seen s. 2 * length s + 2 \<le> fuel \<longrightarrow>
      parse_members (Suc fuel) seen s = parse_members fuel seen s)"
proof (induction fuel)
  case 0
  show ?case by simp
next
  case (Suc fuel)
  have "parse_value (Suc (Suc fuel)) s = parse_value (Suc fuel) s"
    if b: "2 * length s + 1 \<le> Suc fuel" for s
  proof -
    have "parse_elems (Suc fuel) (d # ds) = parse_elems fuel (d # ds) \<and>
       parse_members (Suc fuel) [] (d # ds) = parse_members fuel [] (d # ds)"
      if "skip_ws s = c # cs" "skip_ws cs = d # ds" for c cs d ds
    proof -
      have "length (skip_ws cs) \<le> length cs" "length cs < length s"
        using that(1) by (auto dest: skip_ws_shorter simp: skip_ws_le)
      with b that(2) have "2 * length (d # ds) + 2 \<le> fuel" by simp
      with Suc.IH show ?thesis by blast
    qed
    then show ?thesis
      by (simp add: parse_value.simps(2) split: list.split)
  qed
  moreover have "parse_elems (Suc (Suc fuel)) s = parse_elems (Suc fuel) s"
    if b: "2 * length s + 2 \<le> Suc fuel" for s
  proof -
    have v: "parse_value (Suc fuel) s = parse_value fuel s" using b Suc.IH by simp
    have "parse_elems (Suc fuel) cs = parse_elems fuel cs"
      if "parse_value fuel s = Some (v, r)" "skip_ws r = c # cs" for v r c cs
    proof -
      have "length cs < length r" "length r < length s"
        using that by (auto dest: skip_ws_shorter parse_shorter(1))
      with b have "2 * length cs + 2 \<le> fuel" by simp
      with Suc.IH show ?thesis by blast
    qed
    then show ?thesis
      by (simp add: parse_elems.simps(2) v split: list.split option.split prod.split)
  qed
  moreover have "parse_members (Suc (Suc fuel)) seen s = parse_members (Suc fuel) seen s"
    if b: "2 * length s + 2 \<le> Suc fuel" for seen s
  proof -
    have v: "parse_value (Suc fuel) cs = parse_value fuel cs"
      if "skip_ws s = q # qs" "parse_string qs = Some (k, r)" "skip_ws r = c # cs"
      for q qs k r c cs
    proof -
      have "length cs < length r" "length r < length qs" "length qs < length s"
        using that by (auto dest: skip_ws_shorter parse_string_shorter)
      with b have "2 * length cs + 1 \<le> fuel" by simp
      with Suc.IH show ?thesis by blast
    qed
    have m: "parse_members (Suc fuel) ks ds = parse_members fuel ks ds"
      if "skip_ws s = q # qs" "parse_string qs = Some (k, r)" "skip_ws r = c # cs"
       "parse_value fuel cs = Some (v, r2)" "skip_ws r2 = d # ds" for q qs k r c cs v r2 d ds ks
    proof -
      have "length cs < length r" "length r < length qs" "length qs < length s"
        "length ds < length r2" "length r2 < length cs"
        using that by (auto dest: skip_ws_shorter parse_string_shorter parse_shorter(1))
      with b have "2 * length ds + 2 \<le> fuel" by simp
      with Suc.IH show ?thesis by blast
    qed
    show ?thesis
      using v m by (simp add: parse_members.simps(2) split: list.split option.split prod.split)
  qed
  ultimately show ?case by blast
qed

text \<open>Any fuel from \<open>json_fuel\<close> on gives the same parse.\<close>

lemma parse_value_enough_fuel:
  "json_fuel s \<le> fuel \<Longrightarrow> parse_value fuel s = parse_value (json_fuel s) s"
proof (induction fuel rule: dec_induct)
  case base
  show ?case by simp
next
  case (step n)
  then have "2 * length s + 1 \<le> n" by (simp add: json_fuel_def)
  with parse_more_fuel_all [of n] step show ?case by simp
qed

section \<open>Printing and parsing back\<close>

lemma utf8_seq_multi:
  assumes k: "utf8_seq_len s = k" and "1 < k"
  shows "\<forall>c \<in> set (take k s). 128 \<le> byte_val c" and "utf8_seq_len (take k s @ t) = k"
proof -
  obtain a s' where s: "s = a # s'" using assms by (cases s) auto
  have a: "\<not> byte_val a < 128" using assms s by (auto split: if_splits)
  have "(\<forall>c \<in> set (take k s). 128 \<le> byte_val c) \<and> utf8_seq_len (take k s @ t) = k"
  proof (cases "in_range a 194 223")
    case True
    then obtain b s2 where "s' = b # s2" "in_range b 128 191" "k = 2"
      using k \<open>1 < k\<close> a s by (cases s') (auto split: if_splits)
    with True a s show ?thesis by (simp add: in_range_def)
  next
    case two: False
    show ?thesis
    proof (cases "in_range a 224 239")
      case True
      then obtain b c s2 where s': "s' = b # c # s2" and k3: "k = 3"
        and ok: "if byte_val a = 224 then in_range b 160 191
          else if byte_val a = 237 then in_range b 128 159 else in_range b 128 191"
          "in_range c 128 191"
        using k \<open>1 < k\<close> a two s by (auto split: list.splits if_split_asm)
      then have "128 \<le> byte_val b" "128 \<le> byte_val c" by (auto simp: in_range_def split: if_splits)
      with True a two s s' k3 ok show ?thesis by simp
    next
      case three: False
      then have four: "in_range a 240 244"
        using k \<open>1 < k\<close> a two s by (auto split: if_split_asm)
      then obtain b c d s2 where s': "s' = b # c # d # s2" and k4: "k = 4"
        and ok: "if byte_val a = 240 then in_range b 144 191
          else if byte_val a = 244 then in_range b 128 143 else in_range b 128 191"
          "in_range c 128 191" "in_range d 128 191"
        using k \<open>1 < k\<close> a two three s by (auto split: list.splits if_split_asm)
      then have "128 \<le> byte_val b" "128 \<le> byte_val c" "128 \<le> byte_val d"
        by (auto simp: in_range_def split: if_splits)
      with four a two three s s' k4 ok show ?thesis by simp
    qed
  qed
  then show "\<forall>c \<in> set (take k s). 128 \<le> byte_val c" and "utf8_seq_len (take k s @ t) = k"
    by blast+
qed

lemma json_escape_high: "128 \<le> byte_val c \<Longrightarrow> json_escape c = [c]"
  by (simp add: json_escape_def Let_def)

lemma json_escape_plain: "plain_char c \<Longrightarrow> json_escape c = [c]"
  by (simp add: json_escape_def Let_def plain_char_def)

lemma concat_escape_high: "\<forall>c \<in> set s. 128 \<le> byte_val c \<Longrightarrow> concat (map json_escape s) = s"
  by (induction s) (simp_all add: json_escape_high)

lemma byte_val_eqD: "byte_val c = n \<Longrightarrow> c = char_of n"
  by (metis char_of_char)

definition prepend :: "string \<Rightarrow> (string \<times> string) option \<Rightarrow> (string \<times> string) option" where
  "prepend x o' = map_option (\<lambda>(y, r). (x @ y, r)) o'"

lemma prepend_case:
  "(case o' of None \<Rightarrow> None | Some (y, r) \<Rightarrow> Some (x @ y, r)) = prepend x o'"
  by (cases o') (auto simp: prepend_def)

lemma parse_string_backslash:
  "parse_escape e = Some (x, r) \<Longrightarrow>
   parse_string (char_of (92::nat) # e) = prepend x (parse_string r)"
  by (simp add: parse_string.simps [of "char_of (92::nat) # e"] prepend_case)

lemma parse_escape_two:
  assumes "byte_val c \<in> {34, 92, 8, 12, 10, 13, 9}"
  obtains e where "json_escape c = [char_of (92::nat), e]" "parse_escape (e # t) = Some ([c], t)"
proof (rule that)
  let ?e = "json_escape c ! 1"
  show "json_escape c = [char_of (92::nat), ?e]" "parse_escape (?e # t) = Some ([c], t)"
    using assms
    by (auto simp: json_escape_def byte_seq_def parse_escape_def Let_def dest: byte_val_eqD)
qed

lemma parse_escape_ctl:
  assumes "byte_val c < 32"
  shows "parse_escape (byte_seq [117, 48, 48] @ [hex_digit (byte_val c div 16), hex_digit (byte_val c mod 16)] @ t)
     = Some ([c], t)"
proof -
  have z: "hex_value (char_of (48::nat)) = Some 0" by (simp add: hex_value_def)
  have "byte_val c div 16 < 16" "byte_val c mod 16 < 16"
    using assms by (simp_all add: less_mult_imp_div_less)
  then have "hex4 (byte_seq [48, 48] @ [hex_digit (byte_val c div 16), hex_digit (byte_val c mod 16)] @ t)
      = Some (byte_val c)"
    by (simp add: byte_seq_def z hex_digit_facts)
  moreover have "utf8_encode (byte_val c) = [c]"
    using assms by (simp add: utf8_encode_def byte_seq_def)
  ultimately show ?thesis
    using assms by (simp add: parse_escape_def Let_def byte_seq_def)
qed

lemma parse_string_escape:
  assumes "byte_val c < 128"
  shows "parse_string (json_escape c @ t) = prepend [c] (parse_string t)"
proof -
  let ?n = "byte_val c"
  consider (two) "?n \<in> {34, 92, 8, 12, 10, 13, 9}"
    | (ctl) "?n < 32" "?n \<notin> {8, 12, 10, 13, 9}"
    | (plain) "32 \<le> ?n" "?n \<noteq> 34" "?n \<noteq> 92" by fastforce
  then show ?thesis
  proof cases
    case two
    then obtain e where "json_escape c = [char_of (92::nat), e]" "parse_escape (e # t) = Some ([c], t)"
      by (rule parse_escape_two)
    then show ?thesis using parse_string_backslash by simp
  next
    case ctl
    then have "json_escape c = char_of (92::nat) # byte_seq [117, 48, 48] @
        [hex_digit (byte_val c div 16), hex_digit (byte_val c mod 16)]"
      by (auto simp: json_escape_def Let_def byte_seq_def)
    then show ?thesis
      using parse_string_backslash [OF parse_escape_ctl [OF ctl(1)]] by simp
  next
    case plain
    then have "json_escape c = [c]" by (simp add: json_escape_def Let_def)
    with plain assms show ?thesis
      by (simp add: parse_string.simps [of "c # t"] prepend_def split: option.split)
  qed
qed

lemma parse_string_quoted:
  "utf8_valid s \<Longrightarrow>
   parse_string (concat (map json_escape s) @ char_of (34::nat) # r) = Some (s, r)"
proof (induction s rule: utf8_valid.induct)
  case (1 s)
  show ?case
  proof (cases s)
    case Nil
    then show ?thesis by (simp add: parse_string.simps [of "char_of (34::nat) # r"])
  next
    case (Cons c cs)
    let ?k = "utf8_seq_len (c # cs)"
    let ?rest = "concat (map json_escape (drop ?k (c # cs))) @ char_of (34::nat) # r"
    have k: "?k \<noteq> 0" and v: "utf8_valid (drop ?k (c # cs))"
      using 1(2) Cons by (auto simp: utf8_valid.simps [of "c # cs"] split: if_splits)
    have IH: "parse_string ?rest = Some (drop ?k (c # cs), r)"
      using "1.IH" [OF Cons k v] .
    show ?thesis
    proof (cases "byte_val c < 128")
      case True
      then have "?k = 1" by simp
      with IH have "parse_string (concat (map json_escape cs) @ char_of (34::nat) # r) = Some (cs, r)"
        by simp
      with Cons True show ?thesis
        by (simp add: parse_string_escape prepend_def)
    next
      case False
      with k have k1: "1 < ?k" by (auto split: list.splits if_splits)
      note m = utf8_seq_multi [OF refl k1]
      have split: "concat (map json_escape (c # cs)) = take ?k (c # cs) @ concat (map json_escape (drop ?k (c # cs)))"
        by (metis append_take_drop_id concat_append concat_escape_high m(1) map_append)
      obtain k' where k': "?k = Suc k'" using k by (cases ?k) auto
      have t: "take ?k (c # cs) @ ?rest = c # take k' cs @ ?rest" by (simp only: k' take_Suc_Cons append_Cons)
      have len: "utf8_seq_len (c # take k' cs @ ?rest) = ?k" using m(2) [of ?rest] by (simp only: t)
      have lk: "length (take ?k (c # cs)) = ?k" using utf8_seq_len_le [of "c # cs"] by simp
      have dr: "drop ?k (c # take k' cs @ ?rest) = ?rest" "take ?k (c # take k' cs @ ?rest) = take ?k (c # cs)"
        using lk t by (metis append_eq_conv_conj)+
      have "parse_string (c # take k' cs @ ?rest) = Some (c # cs, r)"
        using False k IH
        by (simp only: parse_string.simps [of "c # take k' cs @ ?rest"] len dr Let_def list.case
            option.case prod.case if_False append_take_drop_id) (simp add: not_less)
      with split t Cons show ?thesis by simp
    qed
  qed
qed


text \<open>
  The trees whose print reads back: valid UTF-8 in every string, distinct names in every object.
  Of the number literals only integers are here: the code prints no others.
\<close>

definition int_literal :: "string \<Rightarrow> bool" where
  "int_literal n =
     (let ds = (if n \<noteq> [] \<and> byte_val (hd n) = 45 then tl n else n) in
      ds \<noteq> [] \<and> list_all is_digit ds \<and> (byte_val (hd ds) = 48 \<longrightarrow> tl ds = []))"

fun json_ok :: "json \<Rightarrow> bool" where
  "json_ok (JNum n) = int_literal n"
| "json_ok (JStr s) = utf8_valid s"
| "json_ok (JArr vs) = (\<forall>v \<in> set vs. json_ok v)"
| "json_ok (JObj ms) = (distinct (map fst ms) \<and> (\<forall>(k, v) \<in> set ms. utf8_valid k \<and> json_ok v))"
| "json_ok _ = True"

lemma char_of_quote: "char_of (34::nat) = CHR 0x22"
  by code_simp

lemma json_quote_head: "json_quote s = CHR 0x22 # concat (map json_escape s) @ [CHR 0x22]"
  by (simp add: json_quote_def byte_seq_def char_of_quote)

lemma int_literal_split:
  assumes "int_literal n"
  obtains sgn ds where "n = sgn @ ds" "sgn = [] \<or> (\<exists>c. sgn = [c] \<and> byte_val c = 45)" "ds \<noteq> []"
    "list_all is_digit ds" "byte_val (hd ds) = 48 \<longrightarrow> tl ds = []"
proof (cases "n \<noteq> [] \<and> byte_val (hd n) = 45")
  case True
  then show ?thesis using that [of "[hd n]" "tl n"] assms by (simp add: int_literal_def Let_def)
next
  case False
  then have "ds = n \<Longrightarrow> thesis" for ds using that [of "[]" n] assms by (simp add: int_literal_def Let_def split: if_split_asm)
  then show ?thesis by blast
qed

lemma is_digit_range: "is_digit c \<longleftrightarrow> 48 \<le> byte_val c \<and> byte_val c \<le> 57"
  by (simp add: is_digit_def in_range_def)

text \<open>What may follow a value inside a printed text.\<close>

definition value_end :: "string \<Rightarrow> bool" where
  "value_end r \<longleftrightarrow> r = [] \<or> byte_val (hd r) \<in> {10, 44, 93, 125}"

lemma value_ends [simp]: "value_end []" "value_end (CHR '','' # r)" "value_end (CHR '']'' # r)" "value_end (CHR ''}'' # r)"
  by (simp_all add: value_end_def)

lemma parse_number_int:
  assumes "int_literal n" "value_end r"
  shows "parse_number (n @ r) = Some (n, r)"
proof -
  obtain sgn ds where n: "n = sgn @ ds" "sgn = [] \<or> (\<exists>c. sgn = [c] \<and> byte_val c = 45)" "ds \<noteq> []"
    "list_all is_digit ds" "byte_val (hd ds) = 48 \<longrightarrow> tl ds = []"
    using int_literal_split [OF assms(1)] .
  obtain d ds' where d: "ds = d # ds'" using n(3) by (cases ds) auto
  have stop: "takeWhile is_digit r = []" "dropWhile is_digit r = r"
    using assms(2) by (cases r; auto simp: value_end_def is_digit_range)+
  have span: "span_digits (ds @ r) = (ds, r)"
    using n(4) stop by (simp add: span_digits_def takeWhile_append2 dropWhile_append2 list_all_iff)
  have int: "parse_int_part (ds @ r) = Some (ds, r)" using span n(5) d by (simp add: parse_int_part_def)
  have rest: "parse_frac r = Some ([], r)" "parse_exp r = Some ([], r)"
    using assms(2) by (auto simp: parse_frac_def parse_exp_def value_end_def split: list.split)
  have "byte_val d \<noteq> 45" using n(4) d by (simp add: is_digit_range)
  then show ?thesis using n(1,2) int rest d by (auto simp: parse_number_def Let_def)
qed

lemma int_literal_head:
  assumes "int_literal n"
  obtains c cs where "n = c # cs" "byte_val c = 45 \<or> 48 \<le> byte_val c \<and> byte_val c \<le> 57"
proof -
  obtain sgn ds where n: "n = sgn @ ds" "sgn = [] \<or> (\<exists>c. sgn = [c] \<and> byte_val c = 45)" "ds \<noteq> []" "list_all is_digit ds"
    using int_literal_split [OF assms] .
  then show ?thesis using that by (cases ds) (auto simp: is_digit_range)
qed

lemma parse_literal_int:
  assumes "int_literal n" "value_end r"
  shows "parse_literal (n @ r) = Some (JNum n, r)"
proof -
  obtain c cs where c: "n = c # cs" "byte_val c = 45 \<or> 48 \<le> byte_val c \<and> byte_val c \<le> 57"
    using int_literal_head [OF assms(1)] .
  then have "\<not> HasPrefix (n @ r) ''null''" "\<not> HasPrefix (n @ r) ''true''" "\<not> HasPrefix (n @ r) ''false''"
    by (auto simp: HasPrefix_iff)
  then show ?thesis using parse_number_int [OF assms] by (simp add: parse_literal_def)
qed

lemma json_print_head:
  assumes "json_ok v"
  obtains c cs where "json_print v = c # cs" "byte_val c \<notin> {32, 9, 10, 13, 93}"
proof (cases v)
  case (JBool b)
  then show ?thesis using that by (cases b) simp_all
next
  case (JNum n)
  have "int_literal n" using assms JNum by simp
  then obtain c cs where c: "n = c # cs" "byte_val c = 45 \<or> 48 \<le> byte_val c \<and> byte_val c \<le> 57"
    by (rule int_literal_head)
  show ?thesis by (rule that [of c cs]) (use c JNum in auto)
qed (use assms that in \<open>auto simp: json_quote_head\<close>)

lemma skip_ws_id: "byte_val c \<notin> {32, 9, 10, 13} \<Longrightarrow> skip_ws (c # cs) = c # cs"
  by (simp add: skip_ws_def)

definition reads_back :: "json \<Rightarrow> bool" where
  "reads_back v \<longleftrightarrow> (\<exists>N. \<forall>fuel \<ge> N. \<forall>r. value_end r \<longrightarrow> parse_value fuel (json_print v @ r) = Some (v, r))"

lemma reads_backE:
  assumes "reads_back v"
  obtains N where "\<And>fuel r. N \<le> fuel \<Longrightarrow> value_end r \<Longrightarrow> parse_value fuel (json_print v @ r) = Some (v, r)"
  using assms unfolding reads_back_def by blast

lemma parse_elems_print:
  assumes "vs \<noteq> []" and "\<forall>v \<in> set vs. reads_back v"
  shows "\<exists>N. \<forall>fuel \<ge> N. \<forall>r.
    parse_elems fuel (Join (map json_print vs) '','' @ CHR '']'' # r) = Some (vs, r)"
  using assms
proof (induction vs)
  case (Cons v vs)
  have "reads_back v" using Cons.prems(2) by simp
  then obtain N1 where v: "\<And>fuel r. N1 \<le> fuel \<Longrightarrow> value_end r \<Longrightarrow> parse_value fuel (json_print v @ r) = Some (v, r)"
    using reads_backE by blast
  show ?case
  proof (cases "vs = []")
    case True
    have "parse_elems fuel (Join (map json_print (v # vs)) '','' @ CHR '']'' # r) = Some (v # vs, r)"
      if le: "Suc N1 \<le> fuel" for fuel r
    proof -
      obtain f where f: "fuel = Suc f" "N1 \<le> f" using le by (cases fuel) auto
      have "parse_value f (json_print v @ CHR '']'' # r) = Some (v, CHR '']'' # r)" by (rule v [OF f(2)]) simp
      then show ?thesis using True unfolding f(1) by (simp add: parse_elems.simps(2) skip_ws_id)
    qed
    then show ?thesis by blast
  next
    case False
    then obtain N2 where vs: "parse_elems fuel (Join (map json_print vs) '','' @ CHR '']'' # r) = Some (vs, r)"
      if "N2 \<le> fuel" for fuel r
      using Cons by auto
    have "parse_elems fuel (Join (map json_print (v # vs)) '','' @ CHR '']'' # r) = Some (v # vs, r)"
      if le: "Suc (max N1 N2) \<le> fuel" for fuel r
    proof -
      obtain f where f: "fuel = Suc f" "N1 \<le> f" "N2 \<le> f" using le by (cases fuel) auto
      have "parse_value f (json_print v @ CHR '','' # s) = Some (v, CHR '','' # s)" for s by (rule v [OF f(2)]) simp
      then show ?thesis using False vs [OF f(3)] unfolding f(1)
        by (simp add: parse_elems.simps(2) skip_ws_id Join_Cons)
    qed
    then show ?thesis by blast
  qed
qed simp

definition print_member :: "string \<times> json \<Rightarrow> string" where
  "print_member = (\<lambda>(k, v). json_quote k @ CHR '':'' # json_print v)"

lemma parse_members_print:
  assumes "ms \<noteq> []" and "\<forall>(k, v) \<in> set ms. utf8_valid k \<and> reads_back v"
    and "distinct (map fst ms)" and "set seen \<inter> fst ` set ms = {}"
  shows "\<exists>N. \<forall>fuel \<ge> N. \<forall>r.
    parse_members fuel seen (Join (map print_member ms) '','' @ CHR ''}'' # r) = Some (ms, r)"
  using assms
proof (induction ms arbitrary: seen)
  case (Cons m ms)
  obtain k w where m: "m = (k, w)" by (cases m)
  have k: "utf8_valid k" "k \<notin> set seen" using Cons.prems m by auto
  have "reads_back w" using Cons.prems(2) m by simp
  then obtain N1 where v: "\<And>fuel r. N1 \<le> fuel \<Longrightarrow> value_end r \<Longrightarrow> parse_value fuel (json_print w @ r) = Some (w, r)"
    using reads_backE by blast
  have key: "parse_string (concat (map json_escape k) @ CHR 0x22 # r) = Some (k, r)" for r
    using parse_string_quoted [OF k(1)] by (simp add: char_of_quote)
  have step: "parse_members (Suc fuel) seen (print_member m @ d # r) =
      (if byte_val d = 125 then Some ([(k, w)], r)
       else if byte_val d = 44 then
         (case parse_members fuel (k # seen) r of None \<Rightarrow> None | Some (ms, r3) \<Rightarrow> Some ((k, w) # ms, r3))
       else None)" if "N1 \<le> fuel" "byte_val d \<in> {44, 125}" for fuel d r
    using that k key v [OF that(1), of "d # r"]
    by (auto simp: print_member_def m json_quote_head parse_members.simps(2) skip_ws_id value_end_def)
  show ?case
  proof (cases "ms = []")
    case True
    have "parse_members fuel seen (Join (map print_member (m # ms)) '','' @ CHR ''}'' # r) = Some (m # ms, r)"
      if "Suc N1 \<le> fuel" for fuel r
      using that True step [of "fuel - 1" "CHR ''}''"] m by (cases fuel) auto
    then show ?thesis by blast
  next
    case False
    have "set (k # seen) \<inter> fst ` set ms = {}" using Cons.prems(3,4) m by auto
    then obtain N2 where ms: "parse_members fuel (k # seen) (Join (map print_member ms) '','' @ CHR ''}'' # r) = Some (ms, r)"
      if "N2 \<le> fuel" for fuel r
      using Cons.IH [of "k # seen"] False Cons.prems by auto
    have "parse_members fuel seen (Join (map print_member (m # ms)) '','' @ CHR ''}'' # r) = Some (m # ms, r)"
      if "Suc (max N1 N2) \<le> fuel" for fuel r
      using that False step [of "fuel - 1" "CHR '',''"] ms m
      by (cases fuel) (auto simp: Join_Cons)
    then show ?thesis by blast
  qed
qed simp

lemma parse_value_Suc:
  "\<exists>N. \<forall>fuel \<ge> N. \<forall>r. value_end r \<longrightarrow> parse_value (Suc fuel) (s @ r) = Some (v, r) \<Longrightarrow>
   \<exists>N. \<forall>fuel \<ge> N. \<forall>r. value_end r \<longrightarrow> parse_value fuel (s @ r) = Some (v, r)"
  by (metis Suc_le_D Suc_le_mono)

lemma json_reads_back: "json_ok v \<Longrightarrow> reads_back v"
proof (induction v)
  case (JStr s)
  then have "parse_value (Suc fuel) (json_print (JStr s) @ r) = Some (JStr s, r)" for fuel r
    using parse_string_quoted [of s r]
    by (simp add: char_of_quote json_quote_head parse_value.simps(2) skip_ws_id)
  then show ?case unfolding reads_back_def by (intro parse_value_Suc) blast
next
  case (JArr vs)
  then have rb: "\<forall>v \<in> set vs. reads_back v" by auto
  show ?case
  proof (cases "vs = []")
    case True
    then have "parse_value (Suc fuel) (json_print (JArr vs) @ r) = Some (JArr vs, r)" for fuel r
      by (simp add: parse_value.simps(2) skip_ws_id)
    then show ?thesis unfolding reads_back_def by (intro parse_value_Suc) blast
  next
    case False
    then obtain v vs' where vs: "vs = v # vs'" by (cases vs) auto
    obtain c cs where h: "json_print v = c # cs" "byte_val c \<notin> {32, 9, 10, 13, 93}"
      using JArr.prems vs by (metis json_ok.simps(3) json_print_head list.set_intros(1))
    obtain cs' where j: "Join (map json_print vs) '','' = c # cs'"
      using h(1) vs that by (cases "vs' = []") (simp_all add: Join_Cons)
    from parse_elems_print [OF False rb] obtain N where
      N: "parse_elems fuel (c # cs' @ CHR '']'' # r) = Some (vs, r)" if "N \<le> fuel" for fuel r
      by (auto simp: j)
    have "parse_value (Suc fuel) (json_print (JArr vs) @ r) = Some (JArr vs, r)" if "N \<le> fuel" for fuel r
      using N [OF that] h(2) by (simp add: parse_value.simps(2) skip_ws_id j)
    then show ?thesis unfolding reads_back_def by (intro parse_value_Suc) blast
  qed
next
  case (JObj ms)
  have rb: "\<forall>(k, v) \<in> set ms. utf8_valid k \<and> reads_back v"
    using JObj by fastforce
  have pm: "(\<lambda>(k, v). json_quote k @ CHR '':'' # json_print v) = print_member"
    by (simp add: print_member_def)
  show ?case
  proof (cases "ms = []")
    case True
    then have "parse_value (Suc fuel) (json_print (JObj ms) @ r) = Some (JObj ms, r)" for fuel r
      by (simp add: parse_value.simps(2) skip_ws_id)
    then show ?thesis unfolding reads_back_def by (intro parse_value_Suc) blast
  next
    case False
    then obtain k w ms' where ms: "ms = (k, w) # ms'" by (cases ms) auto
    obtain cs' where j: "Join (map print_member ms) '','' = CHR 0x22 # cs'"
      using that by (cases "ms' = []") (simp_all add: ms Join_Cons print_member_def json_quote_head)
    have "distinct (map fst ms)" "set [] \<inter> fst ` set ms = {}" using JObj.prems by auto
    from parse_members_print [OF False rb this] obtain N where
      N: "parse_members fuel [] (CHR 0x22 # cs' @ CHR ''}'' # r) = Some (ms, r)" if "N \<le> fuel" for fuel r
      by (auto simp: j)
    have "parse_value (Suc fuel) (json_print (JObj ms) @ r) = Some (JObj ms, r)" if "N \<le> fuel" for fuel r
      using N [OF that] by (simp add: parse_value.simps(2) skip_ws_id pm j del: split_paired_All)
    then show ?thesis unfolding reads_back_def by (intro parse_value_Suc) blast
  qed
next
  case JNull
  have "parse_value (Suc fuel) (json_print JNull @ r) = Some (JNull, r)" for fuel r
    by (simp add: parse_value.simps(2) skip_ws_id parse_literal_def)
  then show ?case unfolding reads_back_def by (intro parse_value_Suc) blast
next
  case (JBool b)
  have "parse_value (Suc fuel) (json_print (JBool b) @ r) = Some (JBool b, r)" for fuel r
    by (simp add: parse_value.simps(2) skip_ws_id parse_literal_def)
  then show ?case unfolding reads_back_def by (intro parse_value_Suc) blast
next
  case (JNum n)
  then obtain c cs where c: "n = c # cs" "byte_val c = 45 \<or> 48 \<le> byte_val c \<and> byte_val c \<le> 57"
    using int_literal_head by auto
  have "parse_value (Suc fuel) (json_print (JNum n) @ r) = Some (JNum n, r)" if "value_end r" for fuel r
  proof -
    have n: "parse_literal (n @ r) = Some (JNum n, r)" using parse_literal_int that JNum by simp
    have ws: "skip_ws (n @ r) = n @ r" using c by (auto intro: skip_ws_id)
    show ?thesis unfolding json_print.simps parse_value.simps ws using n c by auto
  qed
  then show ?case unfolding reads_back_def by (intro parse_value_Suc) blast
qed

lemma json_parse_followed:
  assumes "json_ok v" "value_end s" "skip_ws s = []"
  shows "json_parse (json_print v @ s) = Some v"
proof -
  have "reads_back v" using assms(1) by (rule json_reads_back)
  then obtain N where N: "\<And>fuel r. N \<le> fuel \<Longrightarrow> value_end r \<Longrightarrow> parse_value fuel (json_print v @ r) = Some (v, r)"
    using reads_backE by blast
  let ?s = "json_print v @ s"
  have "parse_value (max N (json_fuel ?s)) ?s = Some (v, s)"
    by (rule N) (simp_all add: assms(2))
  moreover have "parse_value (max N (json_fuel ?s)) ?s = parse_value (json_fuel ?s) ?s"
    by (rule parse_value_enough_fuel) simp
  ultimately have "parse_value (json_fuel ?s) ?s = Some (v, s)" by simp
  then show ?thesis by (simp add: json_parse_def assms(3))
qed

lemma json_parse_print: "json_ok v \<Longrightarrow> json_parse (json_print v) = Some v"
  using json_parse_followed [of v "[]"] by (simp add: skip_ws_def)

lemma json_parse_line: "json_ok v \<Longrightarrow> json_parse (json_print v @ [CHR 0x0A]) = Some v"
  by (rule json_parse_followed) (simp_all add: skip_ws_def value_end_def)

end
