(* ===== verification/Bundle.thy ===== *)
theory Bundle
  imports Keyspace Go_Json
begin

text \<open>
  \<open>internal/bundle/manifest.go\<close> and \<open>internal/bundle/validate.go\<close>: the immutable v6 bundle, its
  JSON encoding, its semantic digest, its structural and certificate validation, and the
  target-local policy.

  The cryptographic library (SHA-256, PEM, X.509 and TLS key pairs) is the parameter \<open>L\<close> of type
  \<open>crypto\<close>; \<open>crypto_ok\<close> states what the code relies on. Everything else is defined. A Go map of
  file contents is an association list whose newest entry comes first.
\<close>

section \<open>The cryptographic library\<close>

datatype PublicKey = RSA nat | ECDSA string | Ed25519 | OtherKey string

text \<open>\<open>c_ExtKeyUsage\<close> holds the numbers of \<open>x509.ExtKeyUsage\<close>; times are in nanoseconds.\<close>

record Certificate =
  c_Raw :: bytes
  c_IsCA :: bool
  c_NotBefore :: int
  c_NotAfter :: int
  c_ExtKeyUsage :: "int list"
  c_PublicKey :: PublicKey

definition ExtKeyUsageServerAuth :: int where "ExtKeyUsageServerAuth = 1"
definition ExtKeyUsageClientAuth :: int where "ExtKeyUsageClientAuth = 2"

record PemBlock =
  pb_Type :: string
  pb_Headers :: "(string \<times> string) list"
  pb_Bytes :: bytes

text \<open>
  \<open>X509KeyPair\<close> returns \<open>None\<close> for an error and otherwise the pair's optional parsed leaf.
\<close>

record crypto =
  sha256 :: "bytes \<Rightarrow> bytes"
  pem_Decode :: "bytes \<Rightarrow> (PemBlock \<times> bytes) option"
  pem_EncodeToMemory :: "PemBlock \<Rightarrow> bytes"
  ParseCertificate :: "bytes \<Rightarrow> Certificate option"
  CheckSignatureFrom :: "Certificate \<Rightarrow> Certificate \<Rightarrow> bool"
  X509KeyPair :: "bytes \<Rightarrow> bytes \<Rightarrow> Certificate option option"
  VerifyHostname :: "Certificate \<Rightarrow> string \<Rightarrow> bool"

text \<open>SHA-256 sums have 32 bytes; a decoded PEM block consumes input.\<close>

definition crypto_ok :: "crypto \<Rightarrow> bool" where
  "crypto_ok L \<longleftrightarrow>
     (\<forall>x. length (sha256 L x) = 32) \<and>
     (\<forall>x b r. pem_Decode L x = Some (b, r) \<longrightarrow> length r < length x)"

lemma crypto_okD:
  assumes "crypto_ok L"
  shows "length (sha256 L x) = 32"
    and "pem_Decode L x = Some (b, r) \<Longrightarrow> length r < length x"
    and "pem_Decode L [] = None"
proof -
  show "length (sha256 L x) = 32" "pem_Decode L x = Some (b, r) \<Longrightarrow> length r < length x"
    using assms unfolding crypto_ok_def by blast+
  show "pem_Decode L [] = None"
    using assms unfolding crypto_ok_def
    by (metis length_0_conv not_None_eq not_less0 surj_pair)
qed

section \<open>Manifests\<close>

definition SchemaV6 :: string where "SchemaV6 = ''pemcast/v6''"

definition TypeTLSServer :: string where "TypeTLSServer = ''tls-server''"
definition TypeTLSClient :: string where "TypeTLSClient = ''tls-client''"
definition TypeTrust :: string where "TypeTrust = ''trust''"

definition RoleCertificateChain :: string where "RoleCertificateChain = ''certificate-chain''"
definition RolePrivateKey :: string where "RolePrivateKey = ''private-key''"
definition RoleCACertificate :: string where "RoleCACertificate = ''ca-certificate''"

definition NameCertificateChain :: string where "NameCertificateChain = ''fullchain.pem''"
definition NamePrivateKey :: string where "NamePrivateKey = ''privkey.pem''"
definition NameCABundle :: string where "NameCABundle = ''ca-bundle.pem''"

definition EncodingBase64 :: string where "EncodingBase64 = ''base64''"

definition MaxEncodedBundleBytes :: nat where "MaxEncodedBundleBytes = 2 ^ 20"

lemmas type_defs = TypeTLSServer_def TypeTLSClient_def TypeTrust_def
lemmas role_defs = RoleCertificateChain_def RolePrivateKey_def RoleCACertificate_def
lemmas name_defs = NameCertificateChain_def NamePrivateKey_def NameCABundle_def

record ManifestFile =
  mf_Name :: string
  mf_Role :: string
  mf_SHA256 :: string
  mf_Encoding :: string
  mf_Data :: string

record Manifest =
  m_Schema :: string
  m_Type :: string
  m_Files :: "ManifestFile list"

type_synonym file_map = "(string \<times> bytes) list"

record Material =
  mat_TargetID :: string
  mat_Generation :: string
  mat_Revision :: int
  mat_Manifest :: Manifest
  mat_Files :: file_map
  mat_Digest :: string
  mat_Certificates :: "Certificate option list"
  mat_Leaf :: "Certificate option"

datatype bundle_error =
    UnsupportedSchema string
  | UnsupportedType string
  | WrongFileCount string nat
  | UnsafeFileName nat string
  | DuplicateFile string
  | InvalidRole string string string
  | InvalidSHA256 string
  | UnsupportedEncoding string string
  | FileSetMismatch
  | FileMismatch string
  | InvalidBase64 string
  | SHA256Mismatch string
  | NonPEMData
  | UnexpectedBlock string
  | CertificateParse
  | NoCertificates
  | ParseFuel
  | LeafIsCA
  | ChainNotCA nat
  | ChainNotSigned nat
  | KeyNoPEM
  | KeyBlockType string
  | KeyTrailingData
  | KeyEncrypted
  | KeyPairParse
  | LeafMismatch
  | ShortRSAKey
  | UnsupportedCurve string
  | UnsupportedKeyType string
  | UsageNotPermitted string
  | TrustNotCA nat
  | BundleTooLarge nat
  | BundleMarshal
  | BundleUnmarshal
  | GenerationMismatch string string

definition bundle_hash :: "crypto \<Rightarrow> bytes \<Rightarrow> string" where
  "bundle_hash L value = hex_encode (sha256 L value)"

definition expectedFiles :: "string \<Rightarrow> (string \<times> string) list option" where
  "expectedFiles bundleType =
     (if bundleType = TypeTLSServer \<or> bundleType = TypeTLSClient then
        Some [(NameCertificateChain, RoleCertificateChain), (NamePrivateKey, RolePrivateKey)]
      else if bundleType = TypeTrust then Some [(NameCABundle, RoleCACertificate)]
      else None)"

text \<open>Reading a Go map of strings gives the empty string for an absent key.\<close>

definition map_get :: "(string \<times> string) list \<Rightarrow> string \<Rightarrow> string" where
  "map_get m k = (case map_of m k of None \<Rightarrow> [] | Some v \<Rightarrow> v)"

definition valid_sha256_hex :: "string \<Rightarrow> bool" where
  "valid_sha256_hex s =
     (case hex_decode s of None \<Rightarrow> False | Some digest \<Rightarrow> length digest = 32 \<and> s = ToLower s)"

text \<open>The loop of \<open>Manifest.Validate\<close>: \<open>seen\<close> holds the names met so far.\<close>

fun validate_manifest_files ::
  "string \<Rightarrow> (string \<times> string) list \<Rightarrow> nat \<Rightarrow> string list \<Rightarrow> ManifestFile list \<Rightarrow>
   (bundle_error, unit) result" where
  "validate_manifest_files ty expected index seen [] = Inr ()"
| "validate_manifest_files ty expected index seen (file # files) =
     (if \<not> SafeName (mf_Name file) then Inl (UnsafeFileName index (mf_Name file))
      else if mf_Name file \<in> set seen then Inl (DuplicateFile (mf_Name file))
      else if mf_Role file \<noteq> map_get expected (mf_Name file)
        then Inl (InvalidRole (mf_Name file) (mf_Role file) ty)
      else if \<not> valid_sha256_hex (mf_SHA256 file) then Inl (InvalidSHA256 (mf_Name file))
      else if mf_Encoding file \<noteq> EncodingBase64
        then Inl (UnsupportedEncoding (mf_Name file) (mf_Encoding file))
      else validate_manifest_files ty expected (Suc index) (mf_Name file # seen) files)"

definition Manifest_Validate :: "Manifest \<Rightarrow> (bundle_error, unit) result" where
  "Manifest_Validate m =
     (if m_Schema m \<noteq> SchemaV6 then Inl (UnsupportedSchema (m_Schema m))
      else case expectedFiles (m_Type m) of
        None \<Rightarrow> Inl (UnsupportedType (m_Type m))
      | Some expected \<Rightarrow>
          if length (m_Files m) \<noteq> map_len expected
          then Inl (WrongFileCount (m_Type m) (map_len expected))
          else validate_manifest_files (m_Type m) expected 0 [] (m_Files m))"

section \<open>Certificates and keys\<close>

text \<open>
  The PEM loop of \<open>parseCertificates\<close>. Each round consumes input (\<open>crypto_ok\<close>), so a fuel above
  the length of the data is never used up (\<open>parse_cert_loop_fuel\<close>).
\<close>

fun parse_cert_loop ::
  "crypto \<Rightarrow> nat \<Rightarrow> bytes \<Rightarrow> Certificate list \<Rightarrow> (bundle_error, Certificate list) result" where
  "parse_cert_loop L 0 rest certificates = Inl ParseFuel"
| "parse_cert_loop L (Suc fuel) rest certificates =
     (case pem_Decode L rest of
        None \<Rightarrow> if TrimSpace rest \<noteq> [] then Inl NonPEMData else Inr certificates
      | Some (block, remainder) \<Rightarrow>
          if pb_Type block \<noteq> ''CERTIFICATE'' then Inl (UnexpectedBlock (pb_Type block))
          else (case ParseCertificate L (pb_Bytes block) of
                  None \<Rightarrow> Inl CertificateParse
                | Some certificate \<Rightarrow>
                    parse_cert_loop L fuel remainder (certificates @ [certificate])))"

definition parseCertificates :: "crypto \<Rightarrow> bytes \<Rightarrow> (bundle_error, Certificate list) result" where
  "parseCertificates L data =
     (case parse_cert_loop L (Suc (length data)) data [] of
        Inl e \<Rightarrow> Inl e
      | Inr certificates \<Rightarrow> if certificates = [] then Inl NoCertificates else Inr certificates)"

definition normalizePrivateKey :: "crypto \<Rightarrow> bytes \<Rightarrow> (bundle_error, bytes) result" where
  "normalizePrivateKey L data =
     (case pem_Decode L data of
        None \<Rightarrow> Inl KeyNoPEM
      | Some (block, rest) \<Rightarrow>
          if pb_Type block \<noteq> ''PRIVATE KEY'' \<and> \<not> HasSuffix (pb_Type block) '' PRIVATE KEY''
          then Inl (KeyBlockType (pb_Type block))
          else if TrimSpace rest \<noteq> [] then Inl KeyTrailingData
          else if list_ex (\<lambda>(name, _). name = ''Proc-Type'' \<or> name = ''DEK-Info'') (pb_Headers block)
          then Inl KeyEncrypted
          else Inr (pem_EncodeToMemory L block))"

definition validatePublicKey :: "PublicKey \<Rightarrow> (bundle_error, unit) result" where
  "validatePublicKey public =
     (case public of
        RSA bits \<Rightarrow> if bits < 2048 then Inl ShortRSAKey else Inr ()
      | ECDSA curve \<Rightarrow>
          if curve = ''P-256'' \<or> curve = ''P-384'' \<or> curve = ''P-521'' then Inr ()
          else Inl (UnsupportedCurve curve)
      | Ed25519 \<Rightarrow> Inr ()
      | OtherKey ty \<Rightarrow> Inl (UnsupportedKeyType ty))"

fun containsKeyUsage :: "int list \<Rightarrow> int \<Rightarrow> bool" where
  "containsKeyUsage [] wanted = False"
| "containsKeyUsage (usage # usages) wanted = (if usage = wanted then True else containsKeyUsage usages wanted)"

text \<open>The two loops over the chain: every certificate after the leaf is a CA, each is signed by the next.\<close>

fun check_issuers_ca :: "nat \<Rightarrow> Certificate list \<Rightarrow> (bundle_error, unit) result" where
  "check_issuers_ca index [] = Inr ()"
| "check_issuers_ca index (c # cs) =
     (if \<not> c_IsCA c then Inl (ChainNotCA index) else check_issuers_ca (Suc index) cs)"

fun check_signatures :: "crypto \<Rightarrow> nat \<Rightarrow> Certificate list \<Rightarrow> (bundle_error, unit) result" where
  "check_signatures L index (c # d # cs) =
     (if \<not> CheckSignatureFrom L c d then Inl (ChainNotSigned index)
      else check_signatures L (Suc index) (d # cs))"
| "check_signatures L index _ = Inr ()"

definition wanted_usage :: "string \<Rightarrow> int" where
  "wanted_usage bundleType =
     (if bundleType = TypeTLSServer then ExtKeyUsageServerAuth
      else if bundleType = TypeTLSClient then ExtKeyUsageClientAuth else 0)"

text \<open>The result of \<open>tls.X509KeyPair\<close> against the parsed leaf; certificates are equal when their raw bytes are.\<close>

definition check_pair :: "Certificate option option \<Rightarrow> Certificate \<Rightarrow> (bundle_error, unit) result" where
  "check_pair pair leaf =
     (case pair of
        None \<Rightarrow> Inl KeyPairParse
      | Some pair_leaf \<Rightarrow>
          (case pair_leaf of
             None \<Rightarrow> Inl LeafMismatch
           | Some l \<Rightarrow> if c_Raw l \<noteq> c_Raw leaf then Inl LeafMismatch else Inr ()))"

definition validateIdentity ::
  "crypto \<Rightarrow> string \<Rightarrow> bytes \<Rightarrow> bytes \<Rightarrow> (bundle_error, Certificate list \<times> Certificate) result" where
  "validateIdentity L bundleType certificatePEM privateKeyPEM =
     and_then (parseCertificates L certificatePEM) id (\<lambda>certificates.
     let leaf = hd certificates in
     if c_IsCA leaf then Inl LeafIsCA
     else and_then (check_issuers_ca 1 (tl certificates)) id (\<lambda>_.
     and_then (check_signatures L 0 certificates) id (\<lambda>_.
     and_then (normalizePrivateKey L privateKeyPEM) id (\<lambda>normalizedKey.
     and_then (check_pair (X509KeyPair L certificatePEM normalizedKey) leaf) id (\<lambda>_.
     and_then (validatePublicKey (c_PublicKey leaf)) id (\<lambda>_.
       if c_ExtKeyUsage leaf \<noteq> [] \<and> \<not> containsKeyUsage (c_ExtKeyUsage leaf) (wanted_usage bundleType)
       then Inl (UsageNotPermitted bundleType)
       else Inr (certificates, leaf)))))))"

fun check_all_ca :: "nat \<Rightarrow> Certificate list \<Rightarrow> (bundle_error, unit) result" where
  "check_all_ca index [] = Inr ()"
| "check_all_ca index (c # cs) =
     (if \<not> c_IsCA c then Inl (TrustNotCA index) else check_all_ca (Suc index) cs)"

definition validateTrust :: "crypto \<Rightarrow> bytes \<Rightarrow> (bundle_error, Certificate list) result" where
  "validateTrust L certificatePEM =
     and_then (parseCertificates L certificatePEM) id (\<lambda>certificates.
     and_then (check_all_ca 0 certificates) id (\<lambda>_. Inr certificates))"


section \<open>Digests and file sets\<close>

text \<open>\<open>ManifestFile\<close> names to roles; a later declaration of a name replaces an earlier one.\<close>

definition declarations :: "Manifest \<Rightarrow> (string \<times> string) list" where
  "declarations m = rev (map (\<lambda>f. (mf_Name f, mf_Role f)) (m_Files m))"

definition nul :: bytes where "nul = byte_seq [0]"

definition file_contribution :: "crypto \<Rightarrow> (string \<times> string) list \<Rightarrow> file_map \<Rightarrow> string \<Rightarrow> bytes" where
  "file_contribution L decls files name =
     name @ nul @ map_get decls name @ nul @ sha256 L (map_get files name)"

text \<open>The bytes written to the hasher, in order.\<close>

definition digest_input :: "crypto \<Rightarrow> Manifest \<Rightarrow> file_map \<Rightarrow> bytes" where
  "digest_input L manifest files =
     m_Schema manifest @ nul @ m_Type manifest @ nul @
     concat (map (file_contribution L (declarations manifest) files) (sorted_keys files))"

definition ManifestDigest :: "crypto \<Rightarrow> Manifest \<Rightarrow> file_map \<Rightarrow> string" where
  "ManifestDigest L manifest files = hex_encode (sha256 L (digest_input L manifest files))"

definition Generation :: "string \<Rightarrow> string" where
  "Generation digest = ''sha256-'' @ digest"

definition ValidateGeneration :: "string \<Rightarrow> string \<Rightarrow> (bundle_error, unit) result" where
  "ValidateGeneration generation digest =
     (if generation \<noteq> Generation digest then Inl (GenerationMismatch generation digest) else Inr ())"

fun check_declared :: "crypto \<Rightarrow> file_map \<Rightarrow> ManifestFile list \<Rightarrow> (bundle_error, unit) result" where
  "check_declared L files [] = Inr ()"
| "check_declared L files (declared # ds) =
     (case map_of files (mf_Name declared) of
        None \<Rightarrow> Inl (FileMismatch (mf_Name declared))
      | Some content \<Rightarrow>
          if bundle_hash L content \<noteq> mf_SHA256 declared then Inl (FileMismatch (mf_Name declared))
          else check_declared L files ds)"

definition Manifest_ValidateFiles ::
  "crypto \<Rightarrow> Manifest \<Rightarrow> file_map \<Rightarrow> (bundle_error, Certificate list \<times> Certificate option) result" where
  "Manifest_ValidateFiles L m files =
     and_then (Manifest_Validate m) id (\<lambda>_.
     if map_len files \<noteq> length (m_Files m) then Inl FileSetMismatch
     else and_then (check_declared L files (m_Files m)) id (\<lambda>_.
       if m_Type m = TypeTLSServer \<or> m_Type m = TypeTLSClient then
         and_then (validateIdentity L (m_Type m) (map_get files NameCertificateChain)
             (map_get files NamePrivateKey)) id
           (\<lambda>(certificates, leaf). Inr (certificates, Some leaf))
       else if m_Type m = TypeTrust then
         and_then (validateTrust L (map_get files NameCABundle)) id
           (\<lambda>certificates. Inr (certificates, None))
       else Inl (UnsupportedType (m_Type m))))"

text \<open>The decoding loop of \<open>decodeManifestFiles\<close>: each content is stored under its name.\<close>

fun decode_files :: "crypto \<Rightarrow> ManifestFile list \<Rightarrow> file_map \<Rightarrow> (bundle_error, file_map) result" where
  "decode_files L [] files = Inr files"
| "decode_files L (declared # ds) files =
     (case b64_decode (mf_Data declared) of
        None \<Rightarrow> Inl (InvalidBase64 (mf_Name declared))
      | Some content \<Rightarrow>
          if bundle_hash L content \<noteq> mf_SHA256 declared then Inl (SHA256Mismatch (mf_Name declared))
          else decode_files L ds ((mf_Name declared, content) # files))"

definition decodeManifestFiles :: "crypto \<Rightarrow> Manifest \<Rightarrow> (bundle_error, file_map) result" where
  "decodeManifestFiles L manifest =
     and_then (Manifest_Validate manifest) id (\<lambda>_.
     and_then (decode_files L (m_Files manifest) []) id (\<lambda>files.
     and_then (Manifest_ValidateFiles L manifest files) id (\<lambda>_. Inr files)))"

section \<open>The JSON form\<close>

definition ManifestFile_json :: "ManifestFile \<Rightarrow> json" where
  "ManifestFile_json f =
     JObj [(''name'', JStr (mf_Name f)), (''role'', JStr (mf_Role f)),
           (''sha256'', JStr (mf_SHA256 f)), (''encoding'', JStr (mf_Encoding f)),
           (''data'', JStr (mf_Data f))]"

definition Manifest_json :: "Manifest \<Rightarrow> json" where
  "Manifest_json m =
     JObj [(''schema'', JStr (m_Schema m)), (''type'', JStr (m_Type m)),
           (''files'', JArr (map ManifestFile_json (m_Files m)))]"

text \<open>\<open>json.Marshal\<close> fails on a string that is not UTF-8, \<open>json.Unmarshal\<close> on any JSON of another shape.\<close>

definition json_Marshal :: "json \<Rightarrow> bytes option" where
  "json_Marshal v = (if json_ok v then Some (json_print v) else None)"

fun unmarshal_string :: "json \<Rightarrow> string option" where
  "unmarshal_string JNull = Some []"
| "unmarshal_string (JStr s) = Some s"
| "unmarshal_string _ = None"

text \<open>A JSON number read into a Go \<open>int\<close>: an integer literal within 64 bits.\<close>

definition unmarshal_int :: "json \<Rightarrow> int option" where
  "unmarshal_int v =
     (case v of
        JNull \<Rightarrow> Some 0
      | JNum s \<Rightarrow>
          (let neg = HasPrefix s ''-''; ds = TrimPrefix s ''-'' in
           if ds = [] \<or> \<not> list_all is_digit ds then None
           else (let n = foldl (\<lambda>a c. a * 10 + (int (byte_val c) - 48)) 0 ds; i = (if neg then - n else n) in
             if - (2 ^ 63) \<le> i \<and> i < 2 ^ 63 then Some i else None))
      | _ \<Rightarrow> None)"

definition json_member :: "(json \<Rightarrow> 'a option) \<Rightarrow> 'a \<Rightarrow> (string \<times> json) list \<Rightarrow> string \<Rightarrow> 'a option" where
  "json_member dec zero ms name =
     (case map_of ms name of None \<Rightarrow> Some zero | Some v \<Rightarrow> dec v)"

definition known_members :: "string list \<Rightarrow> (string \<times> json) list \<Rightarrow> bool" where
  "known_members names ms = list_all (\<lambda>(k, _). k \<in> set names) ms"

fun unmarshal_list :: "(json \<Rightarrow> 'a option) \<Rightarrow> json list \<Rightarrow> 'a list option" where
  "unmarshal_list dec [] = Some []"
| "unmarshal_list dec (v # vs) =
     (case (dec v, unmarshal_list dec vs) of (Some x, Some xs) \<Rightarrow> Some (x # xs) | _ \<Rightarrow> None)"

definition unmarshal_slice :: "(json \<Rightarrow> 'a option) \<Rightarrow> json \<Rightarrow> 'a list option" where
  "unmarshal_slice dec v =
     (case v of JNull \<Rightarrow> Some [] | JArr vs \<Rightarrow> unmarshal_list dec vs | _ \<Rightarrow> None)"

definition unmarshal_struct :: "string list \<Rightarrow> ((string \<times> json) list \<Rightarrow> 'a option) \<Rightarrow> json \<Rightarrow> 'a option" where
  "unmarshal_struct names dec v =
     (case v of
        JNull \<Rightarrow> dec []
      | JObj ms \<Rightarrow> if known_members names ms then dec ms else None
      | _ \<Rightarrow> None)"

definition ManifestFile_members :: "(string \<times> json) list \<Rightarrow> ManifestFile option" where
  "ManifestFile_members ms =
     (case (json_member unmarshal_string [] ms ''name'', json_member unmarshal_string [] ms ''role'',
            json_member unmarshal_string [] ms ''sha256'', json_member unmarshal_string [] ms ''encoding'',
            json_member unmarshal_string [] ms ''data'') of
        (Some n, Some r, Some s, Some e, Some d) \<Rightarrow>
          Some \<lparr>mf_Name = n, mf_Role = r, mf_SHA256 = s, mf_Encoding = e, mf_Data = d\<rparr>
      | _ \<Rightarrow> None)"

definition unmarshal_ManifestFile :: "json \<Rightarrow> ManifestFile option" where
  "unmarshal_ManifestFile =
     unmarshal_struct [''name'', ''role'', ''sha256'', ''encoding'', ''data''] ManifestFile_members"

definition Manifest_members :: "(string \<times> json) list \<Rightarrow> Manifest option" where
  "Manifest_members ms =
     (case (json_member unmarshal_string [] ms ''schema'', json_member unmarshal_string [] ms ''type'',
            json_member (unmarshal_slice unmarshal_ManifestFile) [] ms ''files'') of
        (Some s, Some t, Some fs) \<Rightarrow> Some \<lparr>m_Schema = s, m_Type = t, m_Files = fs\<rparr>
      | _ \<Rightarrow> None)"

definition unmarshal_Manifest :: "bytes \<Rightarrow> Manifest option" where
  "unmarshal_Manifest data =
     (case json_parse data of
        None \<Rightarrow> None
      | Some v \<Rightarrow> unmarshal_struct [''schema'', ''type'', ''files''] Manifest_members v)"

definition Encode :: "crypto \<Rightarrow> Manifest \<Rightarrow> (bundle_error, bytes) result" where
  "Encode L manifest =
     and_then (decodeManifestFiles L manifest) id (\<lambda>_.
     case json_Marshal (Manifest_json manifest) of
       None \<Rightarrow> Inl BundleMarshal
     | Some data \<Rightarrow>
         if MaxEncodedBundleBytes < length data then Inl (BundleTooLarge (length data))
         else Inr data)"

definition Decode :: "crypto \<Rightarrow> bytes \<Rightarrow> (bundle_error, Manifest \<times> file_map \<times> string) result" where
  "Decode L data =
     (if MaxEncodedBundleBytes < length data then Inl (BundleTooLarge (length data))
      else case unmarshal_Manifest data of
        None \<Rightarrow> Inl BundleUnmarshal
      | Some manifest \<Rightarrow>
          and_then (decodeManifestFiles L manifest) id (\<lambda>files.
          Inr (manifest, files, ManifestDigest L manifest files)))"

definition ParseManifest :: "bytes \<Rightarrow> (bundle_error, Manifest) result" where
  "ParseManifest data =
     (if MaxEncodedBundleBytes < length data then Inl (BundleTooLarge (length data))
      else case unmarshal_Manifest data of
        None \<Rightarrow> Inl BundleUnmarshal
      | Some manifest \<Rightarrow> and_then (Manifest_Validate manifest) id (\<lambda>_. Inr manifest))"

definition NewTLSManifest :: "crypto \<Rightarrow> string \<Rightarrow> bytes \<Rightarrow> bytes \<Rightarrow> Manifest \<times> string" where
  "NewTLSManifest L bundleType certificate privateKey =
     (let files =
        sort_key mf_Name
          [\<lparr>mf_Name = NameCertificateChain, mf_Role = RoleCertificateChain,
             mf_SHA256 = bundle_hash L certificate, mf_Encoding = EncodingBase64,
             mf_Data = b64_encode certificate\<rparr>,
           \<lparr>mf_Name = NamePrivateKey, mf_Role = RolePrivateKey,
             mf_SHA256 = bundle_hash L privateKey, mf_Encoding = EncodingBase64,
             mf_Data = b64_encode privateKey\<rparr>];
        manifest = \<lparr>m_Schema = SchemaV6, m_Type = bundleType, m_Files = files\<rparr>
      in (manifest, ManifestDigest L manifest
           [(NameCertificateChain, certificate), (NamePrivateKey, privateKey)]))"

definition NewTrustManifest :: "crypto \<Rightarrow> bytes \<Rightarrow> Manifest \<times> string" where
  "NewTrustManifest L certificate =
     (let manifest = \<lparr>m_Schema = SchemaV6, m_Type = TypeTrust, m_Files =
        [\<lparr>mf_Name = NameCABundle, mf_Role = RoleCACertificate,
           mf_SHA256 = bundle_hash L certificate, mf_Encoding = EncodingBase64,
           mf_Data = b64_encode certificate\<rparr>]\<rparr>
      in (manifest, ManifestDigest L manifest [(NameCABundle, certificate)]))"

section \<open>Policy\<close>

text \<open>
  Times are nanoseconds; \<open>None\<close> is Go's zero time, which \<open>ValidatePolicy\<close> replaces by the clock.
  \<open>time.Time.Sub\<close> saturates at the bounds of a 64-bit duration.
\<close>

definition max_duration :: int where "max_duration = 2 ^ 63 - 1"
definition min_duration :: int where "min_duration = - (2 ^ 63)"

definition time_Sub :: "int \<Rightarrow> int \<Rightarrow> int" where
  "time_Sub t u = max min_duration (min max_duration (t - u))"

record Policy =
  pol_Now :: "int option"
  pol_RejectExpired :: bool
  pol_MinimumValidity :: int
  pol_ServerNames :: "string list"

datatype policy_error =
    NilMaterial
  | NoParsedCertificates
  | NilCertificate nat
  | NotYetValid nat
  | Expired nat
  | ShortValidity nat
  | EmptyServerName nat
  | NoLeaf
  | HostnameMismatch string

fun check_certificates :: "int \<Rightarrow> Policy \<Rightarrow> nat \<Rightarrow> Certificate option list \<Rightarrow> (policy_error, unit) result" where
  "check_certificates now policy index [] = Inr ()"
| "check_certificates now policy index (None # cs) = Inl (NilCertificate index)"
| "check_certificates now policy index (Some certificate # cs) =
     (if now < c_NotBefore certificate then Inl (NotYetValid index)
      else if pol_RejectExpired policy \<and> \<not> now < c_NotAfter certificate then Inl (Expired index)
      else if 0 < pol_MinimumValidity policy \<and>
              time_Sub (c_NotAfter certificate) now < pol_MinimumValidity policy
        then Inl (ShortValidity index)
      else check_certificates now policy (Suc index) cs)"

fun check_server_names ::
  "crypto \<Rightarrow> Certificate option \<Rightarrow> nat \<Rightarrow> string list \<Rightarrow> (policy_error, unit) result" where
  "check_server_names L leaf index [] = Inr ()"
| "check_server_names L leaf index (name # names) =
     (if name = [] then Inl (EmptyServerName index)
      else case leaf of
        None \<Rightarrow> Inl NoLeaf
      | Some l \<Rightarrow>
          if \<not> VerifyHostname L l name then Inl (HostnameMismatch name)
          else check_server_names L leaf (Suc index) names)"

definition ValidatePolicy :: "crypto \<Rightarrow> int \<Rightarrow> Material option \<Rightarrow> Policy \<Rightarrow> (policy_error, unit) result" where
  "ValidatePolicy L clock material policy =
     (case material of
        None \<Rightarrow> Inl NilMaterial
      | Some m \<Rightarrow>
          (let now = (case pol_Now policy of None \<Rightarrow> clock | Some t \<Rightarrow> t) in
           if mat_Certificates m = [] then Inl NoParsedCertificates
           else and_then (check_certificates now policy 0 (mat_Certificates m)) id (\<lambda>_.
             if m_Type (mat_Manifest m) = TypeTLSServer
             then check_server_names L (mat_Leaf m) 0 (pol_ServerNames policy)
             else Inr ())))"

end
