(* ===== verification/Bundle_Facts.thy ===== *)
theory Bundle_Facts
  imports Bundle
begin

text \<open>
  Facts of the bundle component: what a successful validation guarantees, that the PEM loop
  never exhausts its fuel, that encoding and decoding are inverse, and that the digest identifies
  the type, the roles and the contents of a bundle.
\<close>

section \<open>Structural validation\<close>

definition valid_declaration :: "(string \<times> string) list \<Rightarrow> ManifestFile \<Rightarrow> bool" where
  "valid_declaration expected f \<longleftrightarrow>
     SafeName (mf_Name f) \<and> mf_Role f = map_get expected (mf_Name f) \<and>
     valid_sha256_hex (mf_SHA256 f) \<and> mf_Encoding f = EncodingBase64"

lemma validate_manifest_files_ok:
  "is_ok (validate_manifest_files ty expected index seen fs) \<longleftrightarrow>
     distinct (map mf_Name fs) \<and> set seen \<inter> mf_Name ` set fs = {} \<and>
     (\<forall>f \<in> set fs. valid_declaration expected f)"
  by (induction fs arbitrary: index seen) (auto simp: valid_declaration_def)

lemma Manifest_Validate_ok:
  "is_ok (Manifest_Validate m) \<longleftrightarrow>
     m_Schema m = SchemaV6 \<and>
     (\<exists>expected. expectedFiles (m_Type m) = Some expected \<and>
        length (m_Files m) = map_len expected \<and> distinct (map mf_Name (m_Files m)) \<and>
        (\<forall>f \<in> set (m_Files m). valid_declaration expected f))"
  by (auto simp: Manifest_Validate_def validate_manifest_files_ok split: option.splits)

lemma expectedFiles_Some:
  assumes "expectedFiles ty = Some ex"
  shows "(ty = TypeTLSServer \<or> ty = TypeTLSClient) \<and>
      ex = [(NameCertificateChain, RoleCertificateChain), (NamePrivateKey, RolePrivateKey)] \<or>
    ty = TypeTrust \<and> ex = [(NameCABundle, RoleCACertificate)]"
  using assms by (auto simp: expectedFiles_def split: if_splits)

lemma name_distinct [simp]:
  "NameCertificateChain \<noteq> NamePrivateKey" "NamePrivateKey \<noteq> NameCertificateChain"
  "NameCertificateChain \<noteq> NameCABundle" "NameCABundle \<noteq> NameCertificateChain"
  "NamePrivateKey \<noteq> NameCABundle" "NameCABundle \<noteq> NamePrivateKey"
  by (simp_all add: name_defs)

lemma type_distinct [simp]:
  "TypeTLSServer \<noteq> TypeTLSClient" "TypeTLSClient \<noteq> TypeTLSServer"
  "TypeTLSServer \<noteq> TypeTrust" "TypeTrust \<noteq> TypeTLSServer"
  "TypeTLSClient \<noteq> TypeTrust" "TypeTrust \<noteq> TypeTLSClient"
  by (simp_all add: type_defs)

section \<open>The PEM loop\<close>

lemma parse_cert_loop_fuel:
  assumes "crypto_ok L" and "length rest < fuel"
  shows "parse_cert_loop L fuel rest cs = parse_cert_loop L (Suc (length rest)) rest cs"
    and "parse_cert_loop L fuel rest cs \<noteq> Inl ParseFuel"
proof -
  have "length rest < fuel \<Longrightarrow> length rest < fuel' \<Longrightarrow>
      parse_cert_loop L fuel rest cs = parse_cert_loop L fuel' rest cs \<and>
      parse_cert_loop L fuel rest cs \<noteq> Inl ParseFuel" for fuel fuel' rest cs
  proof (induction fuel arbitrary: fuel' rest cs)
    case (Suc fuel)
    obtain g where g: "fuel' = Suc g" using Suc.prems(2) by (cases fuel') auto
    show ?case
    proof (cases "pem_Decode L rest")
      case None
      then show ?thesis by (simp add: g)
    next
      case (Some p)
      obtain b r where p: "p = (b, r)" by (cases p)
      have "length r < length rest"
        using crypto_okD(2) [OF assms(1)] Some p by blast
      then have "length r < fuel" "length r < g" using Suc.prems g by auto
      then have IH: "parse_cert_loop L fuel r ds = parse_cert_loop L g r ds"
        "parse_cert_loop L fuel r ds \<noteq> Inl ParseFuel" for ds
        using Suc.IH by blast+
      have "parse_cert_loop L g r ds \<noteq> Inl ParseFuel" for ds
        using IH by metis
      with IH(1) Some p show ?thesis by (simp add: g split: option.split)
    qed
  qed simp
  then show "parse_cert_loop L fuel rest cs = parse_cert_loop L (Suc (length rest)) rest cs"
    "parse_cert_loop L fuel rest cs \<noteq> Inl ParseFuel"
    using assms(2) by blast+
qed

lemma parse_cert_loop_extends:
  "parse_cert_loop L fuel rest cs = Inr cs' \<Longrightarrow> \<exists>ds. cs' = cs @ ds"
  by (induction fuel arbitrary: rest cs) (fastforce split: option.splits if_splits prod.splits)+

lemma parseCertificates_nonempty: "parseCertificates L data = Inr cs \<Longrightarrow> cs \<noteq> []"
  by (auto simp: parseCertificates_def split: sum.splits if_splits)

lemma parseCertificates_Nil:
  assumes "crypto_ok L"
  shows "parseCertificates L [] = Inl NoCertificates"
  using crypto_okD(3) [OF assms] by (simp add: parseCertificates_def)

section \<open>Certificate semantics\<close>

lemma check_issuers_ca_ok: "is_ok (check_issuers_ca i cs) \<longleftrightarrow> (\<forall>c \<in> set cs. c_IsCA c)"
  by (induction cs arbitrary: i) auto

lemma check_all_ca_ok: "is_ok (check_all_ca i cs) \<longleftrightarrow> (\<forall>c \<in> set cs. c_IsCA c)"
  by (induction cs arbitrary: i) auto

text \<open>Each certificate of a chain is signed by its successor.\<close>

fun chain_signed :: "crypto \<Rightarrow> Certificate list \<Rightarrow> bool" where
  "chain_signed L (c # d # cs) = (CheckSignatureFrom L c d \<and> chain_signed L (d # cs))"
| "chain_signed L _ = True"

lemma check_signatures_ok: "is_ok (check_signatures L i cs) \<longleftrightarrow> chain_signed L cs"
  by (induction L i cs rule: check_signatures.induct) auto

lemma containsKeyUsage_iff: "containsKeyUsage us u \<longleftrightarrow> u \<in> set us"
  by (induction us) auto

lemma check_pair_ok:
  "is_ok (check_pair pair leaf) \<longleftrightarrow> (\<exists>l. pair = Some (Some l) \<and> c_Raw l = c_Raw leaf)"
  by (auto simp: check_pair_def split: option.splits)

lemmas chain_checks = check_issuers_ca_ok check_signatures_ok check_all_ca_ok check_pair_ok

text \<open>What \<open>validateIdentity\<close> guarantees of a chain and a key.\<close>

definition identity_ok :: "crypto \<Rightarrow> string \<Rightarrow> bytes \<Rightarrow> bytes \<Rightarrow> Certificate list \<Rightarrow> Certificate \<Rightarrow> bool" where
  "identity_ok L ty chain key cs leaf \<longleftrightarrow>
     parseCertificates L chain = Inr cs \<and> cs \<noteq> [] \<and> leaf = hd cs \<and> \<not> c_IsCA leaf \<and>
     (\<forall>c \<in> set (tl cs). c_IsCA c) \<and> chain_signed L cs \<and>
     (\<exists>k l. normalizePrivateKey L key = Inr k \<and> X509KeyPair L chain k = Some (Some l) \<and>
        c_Raw l = c_Raw leaf) \<and>
     is_ok (validatePublicKey (c_PublicKey leaf)) \<and>
     (c_ExtKeyUsage leaf = [] \<or> wanted_usage ty \<in> set (c_ExtKeyUsage leaf))"

lemma validateIdentity_Inr:
  "validateIdentity L ty chain key = Inr (cs, leaf) \<longleftrightarrow> identity_ok L ty chain key cs leaf"
  unfolding validateIdentity_def identity_ok_def
  by (auto simp: and_then_Inr Let_def unit_ok chain_checks containsKeyUsage_iff
      dest: parseCertificates_nonempty split: if_split_asm)

lemma validateTrust_Inr:
  "validateTrust L ca = Inr cs \<longleftrightarrow> parseCertificates L ca = Inr cs \<and> (\<forall>c \<in> set cs. c_IsCA c)"
  by (auto simp: validateTrust_def and_then_Inr unit_ok chain_checks)

lemma key_nonempty:
  assumes "crypto_ok L" "normalizePrivateKey L key = Inr k"
  shows "key \<noteq> []"
  using assms crypto_okD(3) [OF assms(1)] by (auto simp: normalizePrivateKey_def)

section \<open>File sets\<close>

text \<open>A file map that holds exactly the declared contents, each with its declared sum.\<close>

definition holds_declared :: "crypto \<Rightarrow> Manifest \<Rightarrow> file_map \<Rightarrow> bool" where
  "holds_declared L m files \<longleftrightarrow>
     (\<forall>f \<in> set (m_Files m). \<exists>c. map_of files (mf_Name f) = Some c \<and> bundle_hash L c = mf_SHA256 f)"

lemma check_declared_ok:
  "is_ok (check_declared L files fs) \<longleftrightarrow>
     (\<forall>f \<in> set fs. \<exists>c. map_of files (mf_Name f) = Some c \<and> bundle_hash L c = mf_SHA256 f)"
  by (induction fs) (auto split: option.splits)

text \<open>The certificate semantics of the three bundle types.\<close>

definition semantics_ok ::
  "crypto \<Rightarrow> Manifest \<Rightarrow> file_map \<Rightarrow> Certificate list \<Rightarrow> Certificate option \<Rightarrow> bool" where
  "semantics_ok L m files cs leaf \<longleftrightarrow>
     (if m_Type m = TypeTrust then
        leaf = None \<and> parseCertificates L (map_get files NameCABundle) = Inr cs \<and> (\<forall>c \<in> set cs. c_IsCA c)
      else \<exists>l. leaf = Some l \<and> identity_ok L (m_Type m) (map_get files NameCertificateChain)
        (map_get files NamePrivateKey) cs l)"

lemma Manifest_ValidateFiles_Inr:
  "Manifest_ValidateFiles L m files = Inr (cs, leaf) \<longleftrightarrow>
     is_ok (Manifest_Validate m) \<and> map_len files = length (m_Files m) \<and>
     holds_declared L m files \<and> semantics_ok L m files cs leaf"
proof -
  have "expectedFiles (m_Type m) \<noteq> None" if "is_ok (Manifest_Validate m)"
    using that by (auto simp: Manifest_Validate_ok)
  then have ty: "m_Type m = TypeTLSServer \<or> m_Type m = TypeTLSClient \<or> m_Type m = TypeTrust"
    if "is_ok (Manifest_Validate m)"
    using that by (auto simp: expectedFiles_def split: if_splits)
  show ?thesis
  proof (cases "is_ok (Manifest_Validate m)")
    case False
    then show ?thesis by (auto simp: Manifest_ValidateFiles_def and_then_Inr is_ok_iff)
  next
    case True
    then have v: "Manifest_Validate m = Inr ()" by (simp add: unit_ok)
    from ty [OF True] show ?thesis
      by (elim disjE)
        (auto simp: Manifest_ValidateFiles_def v and_then_Inr unit_ok check_declared_ok
          holds_declared_def semantics_ok_def validateIdentity_Inr validateTrust_Inr)
  qed
qed

definition decoded_as :: "crypto \<Rightarrow> ManifestFile \<Rightarrow> bytes \<Rightarrow> bool" where
  "decoded_as L f c \<longleftrightarrow> b64_decode (mf_Data f) = Some c \<and> bundle_hash L c = mf_SHA256 f"

lemma decode_files_Inr:
  "decode_files L fs acc = Inr files \<longleftrightarrow>
     (\<exists>cs. list_all2 (decoded_as L) fs cs \<and> files = rev (zip (map mf_Name fs) cs) @ acc)"
proof (induction fs arbitrary: acc)
  case (Cons f fs)
  show ?case
  proof
    assume "decode_files L (f # fs) acc = Inr files"
    then obtain c where "decoded_as L f c" "decode_files L fs ((mf_Name f, c) # acc) = Inr files"
      by (auto simp: decoded_as_def split: option.splits if_splits)
    moreover from this(2) obtain cs where "list_all2 (decoded_as L) fs cs"
      "files = rev (zip (map mf_Name fs) cs) @ (mf_Name f, c) # acc"
      using Cons.IH by blast
    ultimately show "\<exists>cs. list_all2 (decoded_as L) (f # fs) cs \<and>
        files = rev (zip (map mf_Name (f # fs)) cs) @ acc"
      by (intro exI [of _ "c # cs"]) simp
  next
    assume "\<exists>cs. list_all2 (decoded_as L) (f # fs) cs \<and>
        files = rev (zip (map mf_Name (f # fs)) cs) @ acc"
    then obtain c cs where "decoded_as L f c" "list_all2 (decoded_as L) fs cs"
      "files = rev (zip (map mf_Name fs) cs) @ (mf_Name f, c) # acc"
      by (auto simp: list_all2_Cons1)
    moreover from this have "decode_files L fs ((mf_Name f, c) # acc) = Inr files"
      using Cons.IH by blast
    ultimately show "decode_files L (f # fs) acc = Inr files"
      by (simp add: decoded_as_def)
  qed
qed auto

text \<open>What a successful \<open>decodeManifestFiles\<close>, hence \<open>Encode\<close> and \<open>Decode\<close>, guarantees.\<close>

definition valid_bundle :: "crypto \<Rightarrow> Manifest \<Rightarrow> file_map \<Rightarrow> bool" where
  "valid_bundle L m files \<longleftrightarrow>
     is_ok (Manifest_Validate m) \<and> decode_files L (m_Files m) [] = Inr files \<and>
     (\<exists>cs leaf. Manifest_ValidateFiles L m files = Inr (cs, leaf))"

lemma decodeManifestFiles_Inr:
  "decodeManifestFiles L m = Inr files \<longleftrightarrow> valid_bundle L m files"
  by (auto simp: decodeManifestFiles_def valid_bundle_def and_then_Inr unit_ok)

lemma decode_files_names:
  assumes "decode_files L fs [] = Inr files"
  shows "map fst files = rev (map mf_Name fs)"
proof -
  obtain cs where cs: "list_all2 (decoded_as L) fs cs" "files = rev (zip (map mf_Name fs) cs)"
    using assms by (auto simp: decode_files_Inr)
  then have "length (map mf_Name fs) = length cs" by (auto dest: list_all2_lengthD)
  then show ?thesis using cs(2) by (simp add: rev_map [symmetric] map_fst_zip)
qed

lemma map_get_nonempty: "map_get m k \<noteq> [] \<Longrightarrow> k \<in> fst ` set m"
  by (cases "map_of m k") (auto simp: map_get_def dest: map_of_SomeD intro: rev_image_eqI)

lemma parse_nonempty:
  "crypto_ok L \<Longrightarrow> parseCertificates L x = Inr cs \<Longrightarrow> x \<noteq> []"
  by (auto simp: parseCertificates_Nil)

text \<open>Every file of an accepted bundle carries one of the names its type prescribes, and all of them.\<close>

lemma valid_bundle_names:
  assumes L: "crypto_ok L" and v: "valid_bundle L m files"
  shows "\<exists>expected. expectedFiles (m_Type m) = Some expected \<and>
    mf_Name ` set (m_Files m) = fst ` set expected \<and> fst ` set files = fst ` set expected"
proof -
  obtain ex where ex: "expectedFiles (m_Type m) = Some ex" and len: "length (m_Files m) = map_len ex"
    and dist: "distinct (map mf_Name (m_Files m))"
    using v by (auto simp: valid_bundle_def Manifest_Validate_ok)
  obtain cs leaf where sem: "semantics_ok L m files cs leaf"
    using v by (auto simp: valid_bundle_def Manifest_ValidateFiles_Inr)
  have names: "fst ` set files = mf_Name ` set (m_Files m)"
  proof -
    have "map fst files = rev (map mf_Name (m_Files m))"
      using v by (intro decode_files_names [of L]) (simp add: valid_bundle_def)
    then have "set (map fst files) = set (rev (map mf_Name (m_Files m)))" by (rule arg_cong)
    then show ?thesis by simp
  qed
  have sub: "fst ` set ex \<subseteq> fst ` set files"
  proof (cases "m_Type m = TypeTrust")
    case True
    then have "map_get files NameCABundle \<noteq> []"
      using sem by (intro parse_nonempty [OF L]) (simp add: semantics_ok_def)
    moreover have "ex = [(NameCABundle, RoleCACertificate)]"
      using ex True by (simp add: expectedFiles_def)
    ultimately show ?thesis by (simp add: map_get_nonempty)
  next
    case False
    then obtain k where "parseCertificates L (map_get files NameCertificateChain) = Inr cs"
      "normalizePrivateKey L (map_get files NamePrivateKey) = Inr k"
      using sem by (auto simp: semantics_ok_def identity_ok_def)
    then have "map_get files NameCertificateChain \<noteq> []" "map_get files NamePrivateKey \<noteq> []"
      using parse_nonempty [OF L] key_nonempty [OF L] by blast+
    moreover have "ex = [(NameCertificateChain, RoleCertificateChain), (NamePrivateKey, RolePrivateKey)]"
      using expectedFiles_Some [OF ex] False by blast
    ultimately show ?thesis by (simp add: map_get_nonempty)
  qed
  have exd: "distinct (map fst ex)" using expectedFiles_Some [OF ex] by auto
  have "card (fst ` set ex) = length ex"
    using exd by (metis distinct_card length_map list.set_map)
  moreover have "card (mf_Name ` set (m_Files m)) = length (m_Files m)"
    using dist by (metis distinct_card length_map list.set_map)
  moreover have "map_len ex = length ex" using exd by (rule map_len_distinct)
  ultimately have "fst ` set ex = mf_Name ` set (m_Files m)"
    using sub names len by (intro card_subset_eq) auto
  with ex names show ?thesis by auto
qed

section \<open>Encoding and decoding\<close>

lemma unmarshal_ManifestFile_json: "unmarshal_ManifestFile (ManifestFile_json f) = Some f"
  by (simp add: unmarshal_ManifestFile_def unmarshal_struct_def ManifestFile_json_def
      known_members_def ManifestFile_members_def json_member_def)

lemma unmarshal_list_map:
  "(\<And>x. x \<in> set xs \<Longrightarrow> dec (enc x) = Some x) \<Longrightarrow> unmarshal_list dec (map enc xs) = Some xs"
  by (induction xs) auto

lemma unmarshal_Manifest_print:
  assumes "json_ok (Manifest_json m)"
  shows "unmarshal_Manifest (json_print (Manifest_json m)) = Some m"
proof -
  have "unmarshal_list unmarshal_ManifestFile (map ManifestFile_json (m_Files m)) = Some (m_Files m)"
    by (rule unmarshal_list_map) (rule unmarshal_ManifestFile_json)
  then have "unmarshal_struct [''schema'', ''type'', ''files''] Manifest_members (Manifest_json m) = Some m"
    by (simp add: unmarshal_struct_def Manifest_json_def known_members_def Manifest_members_def
        json_member_def unmarshal_slice_def)
  with json_parse_print [OF assms] show ?thesis by (simp add: unmarshal_Manifest_def)
qed

lemma Encode_Inr:
  "Encode L m = Inr data \<longleftrightarrow>
     (\<exists>files. valid_bundle L m files) \<and> json_ok (Manifest_json m) \<and>
     data = json_print (Manifest_json m) \<and> length data \<le> MaxEncodedBundleBytes"
  by (auto simp: Encode_def and_then_Inr decodeManifestFiles_Inr json_Marshal_def)

lemma Decode_Inr:
  "Decode L data = Inr (m, files, digest) \<longleftrightarrow>
     length data \<le> MaxEncodedBundleBytes \<and> unmarshal_Manifest data = Some m \<and>
     valid_bundle L m files \<and> digest = ManifestDigest L m files"
  by (auto simp: Decode_def and_then_Inr decodeManifestFiles_Inr split: option.splits)

lemma Decode_Encode:
  assumes "Encode L m = Inr data"
  shows "\<exists>files. Decode L data = Inr (m, files, ManifestDigest L m files) \<and> valid_bundle L m files"
  using assms by (auto simp: Encode_Inr Decode_Inr unmarshal_Manifest_print)


section \<open>The digest identifies the content\<close>

lemma sorted_keys_expected:
  "expectedFiles ty = Some ex \<Longrightarrow> fst ` set files = fst ` set ex \<Longrightarrow> sorted_keys files = map fst ex"
proof -
  assume ex: "expectedFiles ty = Some ex" and dom: "fst ` set files = fst ` set ex"
  have "sorted_keys files = sorted_keys ex" using dom by (rule sorted_keys_cong)
  also have "sorted_keys ex = map fst ex"
  proof -
    have "sort [''fullchain.pem'', ''privkey.pem''] = [''fullchain.pem'', ''privkey.pem'']"
      by code_simp
    then show ?thesis
      using expectedFiles_Some [OF ex]
      by (auto simp: sorted_keys_def name_defs)
  qed
  finally show ?thesis .
qed

lemma declarations_role:
  assumes "distinct (map mf_Name (m_Files m))" and "f \<in> set (m_Files m)"
  shows "map_get (declarations m) (mf_Name f) = mf_Role f"
proof -
  let ?d = "map (\<lambda>f. (mf_Name f, mf_Role f)) (m_Files m)"
  have "distinct (map fst (rev ?d))" using assms(1) by (simp add: rev_map [symmetric] comp_def)
  moreover have "(mf_Name f, mf_Role f) \<in> set (rev ?d)" using assms(2) by simp
  ultimately have "map_of (rev ?d) (mf_Name f) = Some (mf_Role f)" by (rule map_of_is_SomeI)
  then show ?thesis by (simp add: map_get_def declarations_def)
qed

definition expected_input :: "crypto \<Rightarrow> string \<Rightarrow> (string \<times> string) list \<Rightarrow> file_map \<Rightarrow> bytes" where
  "expected_input L ty ex files =
     SchemaV6 @ nul @ ty @ nul @
     concat (map (\<lambda>(n, r). n @ nul @ r @ nul @ sha256 L (map_get files n)) ex)"

lemma digest_input_valid:
  assumes L: "crypto_ok L" and v: "valid_bundle L m files" and ex: "expectedFiles (m_Type m) = Some ex"
  shows "digest_input L m files = expected_input L (m_Type m) ex files"
proof -
  have schema: "m_Schema m = SchemaV6" and dist: "distinct (map mf_Name (m_Files m))"
    and decl: "\<forall>f \<in> set (m_Files m). valid_declaration ex f"
    using v ex by (auto simp: valid_bundle_def Manifest_Validate_ok)
  have names: "mf_Name ` set (m_Files m) = fst ` set ex" "fst ` set files = fst ` set ex"
    using valid_bundle_names [OF L v] ex by auto
  have role: "map_get (declarations m) n = r" if nr: "(n, r) \<in> set ex" for n r
  proof -
    have "n \<in> mf_Name ` set (m_Files m)" using names(1) nr by force
    then obtain f where f: "f \<in> set (m_Files m)" "mf_Name f = n" by blast
    have "map_get (declarations m) n = map_get ex n"
      using declarations_role [OF dist f(1)] decl f by (auto simp: valid_declaration_def)
    also have "map_get ex n = r"
      using expectedFiles_Some [OF ex] nr by (auto simp: map_get_def)
    finally show ?thesis .
  qed
  have "map (file_contribution L (declarations m) files) (map fst ex) =
      map (\<lambda>(n, r). n @ nul @ r @ nul @ sha256 L (map_get files n)) ex"
    by (auto simp: file_contribution_def role)
  then show ?thesis
    unfolding digest_input_def expected_input_def schema sorted_keys_expected [OF ex names(2)]
    by (simp only:)
qed

lemma append_sep_eq:
  assumes "a @ c # x = b @ c # y" and "c \<notin> set a" "c \<notin> set b"
  shows "a = b \<and> x = y"
  using assms
proof (induction a arbitrary: b)
  case Nil
  then show ?case by (cases b) simp_all
next
  case (Cons d a)
  then show ?case by (cases b) simp_all
qed

lemma nul_char: "nul = [CHR 0x00]"
  by code_simp

definition contribution :: "crypto \<Rightarrow> file_map \<Rightarrow> string \<times> string \<Rightarrow> bytes" where
  "contribution L files = (\<lambda>(n, r). n @ nul @ r @ nul @ sha256 L (map_get files n))"

lemma contributions_inj:
  assumes "crypto_ok L"
    and "concat (map (contribution L f1) ex) = concat (map (contribution L f2) ex)"
  shows "\<forall>n \<in> fst ` set ex. sha256 L (map_get f1 n) = sha256 L (map_get f2 n)"
  using assms(2)
proof (induction ex)
  case (Cons nr ex)
  obtain n r where nr: "nr = (n, r)" by (cases nr)
  have "length (sha256 L (map_get f1 n)) = length (sha256 L (map_get f2 n))"
    by (simp add: crypto_okD(1) [OF assms(1)])
  with Cons.prems have "sha256 L (map_get f1 n) = sha256 L (map_get f2 n)"
    "concat (map (contribution L f1) ex) = concat (map (contribution L f2) ex)"
    by (simp_all add: nr contribution_def)
  with Cons.IH show ?case by (simp add: nr)
qed simp

lemma expected_input_inj:
  assumes L: "crypto_ok L" and ex1: "expectedFiles t1 = Some ex1" and ex2: "expectedFiles t2 = Some ex2"
    and eq: "expected_input L t1 ex1 f1 = expected_input L t2 ex2 f2"
  shows "t1 = t2 \<and> (\<forall>n \<in> fst ` set ex1. sha256 L (map_get f1 n) = sha256 L (map_get f2 n))"
proof -
  have z: "CHR 0x00 \<notin> set t1" "CHR 0x00 \<notin> set t2"
    using expectedFiles_Some [OF ex1] expectedFiles_Some [OF ex2] by (auto simp: type_defs)
  have "t1 @ CHR 0x00 # concat (map (contribution L f1) ex1) =
      t2 @ CHR 0x00 # concat (map (contribution L f2) ex2)"
    using eq by (simp add: expected_input_def nul_char contribution_def)
  from append_sep_eq [OF this z] have t: "t1 = t2"
    and rest: "concat (map (contribution L f1) ex1) = concat (map (contribution L f2) ex2)"
    by blast+
  have "ex1 = ex2" using ex1 ex2 t by simp
  then show ?thesis using t contributions_inj [OF L] rest by blast
qed

text \<open>
  No collision among the contents and the digest inputs of two bundles: then equal digests mean
  equal types and equal contents.
\<close>

definition no_collision :: "crypto \<Rightarrow> bytes set \<Rightarrow> bool" where
  "no_collision L S \<longleftrightarrow> inj_on (sha256 L) S"

definition hashed_by :: "crypto \<Rightarrow> Manifest \<Rightarrow> file_map \<Rightarrow> bytes set" where
  "hashed_by L m files = insert (digest_input L m files) (snd ` set files)"

lemma map_get_in_hashed: "n \<in> fst ` set files \<Longrightarrow> map_get files n \<in> hashed_by L m files"
  by (auto simp: map_get_def hashed_by_def dest: map_of_SomeD split: option.splits
      simp: map_of_eq_None_iff intro: rev_image_eqI)

lemma digest_identifies:
  assumes L: "crypto_ok L" and v1: "valid_bundle L m1 f1" and v2: "valid_bundle L m2 f2"
    and nc: "no_collision L (hashed_by L m1 f1 \<union> hashed_by L m2 f2)"
    and eq: "ManifestDigest L m1 f1 = ManifestDigest L m2 f2"
  shows "m_Type m1 = m_Type m2 \<and> map_of f1 = map_of f2"
proof -
  obtain ex1 where ex1: "expectedFiles (m_Type m1) = Some ex1" "fst ` set f1 = fst ` set ex1"
    using valid_bundle_names [OF L v1] by auto
  obtain ex2 where ex2: "expectedFiles (m_Type m2) = Some ex2" "fst ` set f2 = fst ` set ex2"
    using valid_bundle_names [OF L v2] by auto
  have "sha256 L (digest_input L m1 f1) = sha256 L (digest_input L m2 f2)"
    by (rule hex_encode_inj) (use eq in \<open>simp add: ManifestDigest_def\<close>)
  then have "digest_input L m1 f1 = digest_input L m2 f2"
    by (rule inj_onD [OF nc [unfolded no_collision_def]]) (simp_all add: hashed_by_def)
  then have "expected_input L (m_Type m1) ex1 f1 = expected_input L (m_Type m2) ex2 f2"
    using digest_input_valid [OF L v1 ex1(1)] digest_input_valid [OF L v2 ex2(1)] by simp
  then have t: "m_Type m1 = m_Type m2"
    and sums: "\<forall>n \<in> fst ` set ex1. sha256 L (map_get f1 n) = sha256 L (map_get f2 n)"
    using expected_input_inj [OF L ex1(1) ex2(1)] by blast+
  have same: "ex1 = ex2" using ex1(1) ex2(1) t by simp
  have get: "map_get f1 n = map_get f2 n" if n: "n \<in> fst ` set ex1" for n
  proof (rule inj_onD [OF nc [unfolded no_collision_def]])
    show "sha256 L (map_get f1 n) = sha256 L (map_get f2 n)" using sums n by blast
    show "map_get f1 n \<in> hashed_by L m1 f1 \<union> hashed_by L m2 f2"
      using map_get_in_hashed [of n f1 L m1] n by (simp add: ex1(2))
    show "map_get f2 n \<in> hashed_by L m1 f1 \<union> hashed_by L m2 f2"
      using map_get_in_hashed [of n f2 L m2] n by (simp add: ex2(2) same)
  qed
  have "map_of f1 n = map_of f2 n" for n
  proof (cases "n \<in> fst ` set ex1")
    case True
    then obtain c d where "map_of f1 n = Some c" "map_of f2 n = Some d"
      using ex1(2) ex2(2) same by (metis map_of_eq_None_iff not_None_eq)
    with get [OF True] show ?thesis by (simp add: map_get_def)
  next
    case False
    then have "map_of f1 n = None" "map_of f2 n = None"
      using ex1(2) ex2(2) same by (simp_all add: map_of_eq_None_iff)
    then show ?thesis by simp
  qed
  with t show ?thesis by blast
qed

end
