(* ===== verification/Go_Strconv.thy ===== *)
theory Go_Strconv
  imports Go_Json
begin

text \<open>
  What the code uses of \<open>strconv\<close> and of the number verbs of \<open>fmt\<close>: \<open>Quote\<close>, decimal and octal
  numbers. \<open>Quote\<close> consults the Unicode table of printable characters for what is not ASCII; that
  table is its parameter \<open>is_print\<close>, on code points.
\<close>

section \<open>Numbers\<close>

fun digits_of :: "nat \<Rightarrow> nat \<Rightarrow> nat \<Rightarrow> string" where
  "digits_of base 0 n = []"
| "digits_of base (Suc fuel) n =
     (if n < base then [hex_digit n] else digits_of base fuel (n div base) @ [hex_digit (n mod base)])"

text \<open>A number has at most as many digits as its value, plus one; base is at least two.\<close>

definition format_nat :: "nat \<Rightarrow> nat \<Rightarrow> string" where
  "format_nat base n = digits_of base (Suc n) n"

definition FormatInt :: "int \<Rightarrow> string" where
  "FormatInt i = (if i < 0 then ''-'' @ format_nat 10 (nat (- i)) else format_nat 10 (nat i))"

definition pad_left :: "nat \<Rightarrow> string \<Rightarrow> string" where
  "pad_left w s = replicate (w - length s) (CHR ''0'') @ s"

text \<open>\<open>strconv.ParseUint(s, 8, 32)\<close>: only octal digits, at least one, below \<open>2 ^ 32\<close>.\<close>

fun octal_value :: "nat \<Rightarrow> string \<Rightarrow> nat option" where
  "octal_value acc [] = Some acc"
| "octal_value acc (c # cs) =
     (if 48 \<le> byte_val c \<and> byte_val c \<le> 55 then octal_value (acc * 8 + (byte_val c - 48)) cs else None)"

definition ParseUint8 :: "string \<Rightarrow> nat option" where
  "ParseUint8 s =
     (if s = [] then None
      else case octal_value 0 s of None \<Rightarrow> None | Some n \<Rightarrow> if int n < 2 ^ 32 then Some n else None)"

section \<open>Quoting\<close>

text \<open>The code point of a valid UTF-8 sequence.\<close>

definition rune_of :: "string \<Rightarrow> nat" where
  "rune_of s =
     (case map byte_val s of
        [a] \<Rightarrow> a
      | [a, b] \<Rightarrow> (a - 192) * 64 + (b - 128)
      | [a, b, c] \<Rightarrow> (a - 224) * 4096 + (b - 128) * 64 + (c - 128)
      | [a, b, c, d] \<Rightarrow> (a - 240) * 262144 + (b - 128) * 4096 + (c - 128) * 64 + (d - 128)
      | _ \<Rightarrow> 0)"

definition quote_ascii :: "char \<Rightarrow> string" where
  "quote_ascii c =
     (let n = byte_val c in
      if n = 34 \<or> n = 92 then byte_seq [92, n]
      else if 32 \<le> n \<and> n < 127 then [c]
      else if n = 7 then byte_seq [92, 97]
      else if n = 8 then byte_seq [92, 98]
      else if n = 12 then byte_seq [92, 102]
      else if n = 10 then byte_seq [92, 110]
      else if n = 13 then byte_seq [92, 114]
      else if n = 9 then byte_seq [92, 116]
      else if n = 11 then byte_seq [92, 118]
      else byte_seq [92, 120] @ [hex_digit (n div 16), hex_digit (n mod 16)])"

definition quote_rune :: "(nat \<Rightarrow> bool) \<Rightarrow> string \<Rightarrow> string" where
  "quote_rune is_print s =
     (let r = rune_of s in
      if is_print r then s
      else if r < 65536 then byte_seq [92, 117] @ pad_left 4 (format_nat 16 r)
      else byte_seq [92, 85] @ pad_left 8 (format_nat 16 r))"

function quote_body :: "(nat \<Rightarrow> bool) \<Rightarrow> string \<Rightarrow> string" where
  "quote_body is_print s =
     (case s of
        [] \<Rightarrow> []
      | c # cs \<Rightarrow>
          (let w = utf8_seq_len (c # cs) in
           if w = 0 then
             byte_seq [92, 120] @ [hex_digit (byte_val c div 16), hex_digit (byte_val c mod 16)] @
             quote_body is_print cs
           else if w = 1 then quote_ascii c @ quote_body is_print cs
           else quote_rune is_print (take w (c # cs)) @ quote_body is_print (drop w (c # cs))))"
  by pat_completeness auto
termination
  by (relation "measure (\<lambda>(_, s). length s)") (auto simp: Let_def)

declare quote_body.simps [simp del]

definition Quote :: "(nat \<Rightarrow> bool) \<Rightarrow> string \<Rightarrow> string" where
  "Quote is_print s = byte_seq [34] @ quote_body is_print s @ byte_seq [34]"

text \<open>A quoted string has no line break, whatever it quotes.\<close>

definition newline :: char where "newline = CHR 0x0A"

lemma byte_newline: "byte_val newline = 10"
  by code_simp

lemma newline_byte_seq: "newline \<in> set (byte_seq ns) \<longleftrightarrow> (\<exists>n \<in> set ns. n mod 256 = 10)"
proof -
  have "newline = char_of n \<longleftrightarrow> n mod 256 = 10" for n :: nat
    using byte_newline by (metis char_of_char of_char_of)
  then show ?thesis by (auto simp: byte_seq_def)
qed

lemma newline_hex_digit: "n < 16 \<Longrightarrow> newline \<noteq> hex_digit n"
  using hex_digit_facts(3) [of n] byte_newline by (auto simp: plain_char_def)

lemma newline_digits: "2 \<le> base \<Longrightarrow> base \<le> 16 \<Longrightarrow> newline \<notin> set (digits_of base fuel n)"
proof (induction fuel arbitrary: n)
  case (Suc fuel)
  have "n mod base < 16" using Suc.prems mod_less_divisor [of base n] by linarith
  with Suc show ?case using newline_hex_digit by auto
qed simp

lemma newline_pad: "newline \<notin> set s \<Longrightarrow> newline \<notin> set (pad_left w s)"
proof -
  have "newline \<noteq> CHR ''0''" by code_simp
  then show "newline \<notin> set s \<Longrightarrow> ?thesis" by (auto simp: pad_left_def)
qed

lemma newline_format: "newline \<notin> set (pad_left w (format_nat 16 n))"
  unfolding format_nat_def by (rule newline_pad) (rule newline_digits; simp)

lemma utf8_seq_high:
  assumes "1 < utf8_seq_len s" and "c \<in> set (take (utf8_seq_len s) s)"
  shows "128 \<le> byte_val c"
  using assms
  by (cases s) (auto simp: in_range_def split: if_split_asm list.split_asm)

lemma newline_quote_body: "newline \<notin> set (quote_body is_print s)"
proof (induction is_print s rule: quote_body.induct)
  case (1 is_print s)
  show ?case
  proof (cases s)
    case Nil
    then show ?thesis by (simp add: quote_body.simps)
  next
    case (Cons c cs)
    have hex: "newline \<noteq> hex_digit (byte_val c div 16)" "newline \<noteq> hex_digit (byte_val c mod 16)"
      using byte_val_bound [of c] by (simp_all add: newline_hex_digit less_mult_imp_div_less)
    let ?w = "utf8_seq_len (c # cs)"
    have unfold: "quote_body is_print s =
        (if ?w = 0 then byte_seq [92, 120] @ [hex_digit (byte_val c div 16), hex_digit (byte_val c mod 16)] @
           quote_body is_print cs
         else if ?w = 1 then quote_ascii c @ quote_body is_print cs
         else quote_rune is_print (take ?w (c # cs)) @ quote_body is_print (drop ?w (c # cs)))"
      by (subst quote_body.simps) (simp add: Cons Let_def del: utf8_seq_len.simps)
    consider (bad) "?w = 0" | (ascii) "?w = 1" | (multi) "1 < ?w" by linarith
    then show ?thesis
    proof cases
      case bad
      then show ?thesis
        using 1(1) [OF Cons refl] hex by (simp add: unfold newline_byte_seq del: utf8_seq_len.simps)
    next
      case ascii
      have "newline \<notin> set (quote_ascii c)"
        using hex byte_newline by (auto simp: quote_ascii_def Let_def newline_byte_seq)
      then show ?thesis
        using 1(2) [OF Cons refl] ascii by (simp add: unfold del: utf8_seq_len.simps)
    next
      case multi
      have "newline \<notin> set (take ?w (c # cs))"
        using utf8_seq_high [OF multi] byte_newline by fastforce
      then have "newline \<notin> set (quote_rune is_print (take ?w (c # cs)))"
        by (auto simp: quote_rune_def Let_def newline_byte_seq newline_format
            simp del: utf8_seq_len.simps)
      then show ?thesis
        using 1(3) [OF Cons refl] multi
        by (simp add: unfold del: utf8_seq_len.simps)
    qed
  qed
qed

lemma newline_Quote: "newline \<notin> set (Quote is_print s)"
  using newline_quote_body by (simp add: Quote_def newline_byte_seq)

end
