(* ===== verification/Pack.thy ===== *)
theory Pack
  imports Bundle_Facts Go_Strconv
begin

text \<open>
  \<open>internal/pack\<close>: building, reading and validating a local pack. The files on disk are seen
  through the parameter \<open>read\<close> of type \<open>reader\<close>, the contents \<open>os.ReadFile\<close> returns for a path;
  \<open>pack.Write\<close> is in \<open>Pack_Write\<close>. The table of printable characters of \<open>strconv.Quote\<close> is the
  parameter \<open>is_print\<close>.
\<close>

section \<open>Data\<close>

type_synonym reader = "string \<Rightarrow> (string, bytes) result"

definition MetadataSchema :: string where "MetadataSchema = ''pemcast-pack/v6''"

record Options =
  opt_Type :: string
  opt_TargetID :: string
  opt_EtcdPrefix :: string
  opt_CertificatePath :: string
  opt_PrivateKeyPath :: string
  opt_CAPath :: string

record MetadataFile =
  mdf_Role :: string
  mdf_SHA256 :: string

record Metadata =
  md_Schema :: string
  md_Type :: string
  md_EtcdPrefix :: string
  md_TargetID :: string
  md_Generation :: string
  md_BundleSHA256 :: string
  md_BundleValueSHA256 :: string
  md_EncodedSize :: int
  md_ActiveKey :: string
  md_BundleKey :: string
  md_Files :: "(string \<times> MetadataFile) list"

record PackResult =
  pr_Metadata :: Metadata
  pr_Bundle :: bytes
  pr_StageTxn :: bytes

datatype pack_error =
    UnsafePackTarget string
  | PackPrefix keys_error
  | EmptyPath
  | ReadFailed string
  | ReadCertificate pack_error
  | ReadPrivateKey pack_error
  | ReadCABundle pack_error
  | UnsupportedPackType string
  | EncodePack bundle_error
  | UnsupportedPackSchema string
  | BundleValueMismatch
  | EncodedSizeMismatch int nat
  | DecodePack bundle_error
  | PackDigestMismatch
  | InvalidPackGeneration bundle_error
  | ActiveKeyMismatch string string
  | BundleKeyMismatch string string
  | PackTypeMismatch string string
  | InvalidFileSet string
  | MetadataMissingFile string
  | MetadataFileMismatch string
  | InvalidFileRole string string
  | EmptyPackDirectory
  | ReadMetadata string
  | DecodeMetadata
  | ReadPackBundle string

section \<open>Building\<close>

definition readFile :: "reader \<Rightarrow> string \<Rightarrow> (pack_error, bytes) result" where
  "readFile read path =
     (if TrimSpace path = [] then Inl EmptyPath else and_then (read path) ReadFailed Inr)"

definition metadataFiles :: "Manifest \<Rightarrow> (string \<times> MetadataFile) list" where
  "metadataFiles manifest =
     rev (map (\<lambda>f. (mf_Name f, \<lparr>mdf_Role = mf_Role f, mdf_SHA256 = mf_SHA256 f\<rparr>)) (m_Files manifest))"

definition expectedFileRoles :: "string \<Rightarrow> (string \<times> string) list option" where
  "expectedFileRoles bundleType =
     (if bundleType = TypeTLSServer \<or> bundleType = TypeTLSClient then
        Some [(NameCertificateChain, RoleCertificateChain), (NamePrivateKey, RolePrivateKey)]
      else if bundleType = TypeTrust then Some [(NameCABundle, RoleCACertificate)]
      else None)"

definition stageTransaction :: "(nat \<Rightarrow> bool) \<Rightarrow> string \<Rightarrow> bytes \<Rightarrow> string" where
  "stageTransaction is_print bundleKey bundleValue =
     (let key = Quote is_print bundleKey in
      Join [''create('' @ key @ '') = '' @ Quote is_print ''0'', [],
            ''put '' @ key @ '' '' @ Quote is_print bundleValue, [], [], []] [newline])"

definition build_manifest :: "crypto \<Rightarrow> reader \<Rightarrow> Options \<Rightarrow> (pack_error, Manifest \<times> string) result" where
  "build_manifest L read options =
     (if opt_Type options = TypeTLSServer \<or> opt_Type options = TypeTLSClient then
        and_then (readFile read (opt_CertificatePath options)) ReadCertificate (\<lambda>certificate.
        and_then (readFile read (opt_PrivateKeyPath options)) ReadPrivateKey (\<lambda>privateKey.
        Inr (NewTLSManifest L (opt_Type options) certificate privateKey)))
      else if opt_Type options = TypeTrust then
        and_then (readFile read (opt_CAPath options)) ReadCABundle (\<lambda>certificate.
        Inr (NewTrustManifest L certificate))
      else Inl (UnsupportedPackType (opt_Type options)))"

definition Build ::
  "crypto \<Rightarrow> (nat \<Rightarrow> bool) \<Rightarrow> reader \<Rightarrow> Options \<Rightarrow> (pack_error, PackResult) result" where
  "Build L is_print read options =
     (if \<not> SafeName (opt_TargetID options) then Inl (UnsafePackTarget (opt_TargetID options))
      else
        and_then (NewKeys (opt_EtcdPrefix options)) PackPrefix (\<lambda>keys.
        and_then (build_manifest L read options) id (\<lambda>(manifest, digest).
        and_then (Encode L manifest) EncodePack (\<lambda>encoded.
        let generation = Generation digest;
            metadata =
              \<lparr>md_Schema = MetadataSchema,
               md_Type = opt_Type options,
               md_EtcdPrefix = Keys_Prefix keys,
               md_TargetID = opt_TargetID options,
               md_Generation = generation,
               md_BundleSHA256 = digest,
               md_BundleValueSHA256 = bundle_hash L encoded,
               md_EncodedSize = int (length encoded),
               md_ActiveKey = Keys_ActiveKey keys (opt_TargetID options),
               md_BundleKey = Keys_BundleKey keys (opt_TargetID options) generation,
               md_Files = metadataFiles manifest\<rparr>
        in Inr \<lparr>pr_Metadata = metadata, pr_Bundle = encoded,
                pr_StageTxn = stageTransaction is_print (md_BundleKey metadata) encoded\<rparr>))))"

section \<open>Validating\<close>

text \<open>The loop over the manifest's files.\<close>

fun validate_pack_files ::
  "(string \<times> MetadataFile) list \<Rightarrow> (string \<times> string) list \<Rightarrow> string \<Rightarrow> ManifestFile list \<Rightarrow>
   (pack_error, unit) result" where
  "validate_pack_files metadata roles ty [] = Inr ()"
| "validate_pack_files metadata roles ty (file # files) =
     (case map_of metadata (mf_Name file) of
        None \<Rightarrow> Inl (MetadataMissingFile (mf_Name file))
      | Some expected \<Rightarrow>
          if mdf_Role expected \<noteq> mf_Role file \<or> mdf_SHA256 expected \<noteq> mf_SHA256 file
          then Inl (MetadataFileMismatch (mf_Name file))
          else if map_of roles (mf_Name file) \<noteq> Some (mf_Role file)
          then Inl (InvalidFileRole (mf_Name file) ty)
          else validate_pack_files metadata roles ty files)"

definition Pack_Validate :: "crypto \<Rightarrow> PackResult \<Rightarrow> (pack_error, unit) result" where
  "Pack_Validate L result =
     (let metadata = pr_Metadata result in
      if md_Schema metadata \<noteq> MetadataSchema then Inl (UnsupportedPackSchema (md_Schema metadata))
      else and_then (NewKeys (md_EtcdPrefix metadata)) PackPrefix (\<lambda>keys.
      if \<not> SafeName (md_TargetID metadata) then Inl (UnsafePackTarget (md_TargetID metadata))
      else if md_BundleValueSHA256 metadata \<noteq> bundle_hash L (pr_Bundle result)
      then Inl BundleValueMismatch
      else if md_EncodedSize metadata \<noteq> int (length (pr_Bundle result))
      then Inl (EncodedSizeMismatch (md_EncodedSize metadata) (length (pr_Bundle result)))
      else and_then (Decode L (pr_Bundle result)) DecodePack (\<lambda>(manifest, files, digest).
      if digest \<noteq> md_BundleSHA256 metadata then Inl PackDigestMismatch
      else and_then (ValidateGeneration (md_Generation metadata) digest) InvalidPackGeneration (\<lambda>_.
      let expectedActiveKey = Keys_ActiveKey keys (md_TargetID metadata);
          expectedBundleKey = Keys_BundleKey keys (md_TargetID metadata) (md_Generation metadata) in
      if md_ActiveKey metadata \<noteq> expectedActiveKey
      then Inl (ActiveKeyMismatch (md_ActiveKey metadata) expectedActiveKey)
      else if md_BundleKey metadata \<noteq> expectedBundleKey
      then Inl (BundleKeyMismatch (md_BundleKey metadata) expectedBundleKey)
      else if md_Type metadata \<noteq> m_Type manifest
      then Inl (PackTypeMismatch (md_Type metadata) (m_Type manifest))
      else case expectedFileRoles (m_Type manifest) of
        None \<Rightarrow> Inl (InvalidFileSet (m_Type manifest))
      | Some expectedRoles \<Rightarrow>
          if map_len files \<noteq> map_len expectedRoles \<or> length (m_Files manifest) \<noteq> map_len expectedRoles \<or>
             map_len (md_Files metadata) \<noteq> map_len expectedRoles
          then Inl (InvalidFileSet (m_Type manifest))
          else validate_pack_files (md_Files metadata) expectedRoles (m_Type manifest)
            (m_Files manifest)))))"

section \<open>Reading\<close>

definition unmarshal_map :: "(json \<Rightarrow> 'a option) \<Rightarrow> json \<Rightarrow> (string \<times> 'a) list option" where
  "unmarshal_map dec v =
     (case v of
        JNull \<Rightarrow> Some []
      | JObj ms \<Rightarrow>
          (case unmarshal_list dec (map snd ms) of
             None \<Rightarrow> None
           | Some xs \<Rightarrow> Some (zip (map fst ms) xs))
      | _ \<Rightarrow> None)"

definition MetadataFile_members :: "(string \<times> json) list \<Rightarrow> MetadataFile option" where
  "MetadataFile_members ms =
     (case (json_member unmarshal_string [] ms ''role'', json_member unmarshal_string [] ms ''sha256'') of
        (Some r, Some s) \<Rightarrow> Some \<lparr>mdf_Role = r, mdf_SHA256 = s\<rparr>
      | _ \<Rightarrow> None)"

definition Metadata_members :: "(string \<times> json) list \<Rightarrow> Metadata option" where
  "Metadata_members ms =
     (let str = json_member unmarshal_string [] ms in
      case (str ''schema'', str ''type'', str ''etcd-prefix'', str ''target-id'', str ''generation'') of
        (Some schema, Some ty, Some prefix, Some target, Some generation) \<Rightarrow>
          (case (str ''bundle-sha256'', str ''bundle-value-sha256'',
                 json_member unmarshal_int 0 ms ''encoded-size'', str ''active-key'', str ''bundle-key'',
                 json_member (unmarshal_map (unmarshal_struct [''role'', ''sha256''] MetadataFile_members))
                   [] ms ''files'') of
             (Some digest, Some valueSum, Some encodedSize, Some activeKey, Some bundleKey, Some files) \<Rightarrow>
               Some \<lparr>md_Schema = schema, md_Type = ty, md_EtcdPrefix = prefix, md_TargetID = target,
                 md_Generation = generation, md_BundleSHA256 = digest, md_BundleValueSHA256 = valueSum,
                 md_EncodedSize = encodedSize, md_ActiveKey = activeKey, md_BundleKey = bundleKey,
                 md_Files = files\<rparr>
           | _ \<Rightarrow> None)
      | _ \<Rightarrow> None)"

definition metadata_names :: "string list" where
  "metadata_names =
     [''schema'', ''type'', ''etcd-prefix'', ''target-id'', ''generation'', ''bundle-sha256'',
      ''bundle-value-sha256'', ''encoded-size'', ''active-key'', ''bundle-key'', ''files'']"

definition unmarshal_Metadata :: "bytes \<Rightarrow> Metadata option" where
  "unmarshal_Metadata data =
     (case json_parse data of
        None \<Rightarrow> None
      | Some v \<Rightarrow> unmarshal_struct metadata_names Metadata_members v)"

definition Pack_Read :: "crypto \<Rightarrow> reader \<Rightarrow> string \<Rightarrow> (pack_error, PackResult) result" where
  "Pack_Read L read directory =
     (if TrimSpace directory = [] then Inl EmptyPackDirectory
      else
        and_then (read (PathJoin [directory, ''metadata.json''])) ReadMetadata (\<lambda>metadataData.
        case unmarshal_Metadata metadataData of
          None \<Rightarrow> Inl DecodeMetadata
        | Some metadata \<Rightarrow>
            and_then (read (PathJoin [directory, ''bundle.json''])) ReadPackBundle (\<lambda>bundleData.
            let result = \<lparr>pr_Metadata = metadata, pr_Bundle = bundleData, pr_StageTxn = []\<rparr> in
            and_then (Pack_Validate L result) id (\<lambda>_. Inr result))))"

section \<open>The digest of a built manifest\<close>

lemma ManifestDigest_cong:
  assumes "map_of f1 = map_of f2"
  shows "ManifestDigest L m f1 = ManifestDigest L m f2"
proof -
  have "dom (map_of f1) = dom (map_of f2)" using assms by simp
  then have keys: "sorted_keys f1 = sorted_keys f2"
    by (intro sorted_keys_cong) (simp add: dom_map_of_conv_image_fst)
  have "file_contribution L d f1 = file_contribution L d f2" for d
    by (auto simp: file_contribution_def map_get_def assms)
  then show ?thesis by (simp add: ManifestDigest_def digest_input_def keys)
qed

text \<open>A manifest whose data encodes the given contents decodes to these contents.\<close>

definition encoded_file :: "crypto \<Rightarrow> string \<times> string \<times> bytes \<Rightarrow> ManifestFile" where
  "encoded_file L = (\<lambda>(n, r, c). \<lparr>mf_Name = n, mf_Role = r, mf_SHA256 = bundle_hash L c,
     mf_Encoding = EncodingBase64, mf_Data = b64_encode c\<rparr>)"

definition part_content :: "string \<times> string \<times> bytes \<Rightarrow> string \<times> bytes" where
  "part_content = (\<lambda>(n, r, c). (n, c))"

lemma decode_files_encoded:
  assumes "decode_files L (map (encoded_file L) parts) [] = Inr files" and "distinct (map fst parts)"
  shows "map_of files = map_of (map part_content parts)"
proof -
  obtain cs where cs: "list_all2 (decoded_as L) (map (encoded_file L) parts) cs"
    "files = rev (zip (map mf_Name (map (encoded_file L) parts)) cs)"
    using assms(1) by (auto simp: decode_files_Inr)
  have "zip (map mf_Name (map (encoded_file L) parts)) cs = map part_content parts"
    using cs(1)
    by (induction parts arbitrary: cs)
      (auto simp: list_all2_Cons1 decoded_as_def encoded_file_def part_content_def)
  then have files: "files = rev (map part_content parts)" by (simp add: cs(2))
  show ?thesis
    unfolding files
    by (rule ext, rule map_of_rev_distinct)
      (use assms(2) in \<open>simp add: comp_def case_prod_beta' part_content_def\<close>)
qed

lemma NewTLSManifest_parts:
  "NewTLSManifest L ty certificate privateKey =
     (let parts = [(NameCertificateChain, RoleCertificateChain, certificate),
                   (NamePrivateKey, RolePrivateKey, privateKey)];
          manifest = \<lparr>m_Schema = SchemaV6, m_Type = ty, m_Files = map (encoded_file L) parts\<rparr>
      in (manifest, ManifestDigest L manifest (map part_content parts)))"
proof -
  have "NameCertificateChain < NamePrivateKey" unfolding name_defs by code_simp
  then show ?thesis
    by (simp add: NewTLSManifest_def Let_def encoded_file_def part_content_def)
qed

lemma NewTrustManifest_parts:
  "NewTrustManifest L certificate =
     (let parts = [(NameCABundle, RoleCACertificate, certificate)];
          manifest = \<lparr>m_Schema = SchemaV6, m_Type = TypeTrust, m_Files = map (encoded_file L) parts\<rparr>
      in (manifest, ManifestDigest L manifest (map part_content parts)))"
  by (simp add: NewTrustManifest_def Let_def encoded_file_def part_content_def)

text \<open>The digest that the constructors return is the digest of the decoded bundle.\<close>

lemma parts_digest:
  assumes "m_Files m = map (encoded_file L) parts" "distinct (map fst parts)" "valid_bundle L m files"
  shows "ManifestDigest L m (map part_content parts) = ManifestDigest L m files"
  using decode_files_encoded [of L parts files] assms
  by (intro ManifestDigest_cong) (simp add: valid_bundle_def)

lemma NewTLSManifest_digest:
  assumes "NewTLSManifest L ty certificate privateKey = (m, digest)" "valid_bundle L m files"
  shows "digest = ManifestDigest L m files" "m_Type m = ty"
proof -
  let ?parts = "[(NameCertificateChain, RoleCertificateChain, certificate),
    (NamePrivateKey, RolePrivateKey, privateKey)]"
  have m: "m = \<lparr>m_Schema = SchemaV6, m_Type = ty, m_Files = map (encoded_file L) ?parts\<rparr>"
    and d: "digest = ManifestDigest L m (map part_content ?parts)"
    using assms(1) unfolding NewTLSManifest_parts Let_def by blast+
  show "digest = ManifestDigest L m files"
    unfolding d by (rule parts_digest [OF _ _ assms(2)]) (simp_all add: m)
  show "m_Type m = ty" by (simp add: m)
qed

lemma NewTrustManifest_digest:
  assumes "NewTrustManifest L certificate = (m, digest)" "valid_bundle L m files"
  shows "digest = ManifestDigest L m files" "m_Type m = TypeTrust"
proof -
  let ?parts = "[(NameCABundle, RoleCACertificate, certificate)]"
  have m: "m = \<lparr>m_Schema = SchemaV6, m_Type = TypeTrust, m_Files = map (encoded_file L) ?parts\<rparr>"
    and d: "digest = ManifestDigest L m (map part_content ?parts)"
    using assms(1) unfolding NewTrustManifest_parts Let_def by blast+
  show "digest = ManifestDigest L m files"
    unfolding d by (rule parts_digest [OF _ _ assms(2)]) (simp_all add: m)
  show "m_Type m = TypeTrust" by (simp add: m)
qed

section \<open>Valid packs\<close>

lemma validate_pack_files_ok:
  "is_ok (validate_pack_files metadata roles ty fs) \<longleftrightarrow>
     (\<forall>f \<in> set fs. map_of roles (mf_Name f) = Some (mf_Role f) \<and>
        map_of metadata (mf_Name f) = Some \<lparr>mdf_Role = mf_Role f, mdf_SHA256 = mf_SHA256 f\<rparr>)"
  by (induction fs) (auto split: option.splits)

lemma expectedFileRoles_eq: "expectedFileRoles = expectedFiles"
  by (auto simp: expectedFileRoles_def expectedFiles_def)

text \<open>What \<open>Pack_Validate\<close> accepts, as one predicate over the pack and what it decodes to.\<close>

definition valid_pack :: "crypto \<Rightarrow> PackResult \<Rightarrow> Keys \<Rightarrow> Manifest \<Rightarrow> file_map \<Rightarrow> bool" where
  "valid_pack L p keys m files \<longleftrightarrow>
     (let md = pr_Metadata p; digest = ManifestDigest L m files in
      md_Schema md = MetadataSchema \<and> NewKeys (md_EtcdPrefix md) = Inr keys \<and>
      SafeName (md_TargetID md) \<and> md_BundleValueSHA256 md = bundle_hash L (pr_Bundle p) \<and>
      md_EncodedSize md = int (length (pr_Bundle p)) \<and>
      Decode L (pr_Bundle p) = Inr (m, files, digest) \<and>
      md_BundleSHA256 md = digest \<and> md_Generation md = Generation digest \<and>
      md_ActiveKey md = Keys_ActiveKey keys (md_TargetID md) \<and>
      md_BundleKey md = Keys_BundleKey keys (md_TargetID md) (md_Generation md) \<and>
      md_Type md = m_Type m \<and> map_len (md_Files md) = length (m_Files m) \<and>
      (\<forall>f \<in> set (m_Files m). map_of (md_Files md) (mf_Name f) =
         Some \<lparr>mdf_Role = mf_Role f, mdf_SHA256 = mf_SHA256 f\<rparr>))"

lemma valid_bundle_roles:
  assumes L: "crypto_ok L" and v: "valid_bundle L m files"
    and ex: "expectedFiles (m_Type m) = Some ex" and f: "f \<in> set (m_Files m)"
  shows "map_of ex (mf_Name f) = Some (mf_Role f)"
proof -
  have "valid_declaration ex f" using v ex f by (auto simp: valid_bundle_def Manifest_Validate_ok)
  then have role: "mf_Role f = map_get ex (mf_Name f)" by (simp add: valid_declaration_def)
  have "mf_Name f \<in> fst ` set ex" using valid_bundle_names [OF L v] ex f by auto
  then obtain r where "map_of ex (mf_Name f) = Some r"
    by (metis map_of_eq_None_iff not_None_eq)
  with role show ?thesis by (simp add: map_get_def)
qed

lemma Pack_Validate_ok:
  assumes L: "crypto_ok L"
  shows "is_ok (Pack_Validate L p) \<longleftrightarrow> (\<exists>keys m files. valid_pack L p keys m files)"
proof
  assume "is_ok (Pack_Validate L p)"
  then obtain keys m files digest where d: "Decode L (pr_Bundle p) = Inr (m, files, digest)"
    and rest: "digest = ManifestDigest L m files \<Longrightarrow> valid_pack L p keys m files"
    unfolding Pack_Validate_def valid_pack_def Let_def and_then_is_ok
    by (auto simp: ValidateGeneration_def validate_pack_files_ok and_then_is_ok
        split: if_split_asm option.split_asm)
  from d have "digest = ManifestDigest L m files" by (simp add: Decode_Inr)
  with rest show "\<exists>keys m files. valid_pack L p keys m files" by blast
next
  assume "\<exists>keys m files. valid_pack L p keys m files"
  then obtain keys m files where v: "valid_pack L p keys m files" by blast
  then have b: "valid_bundle L m files" by (simp add: valid_pack_def Let_def Decode_Inr)
  then obtain ex where ex: "expectedFiles (m_Type m) = Some ex" and len: "length (m_Files m) = map_len ex"
    by (auto simp: valid_bundle_def Manifest_Validate_ok)
  have files: "map_len files = length (m_Files m)"
    using b by (auto simp: valid_bundle_def Manifest_ValidateFiles_Inr)
  have "is_ok (validate_pack_files (md_Files (pr_Metadata p)) ex (m_Type m) (m_Files m))"
    using v valid_bundle_roles [OF L b ex] by (auto simp: validate_pack_files_ok valid_pack_def Let_def)
  with v ex len files show "is_ok (Pack_Validate L p)"
    by (simp add: Pack_Validate_def Let_def valid_pack_def ValidateGeneration_def expectedFileRoles_eq)
qed

lemma metadataFiles_lookup:
  assumes "distinct (map mf_Name (m_Files m))" and "f \<in> set (m_Files m)"
  shows "map_of (metadataFiles m) (mf_Name f) = Some \<lparr>mdf_Role = mf_Role f, mdf_SHA256 = mf_SHA256 f\<rparr>"
    and "map_len (metadataFiles m) = length (m_Files m)"
proof -
  let ?d = "map (\<lambda>f. (mf_Name f, \<lparr>mdf_Role = mf_Role f, mdf_SHA256 = mf_SHA256 f\<rparr>)) (m_Files m)"
  have "distinct (map fst (rev ?d))" using assms(1) by (simp add: rev_map [symmetric] comp_def)
  moreover have "(mf_Name f, \<lparr>mdf_Role = mf_Role f, mdf_SHA256 = mf_SHA256 f\<rparr>) \<in> set (rev ?d)"
    using assms(2) by simp
  ultimately show "map_of (metadataFiles m) (mf_Name f) = Some \<lparr>mdf_Role = mf_Role f, mdf_SHA256 = mf_SHA256 f\<rparr>"
    unfolding metadataFiles_def by (rule map_of_is_SomeI)
  show "map_len (metadataFiles m) = length (m_Files m)"
    using \<open>distinct (map fst (rev ?d))\<close> unfolding metadataFiles_def by (simp add: map_len_distinct)
qed

lemma build_manifest_Inr:
  assumes "build_manifest L read options = Inr (m, digest)" "valid_bundle L m files"
  shows "digest = ManifestDigest L m files" "m_Type m = opt_Type options"
proof -
  have "digest = ManifestDigest L m files \<and> m_Type m = opt_Type options"
    using assms(1) NewTLSManifest_digest [OF _ assms(2)] NewTrustManifest_digest [OF _ assms(2)]
    by (fastforce simp: build_manifest_def and_then_Inr split: if_splits)
  then show "digest = ManifestDigest L m files" "m_Type m = opt_Type options" by blast+
qed

section \<open>Packs\<close>

lemma Build_Inr:
  assumes "Build L is_print read options = Inr p"
  shows "\<exists>keys m digest. NewKeys (opt_EtcdPrefix options) = Inr keys \<and>
    SafeName (opt_TargetID options) \<and> build_manifest L read options = Inr (m, digest) \<and>
    Encode L m = Inr (pr_Bundle p) \<and>
    pr_Metadata p = \<lparr>md_Schema = MetadataSchema, md_Type = opt_Type options,
      md_EtcdPrefix = Keys_Prefix keys, md_TargetID = opt_TargetID options,
      md_Generation = Generation digest, md_BundleSHA256 = digest,
      md_BundleValueSHA256 = bundle_hash L (pr_Bundle p),
      md_EncodedSize = int (length (pr_Bundle p)),
      md_ActiveKey = Keys_ActiveKey keys (opt_TargetID options),
      md_BundleKey = Keys_BundleKey keys (opt_TargetID options) (Generation digest),
      md_Files = metadataFiles m\<rparr>"
  using assms by (auto simp: Build_def Let_def and_then_Inr split: if_split_asm)

lemma Build_valid_pack:
  assumes "Build L is_print read options = Inr p" "NewKeys (opt_EtcdPrefix options) = Inr keys"
    and "NewKeys (Keys_Prefix keys) = Inr keys"
  shows "\<exists>m files. valid_pack L p keys m files"
proof -
  obtain m digest where safe: "SafeName (opt_TargetID options)"
    and bm: "build_manifest L read options = Inr (m, digest)"
    and enc: "Encode L m = Inr (pr_Bundle p)"
    and md: "pr_Metadata p = \<lparr>md_Schema = MetadataSchema, md_Type = opt_Type options,
      md_EtcdPrefix = Keys_Prefix keys, md_TargetID = opt_TargetID options,
      md_Generation = Generation digest, md_BundleSHA256 = digest,
      md_BundleValueSHA256 = bundle_hash L (pr_Bundle p),
      md_EncodedSize = int (length (pr_Bundle p)),
      md_ActiveKey = Keys_ActiveKey keys (opt_TargetID options),
      md_BundleKey = Keys_BundleKey keys (opt_TargetID options) (Generation digest),
      md_Files = metadataFiles m\<rparr>"
    using Build_Inr [OF assms(1)] assms(2) by auto
  obtain files where dec: "Decode L (pr_Bundle p) = Inr (m, files, ManifestDigest L m files)"
    and v: "valid_bundle L m files"
    using Decode_Encode [OF enc] by blast
  note d = build_manifest_Inr [OF bm v]
  have dist: "distinct (map mf_Name (m_Files m))" using v by (auto simp: valid_bundle_def Manifest_Validate_ok)
  have look: "\<forall>f \<in> set (m_Files m). map_of (metadataFiles m) (mf_Name f) =
      Some \<lparr>mdf_Role = mf_Role f, mdf_SHA256 = mf_SHA256 f\<rparr>"
    using metadataFiles_lookup(1) [OF dist] by blast
  have len: "map_len (metadataFiles m) = length (m_Files m)"
    using dist by (simp add: metadataFiles_def map_len_distinct rev_map [symmetric] comp_def)
  have "valid_pack L p keys m files"
    unfolding valid_pack_def Let_def md using safe dec d look len assms(3) by simp
  then show ?thesis by blast
qed

lemma Build_validates:
  assumes L: "crypto_ok L" and b: "Build L is_print read options = Inr p"
  shows "is_ok (Pack_Validate L p) \<longleftrightarrow> TrimSpace (md_EtcdPrefix (pr_Metadata p)) = md_EtcdPrefix (pr_Metadata p)"
proof -
  obtain keys where keys: "NewKeys (opt_EtcdPrefix options) = Inr keys"
    and target: "SafeName (md_TargetID (pr_Metadata p))"
    and prefix: "md_EtcdPrefix (pr_Metadata p) = keys_prefix keys"
    and active: "md_ActiveKey (pr_Metadata p) = Keys_ActiveKey keys (md_TargetID (pr_Metadata p))"
    using Build_Inr [OF b] by (auto simp: Keys_Prefix_def)
  have wf: "wf_keys keys" by (rule NewKeys_Inr(1) [OF keys])
  show ?thesis
  proof
    assume "is_ok (Pack_Validate L p)"
    then obtain keys' m files where v: "valid_pack L p keys' m files" by (auto simp: Pack_Validate_ok [OF L])
    then have k': "NewKeys (keys_prefix keys) = Inr keys'"
      and "Keys_ActiveKey keys' (md_TargetID (pr_Metadata p)) = Keys_ActiveKey keys (md_TargetID (pr_Metadata p))"
      using prefix active by (auto simp: valid_pack_def Let_def)
    then have "keys' = keys" using ActiveKey_inj [OF NewKeys_Inr(1) wf target target] by blast
    with k' NewKeys_self [OF wf] show "TrimSpace (md_EtcdPrefix (pr_Metadata p)) = md_EtcdPrefix (pr_Metadata p)"
      by (simp add: prefix)
  next
    assume "TrimSpace (md_EtcdPrefix (pr_Metadata p)) = md_EtcdPrefix (pr_Metadata p)"
    then have "NewKeys (Keys_Prefix keys) = Inr keys"
      using NewKeys_self [OF wf] by (simp add: prefix Keys_Prefix_def)
    from Build_valid_pack [OF b keys this] show "is_ok (Pack_Validate L p)"
      unfolding Pack_Validate_ok [OF L] by blast
  qed
qed

end
