(* ===== verification/Sample_Crypto.thy ===== *)
theory Sample_Crypto
  imports Pack "HOL-Library.Code_Target_Nat"
begin

text \<open>
  A small concrete cryptographic library that satisfies \<open>crypto_ok\<close>, and sample bundles, at which
  the witnesses of the development evaluate the code. A PEM block is one letter: \<open>L\<close> a server leaf,
  \<open>M\<close> another server leaf, \<open>A\<close> a CA, \<open>K\<close> a private key; the sum is a 16-bit checksum padded to
  32 bytes.
\<close>

definition sample_sum :: "bytes \<Rightarrow> bytes" where
  "sample_sum x =
     (let h = foldl (\<lambda>h c. (h * 31 + of_char c) mod 65536) (7::nat) x
      in [char_of (h div 256), char_of (h mod 256)] @ replicate 30 (CHR ''x''))"

definition sample_block :: "string \<Rightarrow> char \<Rightarrow> PemBlock" where
  "sample_block ty c = \<lparr>pb_Type = ty, pb_Headers = [], pb_Bytes = [c]\<rparr>"

definition sample_pem_Decode :: "bytes \<Rightarrow> (PemBlock \<times> bytes) option" where
  "sample_pem_Decode x =
     (case x of
        [] \<Rightarrow> None
      | c # r \<Rightarrow>
          if c \<in> set ''LMA'' then Some (sample_block ''CERTIFICATE'' c, r)
          else if c = CHR ''K'' then Some (sample_block ''PRIVATE KEY'' c, r)
          else None)"

definition sample_cert :: "bytes \<Rightarrow> Certificate" where
  "sample_cert b =
     \<lparr>c_Raw = b, c_IsCA = (b = ''A''), c_NotBefore = 0, c_NotAfter = (if b = ''M'' then 5000 else 1000),
      c_ExtKeyUsage = (if b = ''A'' then [] else [ExtKeyUsageServerAuth]),
      c_PublicKey = Ed25519\<rparr>"

definition sample_crypto :: crypto where
  "sample_crypto =
     \<lparr>sha256 = sample_sum,
      pem_Decode = sample_pem_Decode,
      pem_EncodeToMemory = pb_Bytes,
      ParseCertificate = (\<lambda>b. if b \<in> {''L'', ''M'', ''A''} then Some (sample_cert b) else None),
      CheckSignatureFrom = (\<lambda>c d. c_IsCA d),
      X509KeyPair = (\<lambda>c k. if k = ''K'' then Some (Some (sample_cert (take 1 c))) else None),
      VerifyHostname = (\<lambda>c name. name = ''example.org'')\<rparr>"

lemma sample_crypto_ok: "crypto_ok sample_crypto"
  by (auto simp: crypto_ok_def sample_crypto_def sample_sum_def sample_pem_Decode_def Let_def
      split: list.splits if_splits)

text \<open>Two sample identities, their encodings and what they decode to.\<close>

definition sample_manifest :: "Manifest \<times> string" where
  "sample_manifest = NewTLSManifest sample_crypto TypeTLSServer ''LA'' ''K''"

definition other_manifest :: "Manifest \<times> string" where
  "other_manifest = NewTLSManifest sample_crypto TypeTLSServer ''MA'' ''K''"

definition encoded :: "Manifest \<Rightarrow> bytes" where
  "encoded m = (case Encode sample_crypto m of Inl _ \<Rightarrow> [] | Inr data \<Rightarrow> data)"

definition decoded :: "Manifest \<Rightarrow> file_map" where
  "decoded m = (case decodeManifestFiles sample_crypto m of Inl _ \<Rightarrow> [] | Inr files \<Rightarrow> files)"

lemma encoded_eq: "is_ok (Encode sample_crypto m) \<Longrightarrow> Encode sample_crypto m = Inr (encoded m)"
  by (auto simp: encoded_def is_ok_iff)

lemma decoded_eq:
  "is_ok (decodeManifestFiles sample_crypto m) \<Longrightarrow> decodeManifestFiles sample_crypto m = Inr (decoded m)"
  by (auto simp: decoded_def is_ok_iff)

lemma sample_encodes: "is_ok (Encode sample_crypto (fst sample_manifest))"
  by code_simp

lemma other_encodes: "is_ok (Encode sample_crypto (fst other_manifest))"
  by code_simp

lemma sample_Encode: "Encode sample_crypto (fst sample_manifest) = Inr (encoded (fst sample_manifest))"
  by (rule encoded_eq) (rule sample_encodes)

lemma other_Encode: "Encode sample_crypto (fst other_manifest) = Inr (encoded (fst other_manifest))"
  by (rule encoded_eq) (rule other_encodes)

lemma encoded_valid:
  assumes "is_ok (Encode sample_crypto m)"
  shows "valid_bundle sample_crypto m (decoded m)"
    and "Decode sample_crypto (encoded m) = Inr (m, decoded m, ManifestDigest sample_crypto m (decoded m))"
proof -
  obtain files where files: "valid_bundle sample_crypto m files"
    "Decode sample_crypto (encoded m) = Inr (m, files, ManifestDigest sample_crypto m files)"
    using Decode_Encode [OF encoded_eq [OF assms]] by blast
  then have "decoded m = files" by (simp add: decoded_def decodeManifestFiles_Inr [symmetric])
  with files show "valid_bundle sample_crypto m (decoded m)"
    "Decode sample_crypto (encoded m) = Inr (m, decoded m, ManifestDigest sample_crypto m (decoded m))"
    by simp_all
qed

lemmas sample_valid = encoded_valid [OF sample_encodes]
lemmas other_valid = encoded_valid [OF other_encodes]

end
