(* ===== verification/Bundle_Properties.thy ===== *)
theory Bundle_Properties
  imports Sample_Crypto
begin

text \<open>The properties of the keyspace and of the bundle component, with their witnesses.\<close>

section \<open>Keys\<close>

text \<open>C23: keys identify what they name. Under well-formed namespaces and safe names, two active keys
  are equal only for the same namespace and target, two bundle keys only for the same namespace,
  target and generation, and no active key is a bundle key.\<close>

theorem keys_identify:
  assumes "wf_keys k" "wf_keys k'" "SafeName t" "SafeName t'" "SafeName g" "SafeName g'"
  shows "(Keys_ActiveKey k t = Keys_ActiveKey k' t' \<longleftrightarrow> k = k' \<and> t = t') \<and>
    (Keys_BundleKey k t g = Keys_BundleKey k' t' g' \<longleftrightarrow> k = k' \<and> t = t' \<and> g = g') \<and>
    Keys_ActiveKey k t \<noteq> Keys_BundleKey k' t' g'"
  using ActiveKey_inj [OF assms(1-4)] BundleKey_inj [OF assms] ActiveKey_not_BundleKey [OF assms(1-4,6)]
  by blast

lemma keys_identify_witness:
  "Keys_BundleKey DefaultKeys ''web'' ''g1'' \<noteq> Keys_BundleKey DefaultKeys ''web'' ''g2''"
proof -
  have "SafeName ''web''" "SafeName ''g1''" "SafeName ''g2''" by code_simp+
  from keys_identify [OF wf_DefaultKeys wf_DefaultKeys this(1,1,2,3)] show ?thesis by simp
qed

text \<open>C24: \<open>NewKeys\<close> accepts only prefixes that it turns into a clean absolute path without dot
  components or backslashes, and every key it builds lies below that path.\<close>

theorem NewKeys_normalizes:
  assumes "NewKeys raw = Inr k"
  shows "wf_keys k \<and> Keys_Prefix k = Clean (TrimSpace raw) \<and>
    (\<exists>ws. Keys_Prefix k = abs_path ws \<and> (\<forall>w \<in> set ws. plain_component w) \<and>
      (\<forall>t. Keys_ActiveKey k t = abs_path (ws @ [''v6'', ''active'', t])) \<and>
      (\<forall>t g. Keys_BundleKey k t g = abs_path (ws @ [''v6'', ''bundles'', t, g])))"
proof -
  obtain ws where "keys_prefix k = abs_path ws" "\<forall>w \<in> set ws. plain_component w"
    using wf_keysE [OF NewKeys_Inr(1) [OF assms]] .
  then show ?thesis
    using NewKeys_Inr(1,2) [OF assms] Keys_paths(3,5) by (fastforce simp: Keys_Prefix_def)
qed

lemma NewKeys_normalizes_witness: "wf_keys \<lparr>keys_prefix = ''/team/pemcast''\<rparr>"
proof -
  have "NewKeys ''  /team//pemcast/ '' = Inr \<lparr>keys_prefix = ''/team/pemcast''\<rparr>" by code_simp
  from NewKeys_normalizes [OF this] show ?thesis by blast
qed

section \<open>Bundles\<close>

text \<open>C15: encoding and decoding are inverse. What \<open>Encode\<close> accepts has a bundle value that
  \<open>Decode\<close> reads back as the same manifest, with file contents that pass the full validation and
  the semantic digest of these contents.\<close>

theorem Encode_roundtrip:
  assumes "Encode L m = Inr data"
  shows "length data \<le> MaxEncodedBundleBytes \<and>
    (\<exists>files certs. Decode L data = Inr (m, files, ManifestDigest L m files) \<and>
      Manifest_ValidateFiles L m files = Inr certs)"
proof -
  obtain files where "Decode L data = Inr (m, files, ManifestDigest L m files)" "valid_bundle L m files"
    using Decode_Encode [OF assms] by blast
  with assms show ?thesis by (auto simp: Encode_Inr valid_bundle_def)
qed

lemma Encode_roundtrip_witness: "is_ok (Decode sample_crypto (encoded (fst sample_manifest)))"
  using Encode_roundtrip [OF sample_Encode] by auto

text \<open>C16: content addressing. For accepted bundles whose hashed contents do not collide, equal
  digests (hence equal generations) mean the same type and the same file contents.\<close>

theorem generation_identifies:
  assumes "crypto_ok L" "Decode L d1 = Inr (m1, f1, digest1)" "Decode L d2 = Inr (m2, f2, digest2)"
    and "no_collision L (hashed_by L m1 f1 \<union> hashed_by L m2 f2)"
    and "Generation digest1 = Generation digest2"
  shows "m_Type m1 = m_Type m2 \<and> map_of f1 = map_of f2"
  using digest_identifies [OF assms(1) _ _ assms(4)] assms(2,3,5)
  by (simp add: Decode_Inr Generation_def)

lemma generation_identifies_witness:
  "ManifestDigest sample_crypto (fst sample_manifest) (decoded (fst sample_manifest)) \<noteq>
   ManifestDigest sample_crypto (fst other_manifest) (decoded (fst other_manifest))"
proof
  let ?m1 = "fst sample_manifest" and ?m2 = "fst other_manifest"
  assume eq: "ManifestDigest sample_crypto ?m1 (decoded ?m1) = ManifestDigest sample_crypto ?m2 (decoded ?m2)"
  let ?l = "digest_input sample_crypto ?m1 (decoded ?m1) # map snd (decoded ?m1) @
    digest_input sample_crypto ?m2 (decoded ?m2) # map snd (decoded ?m2)"
  have "length (remdups (map sample_sum ?l)) = length (remdups ?l)" by code_simp
  then have "inj_on sample_sum (set ?l)"
    by (metis card_image_le eq_card_imp_inj_on finite_set length_remdups_card_conv list.set_map)
  then have "no_collision sample_crypto (hashed_by sample_crypto ?m1 (decoded ?m1) \<union>
      hashed_by sample_crypto ?m2 (decoded ?m2))"
    by (simp add: no_collision_def hashed_by_def sample_crypto_def insert_commute)
  from generation_identifies [OF sample_crypto_ok sample_valid(2) other_valid(2) this] eq
  have "map_of (decoded ?m1) = map_of (decoded ?m2)" by simp
  moreover have "map_of (decoded ?m1) NameCertificateChain \<noteq> map_of (decoded ?m2) NameCertificateChain"
    by code_simp
  ultimately show False by simp
qed

text \<open>C17: what an accepted bundle is. \<open>ValidateFiles\<close> returns certificates and a leaf exactly
  when the manifest is structurally valid, the files are the declared ones with the declared sums,
  and the certificates have the semantics of the bundle type: for an identity a non-CA leaf first,
  CA issuers, a chain in which each certificate is signed by the next, a private key that matches
  the leaf, a supported public key and a permitted key usage; for trust only CA certificates.\<close>

theorem ValidateFiles_accepts:
  "Manifest_ValidateFiles L m files = Inr (cs, leaf) \<longleftrightarrow>
     is_ok (Manifest_Validate m) \<and> map_len files = length (m_Files m) \<and>
     holds_declared L m files \<and> semantics_ok L m files cs leaf"
  by (rule Manifest_ValidateFiles_Inr)

text \<open>C22: every accepted bundle has exactly the files of its type, under their roles.\<close>

theorem accepted_files:
  assumes "crypto_ok L" "decodeManifestFiles L m = Inr files"
  shows "\<exists>expected. expectedFiles (m_Type m) = Some expected \<and>
    fst ` set files = fst ` set expected \<and>
    (\<forall>f \<in> set (m_Files m). map_of expected (mf_Name f) = Some (mf_Role f))"
proof -
  have v: "valid_bundle L m files" using assms(2) by (simp add: decodeManifestFiles_Inr)
  obtain ex where "expectedFiles (m_Type m) = Some ex" "fst ` set files = fst ` set ex"
    using valid_bundle_names [OF assms(1) v] by blast
  with valid_bundle_roles [OF assms(1) v] show ?thesis by blast
qed

lemma accepted_files_witness: "fst ` set (decoded (fst sample_manifest)) = {NameCertificateChain, NamePrivateKey}"
proof -
  have "decodeManifestFiles sample_crypto (fst sample_manifest) = Inr (decoded (fst sample_manifest))"
    using sample_valid(1) by (simp add: decodeManifestFiles_Inr)
  from accepted_files [OF sample_crypto_ok this] obtain ex where
    "expectedFiles (m_Type (fst sample_manifest)) = Some ex" "fst ` set (decoded (fst sample_manifest)) = fst ` set ex"
    by blast
  then show ?thesis by (auto simp: sample_manifest_def NewTLSManifest_def Let_def expectedFiles_def)
qed

text \<open>C25: the loop over PEM blocks always ends: the fuel \<open>parseCertificates\<close> starts with is never
  used up, and any larger fuel gives the same result.\<close>

theorem parseCertificates_terminates:
  assumes "crypto_ok L" "length data < fuel"
  shows "parse_cert_loop L fuel data [] = parse_cert_loop L (Suc (length data)) data [] \<and>
    parseCertificates L data \<noteq> Inl ParseFuel"
  using parse_cert_loop_fuel [OF assms, of "[]"] parse_cert_loop_fuel(2) [OF assms(1) lessI, of data "[]"]
  by (auto simp: parseCertificates_def split: sum.splits if_splits)

lemma parseCertificates_terminates_witness:
  "parse_cert_loop sample_crypto 100 ''LA'' [] = Inr [sample_cert ''L'', sample_cert ''A'']"
proof -
  have "parse_cert_loop sample_crypto (Suc (length ''LA'')) ''LA'' [] = Inr [sample_cert ''L'', sample_cert ''A'']"
    by code_simp
  moreover have "length ''LA'' < 100" by simp
  ultimately show ?thesis using parseCertificates_terminates [OF sample_crypto_ok, of "''LA''" 100] by simp
qed

text \<open>C21: the constructors return the digest that readers of the bundle compute. The digest of
  \<open>NewTLSManifest\<close> is the one \<open>Decode\<close> finds in the encoded bundle, so its generation is valid.\<close>

theorem NewTLSManifest_generation:
  assumes "NewTLSManifest L ty certificate privateKey = (m, digest)" "Encode L m = Inr data"
  shows "\<exists>files. Decode L data = Inr (m, files, digest) \<and> m_Type m = ty \<and>
    map_of files NameCertificateChain = Some certificate \<and> map_of files NamePrivateKey = Some privateKey \<and>
    ValidateGeneration (Generation digest) digest = Inr ()"
proof -
  obtain files where d: "Decode L data = Inr (m, files, ManifestDigest L m files)" and v: "valid_bundle L m files"
    using Decode_Encode [OF assms(2)] by blast
  have files: "map_of files = map_of (map part_content
      [(NameCertificateChain, RoleCertificateChain, certificate), (NamePrivateKey, RolePrivateKey, privateKey)])"
    using v assms(1) unfolding NewTLSManifest_parts Let_def
    by (intro decode_files_encoded [of L]) (auto simp: valid_bundle_def)
  show ?thesis
    using d NewTLSManifest_digest [OF assms(1) v] files
    by (auto simp: ValidateGeneration_def part_content_def)
qed

lemma NewTLSManifest_generation_witness:
  "\<exists>files. Decode sample_crypto (encoded (fst sample_manifest)) = Inr (fst sample_manifest, files, snd sample_manifest)"
proof -
  have "NewTLSManifest sample_crypto TypeTLSServer ''LA'' ''K'' = (fst sample_manifest, snd sample_manifest)"
    by (simp add: sample_manifest_def)
  from NewTLSManifest_generation [OF this sample_Encode] show ?thesis by blast
qed

section \<open>Policy\<close>

text \<open>What the target's policy asks of a material at a time, over exact differences of times.\<close>

definition policy_holds :: "crypto \<Rightarrow> int \<Rightarrow> Material \<Rightarrow> Policy \<Rightarrow> bool" where
  "policy_holds L t m policy \<longleftrightarrow>
     mat_Certificates m \<noteq> [] \<and>
     (\<forall>c \<in> set (mat_Certificates m). \<exists>x. c = Some x \<and> c_NotBefore x \<le> t \<and>
        (pol_RejectExpired policy \<longrightarrow> t < c_NotAfter x) \<and>
        (0 < pol_MinimumValidity policy \<longrightarrow> pol_MinimumValidity policy \<le> c_NotAfter x - t)) \<and>
     (m_Type (mat_Manifest m) = TypeTLSServer \<longrightarrow>
        (\<forall>name \<in> set (pol_ServerNames policy). name \<noteq> [] \<and>
           (\<exists>l. mat_Leaf m = Some l \<and> VerifyHostname L l name)))"

lemma check_certificates_ok:
  assumes "pol_MinimumValidity policy \<le> max_duration"
  shows "is_ok (check_certificates t policy index cs) \<longleftrightarrow>
    (\<forall>c \<in> set cs. \<exists>x. c = Some x \<and> c_NotBefore x \<le> t \<and>
      (pol_RejectExpired policy \<longrightarrow> t < c_NotAfter x) \<and>
      (0 < pol_MinimumValidity policy \<longrightarrow> pol_MinimumValidity policy \<le> c_NotAfter x - t))"
proof (induction cs arbitrary: index)
  case (Cons c cs)
  have sub: "time_Sub a b < pol_MinimumValidity policy \<longleftrightarrow> a - b < pol_MinimumValidity policy"
    if "0 < pol_MinimumValidity policy" for a b
    using assms that by (auto simp: time_Sub_def max_duration_def min_duration_def)
  show ?case
  proof (cases "0 < pol_MinimumValidity policy")
    case True
    with Cons.IH show ?thesis by (cases c) (simp_all add: sub not_less)
  next
    case False
    with Cons.IH show ?thesis by (cases c) (auto simp: not_less not_le)
  qed
qed simp

lemma check_server_names_ok:
  "is_ok (check_server_names L leaf index names) \<longleftrightarrow>
     (\<forall>name \<in> set names. name \<noteq> [] \<and> (\<exists>l. leaf = Some l \<and> VerifyHostname L l name))"
  by (induction names arbitrary: index) (auto split: option.splits)

text \<open>C18: the target-local policy is decided exactly. At the policy's time, or the clock's when it
  has none, \<open>ValidatePolicy\<close> accepts just the materials whose certificates are all present, valid
  in time with the required margin (the saturation of Go's time subtraction never matters), and
  whose leaf has every required server name.\<close>

theorem ValidatePolicy_decides:
  assumes "pol_MinimumValidity policy \<le> max_duration"
  shows "is_ok (ValidatePolicy L clock (Some m) policy) \<longleftrightarrow>
    policy_holds L (case pol_Now policy of None \<Rightarrow> clock | Some t \<Rightarrow> t) m policy"
  by (auto simp: ValidatePolicy_def policy_holds_def Let_def and_then_is_ok unit_ok
      check_certificates_ok [OF assms] check_server_names_ok)

lemma ValidatePolicy_decides_witness:
  "\<not> policy_holds sample_crypto 950
     \<lparr>mat_TargetID = ''web'', mat_Generation = [], mat_Revision = 0, mat_Manifest = fst sample_manifest,
      mat_Files = [], mat_Digest = [], mat_Certificates = [Some (sample_cert ''L'')],
      mat_Leaf = Some (sample_cert ''L'')\<rparr>
     \<lparr>pol_Now = None, pol_RejectExpired = True, pol_MinimumValidity = 60, pol_ServerNames = []\<rparr>"
proof -
  let ?p = "\<lparr>pol_Now = None, pol_RejectExpired = True, pol_MinimumValidity = 60, pol_ServerNames = []\<rparr>"
  let ?m = "\<lparr>mat_TargetID = ''web'', mat_Generation = [], mat_Revision = 0, mat_Manifest = fst sample_manifest,
      mat_Files = [], mat_Digest = [], mat_Certificates = [Some (sample_cert ''L'')],
      mat_Leaf = Some (sample_cert ''L'')\<rparr>"
  have bound: "pol_MinimumValidity ?p \<le> max_duration" by (simp add: max_duration_def)
  have "\<not> is_ok (ValidatePolicy sample_crypto 950 (Some ?m) ?p)"
    by (simp add: ValidatePolicy_def sample_cert_def time_Sub_def max_duration_def min_duration_def)
  with ValidatePolicy_decides [OF bound, of sample_crypto 950 ?m] show ?thesis by simp
qed

end
