(* ===== verification/Pack_Properties.thy ===== *)
theory Pack_Properties
  imports Sample_Crypto
begin

text \<open>The properties of packs, with their witnesses.\<close>

definition sample_reader :: reader where
  "sample_reader path =
     (if path = ''/chain'' then Inr ''LA'' else if path = ''/key'' then Inr ''K'' else Inl ''no such file'')"

definition sample_options :: "string \<Rightarrow> Options" where
  "sample_options prefix = \<lparr>opt_Type = TypeTLSServer, opt_TargetID = ''web'', opt_EtcdPrefix = prefix,
     opt_CertificatePath = ''/chain'', opt_PrivateKeyPath = ''/key'', opt_CAPath = []\<rparr>"

definition sample_pack :: "string \<Rightarrow> PackResult option" where
  "sample_pack prefix =
     (case Build sample_crypto (\<lambda>_. False) sample_reader (sample_options prefix) of
        Inl _ \<Rightarrow> None | Inr p \<Rightarrow> Some p)"

lemma sample_builds:
  assumes "NewKeys prefix = Inr keys"
  shows "\<exists>p. Build sample_crypto (\<lambda>_. False) sample_reader (sample_options prefix) = Inr p \<and>
    sample_pack prefix = Some p \<and> md_EtcdPrefix (pr_Metadata p) = Keys_Prefix keys \<and>
    pr_Bundle p = encoded (fst sample_manifest)"
proof -
  have safe: "SafeName ''web''" by code_simp
  have "TrimSpace ''/chain'' \<noteq> []" "TrimSpace ''/key'' \<noteq> []" by code_simp+
  then have bm: "build_manifest sample_crypto sample_reader (sample_options prefix) =
      Inr (fst sample_manifest, snd sample_manifest)"
    by (simp add: build_manifest_def sample_options_def readFile_def sample_reader_def
        sample_manifest_def and_then_def)
  obtain m d where md: "sample_manifest = (m, d)" by (cases sample_manifest)
  have enc: "Encode sample_crypto m = Inr (encoded m)" using sample_Encode by (simp add: md)
  have "SafeName (opt_TargetID (sample_options prefix))" "opt_EtcdPrefix (sample_options prefix) = prefix"
    using safe by (simp_all add: sample_options_def)
  then show ?thesis
    using assms bm by (simp add: Build_def Let_def sample_pack_def md enc)
qed

text \<open>C20: the packer and the validator agree. A pack that \<open>Build\<close> returns passes \<open>Validate\<close>
  exactly when its normalized etcd prefix has no white space at its ends; a prefix such as
  \<open>/a /\<close> normalizes to one that has, and then every reader refuses the built pack.\<close>

theorem Build_passes_Validate:
  assumes "crypto_ok L" "Build L is_print read options = Inr p"
  shows "is_ok (Pack_Validate L p) \<longleftrightarrow> TrimSpace (md_EtcdPrefix (pr_Metadata p)) = md_EtcdPrefix (pr_Metadata p)"
  by (rule Build_validates [OF assms])

lemma Build_passes_Validate_witness:
  "(\<exists>p. sample_pack ''/pemcast'' = Some p \<and> is_ok (Pack_Validate sample_crypto p)) \<and>
   (\<exists>p. sample_pack ''/a /'' = Some p \<and> \<not> is_ok (Pack_Validate sample_crypto p))"
proof -
  have k: "NewKeys ''/pemcast'' = Inr \<lparr>keys_prefix = ''/pemcast''\<rparr>"
    "NewKeys ''/a /'' = Inr \<lparr>keys_prefix = ''/a ''\<rparr>"
    and t: "TrimSpace ''/pemcast'' = ''/pemcast''" "TrimSpace ''/a '' \<noteq> ''/a ''" by code_simp+
  from sample_builds [OF k(1)] sample_builds [OF k(2)] show ?thesis
    using Build_passes_Validate [OF sample_crypto_ok] t by (fastforce simp: Keys_Prefix_def)
qed

text \<open>C19: a valid pack is what it says. \<open>Validate\<close> accepts a pack exactly when its metadata are
  those of its bundle: the schema, a namespace, a safe target, the sum and size of the bundle
  bytes, the digest and generation of the decoded bundle, the keys that namespace, target and
  generation determine, the bundle's type, and the role and sum of each of its files.\<close>

theorem Pack_Validate_decides:
  assumes "crypto_ok L"
  shows "is_ok (Pack_Validate L p) \<longleftrightarrow> (\<exists>keys m files. valid_pack L p keys m files)"
  by (rule Pack_Validate_ok [OF assms])

lemma Pack_Validate_decides_witness:
  "\<exists>p keys m files. sample_pack ''/pemcast'' = Some p \<and> valid_pack sample_crypto p keys m files"
proof -
  have k: "NewKeys ''/pemcast'' = Inr \<lparr>keys_prefix = ''/pemcast''\<rparr>"
    and t: "TrimSpace ''/pemcast'' = ''/pemcast''" by code_simp+
  obtain p where p: "Build sample_crypto (\<lambda>_. False) sample_reader (sample_options ''/pemcast'') = Inr p"
    "sample_pack ''/pemcast'' = Some p" "md_EtcdPrefix (pr_Metadata p) = ''/pemcast''"
    using sample_builds [OF k] by (auto simp: Keys_Prefix_def)
  then have "is_ok (Pack_Validate sample_crypto p)"
    using Build_validates [OF sample_crypto_ok p(1)] t by simp
  with p(2) Pack_Validate_decides [OF sample_crypto_ok, of p] show ?thesis by blast
qed

text \<open>C26: no injection into the stage transaction. Whatever the bundle key and value hold, the
  text that \<open>etcdctl txn\<close> reads has exactly one comparison and one put, on lines of their own.\<close>

theorem stageTransaction_lines:
  "Split newline (stageTransaction is_print key val) =
     [''create('' @ Quote is_print key @ '') = '' @ Quote is_print ''0'', [],
      ''put '' @ Quote is_print key @ '' '' @ Quote is_print val, [], [], []]"
proof -
  have "newline \<notin> set (''create('' @ Quote is_print key @ '') = '' @ Quote is_print ''0'')"
    "newline \<notin> set (''put '' @ Quote is_print key @ '' '' @ Quote is_print val)"
    using newline_Quote by (auto simp: newline_def)
  then show ?thesis unfolding stageTransaction_def Let_def by (intro Split_Join) auto
qed

end
