(* ===== verification/Etcd_Api.thy ===== *)
theory Etcd_Api
  imports Pem_Prelude Go_Strings
begin

text \<open>
  The etcd service as the code sees it. The client library is not part of this repository, so it is
  a parameter \<open>cl\<close> of type \<open>clientv3\<close>: three calls over an opaque state. \<open>etcd_ok\<close> states what
  etcd documents of them: linearizable reads, one revision per write, compare-and-put transactions,
  and that a write whose answer is lost may or may not have happened. Other clients act
  between any two calls; the relation \<open>R\<close> bounds what they may do.

  The state is seen through a \<open>view\<close>: the current version of the key space and all earlier ones.
\<close>

section \<open>Versions of the key space\<close>

record KeyValue =
  kv_Key :: string
  kv_Value :: string
  kv_CreateRevision :: int
  kv_ModRevision :: int

record version =
  v_Revision :: int
  v_Kvs :: "KeyValue list"

type_synonym view = "version list"

definition lookup :: "version \<Rightarrow> string \<Rightarrow> KeyValue option" where
  "lookup v key = find (\<lambda>e. kv_Key e = key) (v_Kvs v)"

definition value_of :: "version \<Rightarrow> string \<Rightarrow> string option" where
  "value_of v key = map_option kv_Value (lookup v key)"

text \<open>Insertion into the key-ordered list of pairs.\<close>

fun store_kv :: "KeyValue \<Rightarrow> KeyValue list \<Rightarrow> KeyValue list" where
  "store_kv e [] = [e]"
| "store_kv e (f # fs) =
     (if kv_Key e = kv_Key f then e # fs
      else if kv_Key e < kv_Key f then e # f # fs
      else f # store_kv e fs)"

definition put :: "string \<Rightarrow> string \<Rightarrow> version \<Rightarrow> version" where
  "put key val v =
     (let next = v_Revision v + 1;
          created = (case lookup v key of None \<Rightarrow> next | Some e \<Rightarrow> kv_CreateRevision e)
      in \<lparr>v_Revision = next,
          v_Kvs = store_kv \<lparr>kv_Key = key, kv_Value = val, kv_CreateRevision = created,
            kv_ModRevision = next\<rparr> (v_Kvs v)\<rparr>)"

text \<open>Deleting keys that do not exist leaves the revision as it is.\<close>

definition delete_where :: "(string \<Rightarrow> bool) \<Rightarrow> version \<Rightarrow> version" where
  "delete_where p v =
     (if list_ex (\<lambda>e. p (kv_Key e)) (v_Kvs v)
      then \<lparr>v_Revision = v_Revision v + 1, v_Kvs = filter (\<lambda>e. \<not> p (kv_Key e)) (v_Kvs v)\<rparr>
      else v)"

datatype Cmp =
    CmpValue string string
  | CmpCreateRevision string int
  | CmpModRevision string int

datatype Op = OpPut string string | OpDelete string

text \<open>A comparison with the value of an absent key fails; its revisions are zero.\<close>

definition cmp_holds :: "version \<Rightarrow> Cmp \<Rightarrow> bool" where
  "cmp_holds v c =
     (case c of
        CmpValue key val \<Rightarrow> value_of v key = Some val
      | CmpCreateRevision key r \<Rightarrow>
          (case lookup v key of None \<Rightarrow> r = 0 | Some e \<Rightarrow> kv_CreateRevision e = r)
      | CmpModRevision key r \<Rightarrow>
          (case lookup v key of None \<Rightarrow> r = 0 | Some e \<Rightarrow> kv_ModRevision e = r))"

definition apply_op :: "Op \<Rightarrow> version \<Rightarrow> version" where
  "apply_op op v =
     (case op of OpPut key val \<Rightarrow> put key val v | OpDelete key \<Rightarrow> delete_where (\<lambda>k. k = key) v)"

text \<open>A write adds a version to the view when the revision moved.\<close>

definition now :: "view \<Rightarrow> version" where
  "now vs = hd vs"

definition advance :: "(version \<Rightarrow> version) \<Rightarrow> view \<Rightarrow> view" where
  "advance f vs = (if f (now vs) = now vs then vs else f (now vs) # vs)"

definition txn :: "Cmp list \<Rightarrow> Op \<Rightarrow> view \<Rightarrow> view" where
  "txn cmps op vs =
     (if list_all (cmp_holds (now vs)) cmps then advance (apply_op op) vs else vs)"

section \<open>Requests\<close>

record GetOptions =
  opt_Prefix :: bool
  opt_KeysOnly :: bool
  opt_Rev :: "int option"

record GetResponse =
  resp_Revision :: int
  resp_Kvs :: "KeyValue list"

definition selected :: "string \<Rightarrow> GetOptions \<Rightarrow> version \<Rightarrow> KeyValue list" where
  "selected key opts v =
     map (\<lambda>e. if opt_KeysOnly opts then e\<lparr>kv_Value := []\<rparr> else e)
       (filter (\<lambda>e. if opt_Prefix opts then HasPrefix (kv_Key e) key else kv_Key e = key) (v_Kvs v))"

text \<open>The version a read sees; reading at a revision the history lacks is an error.\<close>

definition version_at :: "int option \<Rightarrow> view \<Rightarrow> version option" where
  "version_at r vs =
     (case r of None \<Rightarrow> Some (now vs) | Some n \<Rightarrow> find (\<lambda>v. v_Revision v = n) vs)"

type_synonym etcd_failure = string

record 's clientv3 =
  cv_Get :: "string \<Rightarrow> GetOptions \<Rightarrow> ('s, etcd_failure, GetResponse) io"
  cv_Txn :: "Cmp list \<Rightarrow> Op \<Rightarrow> ('s, etcd_failure, bool) io"
  cv_Delete :: "string \<Rightarrow> ('s, etcd_failure, int) io"

section \<open>What the service promises\<close>

text \<open>One write of any client.\<close>

inductive write_step :: "view \<Rightarrow> view \<Rightarrow> bool" where
  put_step: "write_step vs (advance (put key val) vs)"
| delete_step: "write_step vs (advance (delete_where p) vs)"

abbreviation writes :: "view \<Rightarrow> view \<Rightarrow> bool" where
  "writes \<equiv> write_step\<^sup>*\<^sup>*"

text \<open>What the other clients may do: any number of writes, none included, in any order.\<close>

definition others_ok :: "(view \<Rightarrow> view \<Rightarrow> bool) \<Rightarrow> bool" where
  "others_ok R \<longleftrightarrow>
     (\<forall>v. R v v) \<and> (\<forall>u v w. R u v \<longrightarrow> R v w \<longrightarrow> R u w) \<and> (\<forall>u v. R u v \<longrightarrow> writes u v)"

definition get_promise :: "(view \<Rightarrow> view \<Rightarrow> bool) \<Rightarrow> 's clientv3 \<Rightarrow> ('s \<Rightarrow> view) \<Rightarrow> bool" where
  "get_promise R cl view \<longleftrightarrow>
     (\<forall>key opts s r s'. cv_Get cl key opts s = (r, s') \<longrightarrow>
        R (view s) (view s') \<and>
        (\<forall>resp. r = Inr resp \<longrightarrow>
           resp_Revision resp = v_Revision (now (view s')) \<and>
           (\<exists>v. version_at (opt_Rev opts) (view s') = Some v \<and> resp_Kvs resp = selected key opts v)))"

definition txn_promise :: "(view \<Rightarrow> view \<Rightarrow> bool) \<Rightarrow> 's clientv3 \<Rightarrow> ('s \<Rightarrow> view) \<Rightarrow> bool" where
  "txn_promise R cl view \<longleftrightarrow>
     (\<forall>cmps op s r s'. cv_Txn cl cmps op s = (r, s') \<longrightarrow>
        (\<exists>vs. R (view s) vs \<and>
           (case r of
              Inl _ \<Rightarrow> view s' = vs \<or> view s' = txn cmps op vs
            | Inr succeeded \<Rightarrow>
                succeeded = list_all (cmp_holds (now vs)) cmps \<and> view s' = txn cmps op vs)))"

definition delete_promise :: "(view \<Rightarrow> view \<Rightarrow> bool) \<Rightarrow> 's clientv3 \<Rightarrow> ('s \<Rightarrow> view) \<Rightarrow> bool" where
  "delete_promise R cl view \<longleftrightarrow>
     (\<forall>prefix s r s'. cv_Delete cl prefix s = (r, s') \<longrightarrow>
        (\<exists>vs. R (view s) vs \<and>
           (let deleted = advance (delete_where (\<lambda>k. HasPrefix k prefix)) vs in
            case r of
              Inl _ \<Rightarrow> view s' = vs \<or> view s' = deleted
            | Inr n \<Rightarrow>
                n = int (length (filter (\<lambda>e. HasPrefix (kv_Key e) prefix) (v_Kvs (now vs)))) \<and>
                view s' = deleted)))"

definition etcd_ok :: "(view \<Rightarrow> view \<Rightarrow> bool) \<Rightarrow> 's clientv3 \<Rightarrow> ('s \<Rightarrow> view) \<Rightarrow> bool" where
  "etcd_ok R cl view \<longleftrightarrow>
     others_ok R \<and> get_promise R cl view \<and> txn_promise R cl view \<and> delete_promise R cl view"

section \<open>Facts about versions\<close>

lemma find_store_kv:
  assumes "distinct (map kv_Key fs)"
  shows "find (\<lambda>f. kv_Key f = k) (store_kv e fs) =
    (if k = kv_Key e then Some e else find (\<lambda>f. kv_Key f = k) fs)"
  using assms by (induction fs) auto

lemma set_store_kv:
  "set (map kv_Key (store_kv e fs)) = insert (kv_Key e) (set (map kv_Key fs))"
  by (induction fs) auto

lemma store_kv_elements: "set (store_kv e fs) \<subseteq> insert e (set fs)"
  by (induction fs) auto

lemma sorted_store_kv:
  "sorted_wrt (<) (map kv_Key fs) \<Longrightarrow> sorted_wrt (<) (map kv_Key (store_kv e fs))"
proof (induction fs)
  case (Cons f fs)
  have keys: "kv_Key g = kv_Key e \<or> kv_Key g \<in> kv_Key ` set fs" if "g \<in> set (store_kv e fs)" for g
    using that store_kv_elements [of e fs] by auto
  from Cons show ?case by (auto dest!: keys)
qed simp

text \<open>
  The invariant of a version: keys in order without duplicates, and revisions of entries that are
  positive and not in the future.
\<close>

definition wf_version :: "version \<Rightarrow> bool" where
  "wf_version v \<longleftrightarrow>
     sorted_wrt (<) (map kv_Key (v_Kvs v)) \<and> 0 \<le> v_Revision v \<and>
     (\<forall>e \<in> set (v_Kvs v). 0 < kv_CreateRevision e \<and> kv_CreateRevision e \<le> kv_ModRevision e \<and>
        kv_ModRevision e \<le> v_Revision v)"

lemma wf_version_distinct: "wf_version v \<Longrightarrow> distinct (map kv_Key (v_Kvs v))"
  by (auto simp: wf_version_def strict_sorted_iff)

lemma lookup_Some: "lookup v key = Some e \<Longrightarrow> e \<in> set (v_Kvs v) \<and> kv_Key e = key"
  by (auto simp: lookup_def find_Some_iff)

lemma lookup_None: "lookup v key = None \<longleftrightarrow> key \<notin> kv_Key ` set (v_Kvs v)"
  by (auto simp: lookup_def find_None_iff)

lemma lookup_iff:
  assumes "wf_version v"
  shows "lookup v key = Some e \<longleftrightarrow> e \<in> set (v_Kvs v) \<and> kv_Key e = key"
proof
  assume e: "e \<in> set (v_Kvs v) \<and> kv_Key e = key"
  then obtain f where f: "lookup v key = Some f" by (cases "lookup v key") (auto simp: lookup_None)
  have "f = e"
    using lookup_Some [OF f] e wf_version_distinct [OF assms]
    by (metis distinct_map inj_onD)
  with f show "lookup v key = Some e" by simp
qed (rule lookup_Some)

lemma lookup_put:
  assumes "wf_version v"
  shows "lookup (put key val v) k =
    (if k = key
     then Some \<lparr>kv_Key = key, kv_Value = val,
        kv_CreateRevision = (case lookup v key of None \<Rightarrow> v_Revision v + 1 | Some e \<Rightarrow> kv_CreateRevision e),
        kv_ModRevision = v_Revision v + 1\<rparr>
     else lookup v k)"
  by (simp add: put_def Let_def lookup_def find_store_kv wf_version_distinct [OF assms])

lemma lookup_delete_where:
  "lookup (delete_where p v) k = (if p k then None else lookup v k)"
proof -
  have filter: "find (\<lambda>e. kv_Key e = k) (filter (\<lambda>e. \<not> p (kv_Key e)) es) =
      (if p k then None else find (\<lambda>e. kv_Key e = k) es)" for es
    by (induction es) auto
  show ?thesis
  proof (cases "list_ex (\<lambda>e. p (kv_Key e)) (v_Kvs v)")
    case True
    then show ?thesis by (simp add: delete_where_def lookup_def filter)
  next
    case False
    then have "p k \<Longrightarrow> lookup v k = None" by (auto simp: lookup_None list_ex_iff)
    then show ?thesis using False by (auto simp: delete_where_def)
  qed
qed

lemma value_of_put:
  "wf_version v \<Longrightarrow> value_of (put key val v) k = (if k = key then Some val else value_of v k)"
  by (simp add: value_of_def lookup_put)

lemma value_of_delete_where: "value_of (delete_where p v) k = (if p k then None else value_of v k)"
  by (simp add: value_of_def lookup_delete_where)

lemma wf_put: "wf_version v \<Longrightarrow> wf_version (put key val v)"
proof -
  assume wf: "wf_version v"
  let ?next = "v_Revision v + 1"
  let ?created = "case lookup v key of None \<Rightarrow> ?next | Some e \<Rightarrow> kv_CreateRevision e"
  let ?e = "\<lparr>kv_Key = key, kv_Value = val, kv_CreateRevision = ?created, kv_ModRevision = ?next\<rparr>"
  have created: "0 < ?created \<and> ?created \<le> ?next"
    using wf by (auto simp: wf_version_def dest!: lookup_Some split: option.split)
  have old: "\<forall>e \<in> set (v_Kvs v). 0 < kv_CreateRevision e \<and> kv_CreateRevision e \<le> kv_ModRevision e \<and>
      kv_ModRevision e \<le> v_Revision v"
    and rev: "0 \<le> v_Revision v" and sorted: "sorted_wrt (<) (map kv_Key (v_Kvs v))"
    using wf by (auto simp: wf_version_def)
  have "0 < kv_CreateRevision e \<and> kv_CreateRevision e \<le> kv_ModRevision e \<and> kv_ModRevision e \<le> ?next"
    if "e \<in> insert ?e (set (v_Kvs v))" for e
    using that created old by fastforce
  then show ?thesis
    using sorted_store_kv [OF sorted] store_kv_elements [of ?e "v_Kvs v"] rev
    unfolding put_def Let_def wf_version_def by auto
qed

lemma wf_delete_where: "wf_version v \<Longrightarrow> wf_version (delete_where p v)"
  by (fastforce simp: delete_where_def wf_version_def sorted_wrt_map sorted_wrt_filter)

lemma wf_apply_op: "wf_version v \<Longrightarrow> wf_version (apply_op op v)"
  by (simp add: apply_op_def wf_put wf_delete_where split: Op.split)

section \<open>Facts about views\<close>

text \<open>A view is well formed when its versions are, with strictly falling revisions.\<close>

definition wf_view :: "view \<Rightarrow> bool" where
  "wf_view vs \<longleftrightarrow>
     vs \<noteq> [] \<and> (\<forall>v \<in> set vs. wf_version v) \<and> sorted_wrt (\<lambda>v u. v_Revision u < v_Revision v) vs"

lemma wf_view_now: "wf_view vs \<Longrightarrow> wf_version (now vs)"
  by (auto simp: wf_view_def now_def)

lemma wf_view_latest: "wf_view vs \<Longrightarrow> v \<in> set vs \<Longrightarrow> v_Revision v \<le> v_Revision (now vs)"
  by (cases vs) (auto simp: wf_view_def now_def)

lemma wf_advance:
  assumes "wf_view vs" "wf_version (f (now vs))"
    and "f (now vs) = now vs \<or> v_Revision (now vs) < v_Revision (f (now vs))"
  shows "wf_view (advance f vs)"
  using assms wf_view_latest [OF assms(1)] by (fastforce simp: advance_def wf_view_def)

lemma now_advance [simp]: "now (advance f vs) = f (now vs)"
  by (auto simp: advance_def now_def)

lemma put_revision: "v_Revision (put key val v) = v_Revision v + 1"
  by (simp add: put_def Let_def)

lemma delete_where_revision:
  "delete_where p v = v \<or> v_Revision (delete_where p v) = v_Revision v + 1"
  by (simp add: delete_where_def)

lemma apply_op_revision: "apply_op op v = v \<or> v_Revision (apply_op op v) = v_Revision v + 1"
  using delete_where_revision by (auto simp: apply_op_def put_revision split: Op.split)

lemma write_step_wf: "write_step vs vs' \<Longrightarrow> wf_view vs \<Longrightarrow> wf_view vs'"
proof (induction rule: write_step.induct)
  case (put_step vs key val)
  then show ?case by (intro wf_advance) (auto simp: wf_put wf_view_now put_revision)
next
  case (delete_step vs p)
  then show ?case
    using delete_where_revision [of p "now vs"]
    by (intro wf_advance) (auto simp: wf_delete_where wf_view_now)
qed

lemma writes_wf: "writes vs vs' \<Longrightarrow> wf_view vs \<Longrightarrow> wf_view vs'"
  by (induction rule: rtranclp_induct) (auto intro: write_step_wf)

lemma apply_op_write: "write_step vs (advance (apply_op op) vs)"
  unfolding apply_op_def by (cases op) (auto intro: write_step.intros)

lemma txn_writes: "writes vs (txn cmps op vs)"
  by (auto simp: txn_def intro: apply_op_write)

text \<open>History only grows.\<close>

lemma write_step_suffix: "write_step vs vs' \<Longrightarrow> \<exists>new. vs' = new @ vs"
  by (induction rule: write_step.induct) (auto simp: advance_def)

lemma writes_suffix: "writes vs vs' \<Longrightarrow> \<exists>new. vs' = new @ vs"
  by (induction rule: rtranclp_induct) (fastforce dest: write_step_suffix)+

lemma writes_revision:
  assumes "writes vs vs'" "wf_view vs"
  shows "v_Revision (now vs) \<le> v_Revision (now vs')"
proof -
  obtain new where new: "vs' = new @ vs" using writes_suffix [OF assms(1)] by blast
  have "now vs \<in> set vs'" using assms(2) new by (auto simp: wf_view_def now_def)
  then show ?thesis using wf_view_latest [OF writes_wf [OF assms]] by blast
qed

text \<open>
  No ABA: an entry that is found again with the modification revision it had is the same entry.
\<close>

lemma write_step_entry:
  assumes "write_step vs vs'" "wf_view vs" "lookup (now vs') key = Some e"
  shows "lookup (now vs) key = Some e \<or> v_Revision (now vs) < kv_ModRevision e"
  using assms
proof (induction rule: write_step.induct)
  case (put_step vs k val)
  then show ?case
    by (auto simp: lookup_put [OF wf_view_now] split: if_splits)
next
  case (delete_step vs p)
  then show ?case by (auto simp: lookup_delete_where split: if_splits)
qed

lemma writes_entry:
  assumes "writes vs vs'" "wf_view vs" "lookup (now vs') key = Some e"
  shows "lookup (now vs) key = Some e \<or> v_Revision (now vs) < kv_ModRevision e"
  using assms
proof (induction rule: rtranclp_induct)
  case (step us ws)
  have wf: "wf_view us" using writes_wf step.hyps(1) step.prems(1) by blast
  have le: "v_Revision (now vs) \<le> v_Revision (now us)"
    using writes_revision step.hyps(1) step.prems(1) by blast
  from write_step_entry [OF step.hyps(2) wf step.prems(2)] show ?case
    using step.IH [OF step.prems(1)] le by auto
qed simp

lemma no_aba:
  assumes "writes vs vs'" "wf_view vs" "lookup (now vs) key = Some e" "lookup (now vs') key = Some e'"
    and "kv_ModRevision e' = kv_ModRevision e"
  shows "e' = e"
proof -
  have "kv_ModRevision e \<le> v_Revision (now vs)"
    using lookup_Some [OF assms(3)] wf_view_now [OF assms(2)] by (auto simp: wf_version_def)
  then show ?thesis using writes_entry [OF assms(1,2,4)] assms(3,5) by auto
qed

text \<open>Reading at the revision of an earlier read finds the version of that read.\<close>

lemma version_at_writes:
  assumes "writes vs vs'" "wf_view vs"
  shows "version_at (Some (v_Revision (now vs))) vs' = Some (now vs)"
proof -
  obtain new where new: "vs' = new @ vs" using writes_suffix [OF assms(1)] by blast
  have wf: "wf_view vs'" by (rule writes_wf [OF assms])
  then have above: "\<forall>v \<in> set new. v_Revision (now vs) < v_Revision v"
    using assms(2) by (auto simp: new wf_view_def now_def sorted_wrt_append)
  have "find (\<lambda>v. v_Revision v = v_Revision (now vs)) (us @ vs) = Some (now vs)"
    if "\<forall>v \<in> set us. v_Revision (now vs) < v_Revision v" for us
    using that assms(2) by (induction us) (cases vs; auto simp: wf_view_def now_def)+
  then show ?thesis using above by (simp add: version_at_def new)
qed

section \<open>Using the promises\<close>

lemma others_refl: "others_ok R \<Longrightarrow> R v v"
  and others_trans: "others_ok R \<Longrightarrow> R u v \<Longrightarrow> R v w \<Longrightarrow> R u w"
  and others_writes: "others_ok R \<Longrightarrow> R u v \<Longrightarrow> writes u v"
  unfolding others_ok_def by blast+

lemma etcd_okD:
  assumes "etcd_ok R cl view"
  shows "others_ok R" "get_promise R cl view" "txn_promise R cl view" "delete_promise R cl view"
  using assms by (simp_all add: etcd_ok_def)

lemma cv_Get_ok:
  assumes "etcd_ok R cl view" "cv_Get cl key opts s = (r, s')"
  shows "R (view s) (view s')"
    and "r = Inr resp \<Longrightarrow> resp_Revision resp = v_Revision (now (view s')) \<and>
      (\<exists>v. version_at (opt_Rev opts) (view s') = Some v \<and> resp_Kvs resp = selected key opts v)"
  using etcd_okD(2) [OF assms(1)] assms(2) unfolding get_promise_def by blast+

lemma cv_Txn_ok:
  assumes "etcd_ok R cl view" "cv_Txn cl cmps op s = (r, s')"
  obtains vs where "R (view s) vs" "view s' = vs \<or> view s' = txn cmps op vs"
    "\<And>b. r = Inr b \<Longrightarrow> b = list_all (cmp_holds (now vs)) cmps \<and> view s' = txn cmps op vs"
proof -
  obtain vs where "R (view s) vs" "case r of Inl _ \<Rightarrow> view s' = vs \<or> view s' = txn cmps op vs
      | Inr succeeded \<Rightarrow> succeeded = list_all (cmp_holds (now vs)) cmps \<and> view s' = txn cmps op vs"
    using etcd_okD(3) [OF assms(1)] assms(2) unfolding txn_promise_def by blast
  then show thesis using that by (cases r) auto
qed

lemma cv_Delete_ok:
  assumes "etcd_ok R cl view" "cv_Delete cl prefix s = (r, s')"
  obtains vs where "R (view s) vs"
    "view s' = vs \<or> view s' = advance (delete_where (\<lambda>k. HasPrefix k prefix)) vs"
    "\<And>n. r = Inr n \<Longrightarrow> view s' = advance (delete_where (\<lambda>k. HasPrefix k prefix)) vs"
proof -
  let ?d = "\<lambda>vs. advance (delete_where (\<lambda>k. HasPrefix k prefix)) vs"
  obtain vs where "R (view s) vs" "let deleted = ?d vs in case r of Inl _ \<Rightarrow> view s' = vs \<or> view s' = deleted
      | Inr n \<Rightarrow> n = int (length (filter (\<lambda>e. HasPrefix (kv_Key e) prefix) (v_Kvs (now vs)))) \<and> view s' = deleted"
    using etcd_okD(4) [OF assms(1)] assms(2) unfolding delete_promise_def by blast
  then show thesis using that by (cases r) (auto simp: Let_def)
qed

text \<open>Whatever a call returns, the view moved by writes.\<close>

lemma cv_writes:
  assumes "etcd_ok R cl view"
  shows "cv_Get cl key opts s = (r, s') \<Longrightarrow> writes (view s) (view s')"
    and "cv_Txn cl cmps op s = (b, s') \<Longrightarrow> writes (view s) (view s')"
    and "cv_Delete cl prefix s = (n, s') \<Longrightarrow> writes (view s) (view s')"
proof -
  have R: "R u v \<Longrightarrow> writes u v" for u v using others_writes etcd_okD(1) [OF assms] by blast
  show "cv_Get cl key opts s = (r, s') \<Longrightarrow> writes (view s) (view s')"
    using cv_Get_ok(1) [OF assms] R by blast
  show "cv_Txn cl cmps op s = (b, s') \<Longrightarrow> writes (view s) (view s')"
    using cv_Txn_ok [OF assms] R txn_writes by (metis rtranclp_trans)
  show "cv_Delete cl prefix s = (n, s') \<Longrightarrow> writes (view s) (view s')"
    using cv_Delete_ok [OF assms] R delete_step by (metis rtranclp.rtrancl_into_rtrancl)
qed

end
