(* ===== verification/Kv_Store.thy ===== *)
theory Kv_Store
  imports Etcd_Api Bundle
begin

text \<open>
  The surface of etcd that the commands use: the value types of \<open>internal/etcdsource\<close> and, as one
  record of operations, the interfaces \<open>publisher.KV\<close>, \<open>prune.KV\<close> and \<open>upgrade.KV\<close> (each a subset
  of it). The locales state what the commands rely on; \<open>Etcd_Client\<close> interprets them for the
  client of \<open>internal/etcdsource\<close>.
\<close>

section \<open>Values\<close>

record Value =
  val_Data :: string
  val_ModRevision :: int
  val_Exists :: bool

record ActiveCondition =
  ac_Generation :: string
  ac_ModRevision :: int
  ac_Exists :: bool

record ActivePointer =
  ap_Generation :: string
  ap_ModRevision :: int

record Snapshot =
  snap_Revision :: int
  snap_Active :: "(string \<times> string) list"

record PrefixSnapshot =
  ps_Revision :: int
  ps_Active :: "(string \<times> ActivePointer) list"

text \<open>An absent pointer reads as the zero \<open>ActivePointer\<close>.\<close>

definition pointer_get :: "(string \<times> ActivePointer) list \<Rightarrow> string \<Rightarrow> ActivePointer" where
  "pointer_get m k = (case map_of m k of None \<Rightarrow> \<lparr>ap_Generation = [], ap_ModRevision = 0\<rparr> | Some p \<Rightarrow> p)"

record BundleRecord =
  br_Key :: string
  br_TargetID :: string
  br_Generation :: string
  br_Data :: bytes
  br_ModRevision :: int

datatype source_error =
    ReadKey string etcd_failure
  | StageBundle etcd_failure
  | CompareAndSwapActive etcd_failure
  | SourceMustExist
  | CompareAndSwapUpgrade etcd_failure
  | DeletePrefixFailed string etcd_failure
  | ReadActivePointers etcd_failure
  | ReadActivePrefix string etcd_failure
  | InvalidActivePointer string string
  | UnsafeTargetOrGeneration
  | ReadBundle string etcd_failure
  | BundleMissing string
  | DecodeBundle bundle_error
  | InvalidGeneration bundle_error
  | InvalidSemantics bundle_error
  | ListBundles string etcd_failure
  | InvalidBundleKey string string
  | ReadListed string source_error
  | PruneNeedsActive
  | DeleteBundle string etcd_failure
  | UnsafeWatchTarget string
  | UnsafeWatchGeneration string string

record 's kv =
  kv_Prefix :: string
  kv_ActiveKey :: "string \<Rightarrow> string"
  kv_BundleKey :: "string \<Rightarrow> string \<Rightarrow> string"
  kv_Get :: "string \<Rightarrow> ('s, source_error, Value) io"
  kv_GetAt :: "string \<Rightarrow> int \<Rightarrow> ('s, source_error, Value) io"
  kv_SnapshotActivePrefix :: "string \<Rightarrow> ('s, source_error, PrefixSnapshot) io"
  kv_ListBundleRecords :: "string \<Rightarrow> ('s, source_error, BundleRecord list) io"
  kv_StageBundleIfAbsent :: "string \<Rightarrow> string \<Rightarrow> ('s, source_error, bool) io"
  kv_SwapActive :: "string \<Rightarrow> string \<Rightarrow> ActiveCondition \<Rightarrow> ('s, source_error, bool) io"
  kv_SwapActiveFromSource ::
    "string \<Rightarrow> ActiveCondition \<Rightarrow> string \<Rightarrow> string \<Rightarrow> ActiveCondition \<Rightarrow> ('s, source_error, bool) io"
  kv_DeletePrefix :: "string \<Rightarrow> ('s, source_error, int) io"
  kv_DeleteBundleIfActiveUnchanged ::
    "string \<Rightarrow> string \<Rightarrow> ActiveCondition \<Rightarrow> ('s, source_error, bool) io"

section \<open>What a version says\<close>

definition Value_of :: "KeyValue option \<Rightarrow> Value" where
  "Value_of entry =
     (case entry of
        None \<Rightarrow> \<lparr>val_Data = [], val_ModRevision = 0, val_Exists = False\<rparr>
      | Some e \<Rightarrow> \<lparr>val_Data = kv_Value e, val_ModRevision = kv_ModRevision e, val_Exists = True\<rparr>)"

definition condition_holds :: "version \<Rightarrow> string \<Rightarrow> ActiveCondition \<Rightarrow> bool" where
  "condition_holds v key expected \<longleftrightarrow>
     (if ac_Exists expected
      then \<exists>e. lookup v key = Some e \<and> kv_Value e = ac_Generation expected \<and>
        kv_ModRevision e = ac_ModRevision expected
      else lookup v key = None)"

definition pointer_of :: "KeyValue \<Rightarrow> ActivePointer" where
  "pointer_of e = \<lparr>ap_Generation = TrimSpace (kv_Value e), ap_ModRevision = kv_ModRevision e\<rparr>"

text \<open>A snapshot holds every pointer below its prefix, each with safe names.\<close>

definition snapshot_of :: "version \<Rightarrow> string \<Rightarrow> PrefixSnapshot \<Rightarrow> bool" where
  "snapshot_of v prefix snap \<longleftrightarrow>
     ps_Revision snap = v_Revision v \<and> distinct (map fst (ps_Active snap)) \<and>
     (\<forall>t. map_of (ps_Active snap) t = map_option pointer_of (lookup v (prefix @ t))) \<and>
     (\<forall>(t, p) \<in> set (ps_Active snap). SafeName t \<and> SafeName (ap_Generation p))"

text \<open>A conditional write: the condition was decided on one version, and the write followed it.\<close>

definition conditional ::
  "(view \<Rightarrow> view \<Rightarrow> bool) \<Rightarrow> (version \<Rightarrow> bool) \<Rightarrow> (version \<Rightarrow> version) \<Rightarrow> view \<Rightarrow> ('e, bool) result \<Rightarrow> view \<Rightarrow> bool" where
  "conditional R cond write u r u' \<longleftrightarrow>
     (\<exists>vs. R u vs \<and>
        (case r of
           Inl _ \<Rightarrow> u' = vs \<or> cond (now vs) \<and> u' = advance write vs
         | Inr succeeded \<Rightarrow> succeeded = cond (now vs) \<and> u' = (if succeeded then advance write vs else vs)))"

lemma conditional_cases:
  "conditional R cond write u r u' \<Longrightarrow> \<exists>vs. R u vs \<and> (u' = vs \<or> cond (now vs) \<and> u' = advance write vs)"
  unfolding conditional_def by (cases r) (auto split: if_splits)

lemma conditional_done:
  "conditional R cond write u (Inr True) u' \<Longrightarrow> \<exists>vs. R u vs \<and> cond (now vs) \<and> u' = advance write vs"
  unfolding conditional_def by auto

section \<open>The interfaces\<close>

text \<open>
  A provider \<open>c\<close> is any value from which \<open>store\<close> builds the operations; \<open>promises R c view\<close> is its
  hypothesis on the service behind it.
\<close>

locale kv_store =
  fixes store :: "'c \<Rightarrow> 's kv"
    and promises :: "(view \<Rightarrow> view \<Rightarrow> bool) \<Rightarrow> 'c \<Rightarrow> ('s \<Rightarrow> view) \<Rightarrow> bool"
  assumes others: "promises R c view \<Longrightarrow> others_ok R"
    and get: "promises R c view \<Longrightarrow> wf_view (view s) \<Longrightarrow> kv_Get (store c) key s = (r, s') \<Longrightarrow>
      R (view s) (view s') \<and> (\<forall>val. r = Inr val \<longrightarrow> val = Value_of (lookup (now (view s')) key))"
begin

lemma others_wf: "promises R c view \<Longrightarrow> R u v \<Longrightarrow> wf_view u \<Longrightarrow> wf_view v"
  using others others_writes writes_wf by blast

lemma get_wf:
  "promises R c view \<Longrightarrow> wf_view (view s) \<Longrightarrow> kv_Get (store c) key s = (r, s') \<Longrightarrow> wf_view (view s')"
  using get others_wf by blast

lemma conditional_wf:
  assumes "promises R c view" "wf_view u" "conditional R cond (put key val) u r u'"
  shows "wf_view u'"
proof -
  obtain vs where "R u vs" "u' = vs \<or> cond (now vs) \<and> u' = advance (put key val) vs"
    using conditional_cases [OF assms(3)] by blast
  then show ?thesis
    using others_wf [OF assms(1) _ assms(2)] write_step_wf [OF put_step] by blast
qed

lemma conditional_delete_wf:
  assumes "promises R c view" "wf_view u" "conditional R cond (delete_where p) u r u'"
  shows "wf_view u'"
proof -
  obtain vs where "R u vs" "u' = vs \<or> cond (now vs) \<and> u' = advance (delete_where p) vs"
    using conditional_cases [OF assms(3)] by blast
  then show ?thesis
    using others_wf [OF assms(1) _ assms(2)] write_step_wf [OF delete_step] by blast
qed

end

text \<open>Staging: a bundle is created only when its key is absent.\<close>

locale staging_store = kv_store +
  assumes stage: "promises R c view \<Longrightarrow> wf_view (view s) \<Longrightarrow>
      kv_StageBundleIfAbsent (store c) key val s = (r, s') \<Longrightarrow>
      conditional R (\<lambda>v. lookup v key = None) (put key val) (view s) r (view s')"

text \<open>The publisher's store also moves a pointer by compare-and-swap.\<close>

locale publisher_store = staging_store +
  assumes swap: "promises R c view \<Longrightarrow> wf_view (view s) \<Longrightarrow>
      kv_SwapActive (store c) key generation expected s = (r, s') \<Longrightarrow>
      conditional R (\<lambda>v. condition_holds v key expected) (put key generation) (view s) r (view s')"

locale snapshot_store = kv_store +
  assumes snapshot: "promises R c view \<Longrightarrow> wf_view (view s) \<Longrightarrow>
      kv_SnapshotActivePrefix (store c) prefix s = (r, s') \<Longrightarrow>
      R (view s) (view s') \<and> (\<forall>snap. r = Inr snap \<longrightarrow> snapshot_of (now (view s')) prefix snap)"

text \<open>
  A listed bundle has safe names below the listed prefix and held its data at some moment of the
  listing.
\<close>

definition listed ::
  "(view \<Rightarrow> view \<Rightarrow> bool) \<Rightarrow> string \<Rightarrow> view \<Rightarrow> BundleRecord \<Rightarrow> view \<Rightarrow> bool" where
  "listed R prefix u rec u' \<longleftrightarrow>
     SafeName (br_TargetID rec) \<and> SafeName (br_Generation rec) \<and>
     br_Key rec = prefix @ br_TargetID rec @ ''/'' @ br_Generation rec \<and>
     (\<exists>vs. R u vs \<and> R vs u' \<and> (\<exists>e. lookup (now vs) (br_Key rec) = Some e \<and>
        kv_Value e = br_Data rec \<and> kv_ModRevision e = br_ModRevision rec))"

locale prune_store = snapshot_store +
  assumes list: "promises R c view \<Longrightarrow> wf_view (view s) \<Longrightarrow>
      kv_ListBundleRecords (store c) prefix s = (rl, s') \<Longrightarrow>
      R (view s) (view s') \<and> (\<forall>recs. rl = Inr recs \<longrightarrow> (\<forall>rec \<in> set recs. listed R prefix (view s) rec (view s')))"
    and delete_bundle: "promises R c view \<Longrightarrow> wf_view (view s) \<Longrightarrow>
      kv_DeleteBundleIfActiveUnchanged (store c) bundleKey activeKey expected s = (rb, s') \<Longrightarrow>
      ac_Exists expected \<Longrightarrow>
      conditional R (\<lambda>v. condition_holds v activeKey expected) (delete_where (\<lambda>k. k = bundleKey))
        (view s) rb (view s')"

locale upgrade_store = staging_store + snapshot_store +
  assumes get_at: "promises R c view \<Longrightarrow> wf_view (view s) \<Longrightarrow>
      kv_GetAt (store c) key n s = (r, s') \<Longrightarrow>
      R (view s) (view s') \<and> (\<forall>val. r = Inr val \<longrightarrow> 0 < n \<longrightarrow>
        (\<exists>v. version_at (Some n) (view s') = Some v \<and> val = Value_of (lookup v key)))"
    and swap_from: "promises R c view \<Longrightarrow> wf_view (view s) \<Longrightarrow>
      kv_SwapActiveFromSource (store c) sourceKey source key generation destination s = (rb, s') \<Longrightarrow>
      ac_Exists source \<Longrightarrow>
      conditional R (\<lambda>v. condition_holds v sourceKey source \<and> condition_holds v key destination)
        (put key generation) (view s) rb (view s')"
    and delete_prefix: "promises R c view \<Longrightarrow> wf_view (view s) \<Longrightarrow>
      kv_DeletePrefix (store c) prefix s = (rn, s') \<Longrightarrow>
      (\<exists>vs. R (view s) vs \<and>
        (view s' = vs \<or> view s' = advance (delete_where (\<lambda>k. HasPrefix k prefix)) vs) \<and>
        (is_ok rn \<longrightarrow> view s' = advance (delete_where (\<lambda>k. HasPrefix k prefix)) vs))"

end
