(* ===== verification/Etcd_Client.thy ===== *)
theory Etcd_Client
  imports Kv_Store
begin

text \<open>
  \<open>internal/etcdsource\<close>: the client over the etcd API. One definition per function of \<open>kv.go\<close>,
  \<open>snapshot.go\<close>, \<open>bundles.go\<close> and \<open>watch.go\<close>, and the interpretations of the store interfaces.
  Request contexts only bound the time of a call; a call they cut short is a failure of the
  service.
\<close>

section \<open>The client\<close>

record 's Client =
  cl_client :: "'s clientv3"
  cl_keys :: Keys

definition exact :: GetOptions where
  "exact = \<lparr>opt_Prefix = False, opt_KeysOnly = False, opt_Rev = None\<rparr>"

definition WithPrefix :: "GetOptions \<Rightarrow> GetOptions" where
  "WithPrefix o1 = o1\<lparr>opt_Prefix := True\<rparr>"

definition WithKeysOnly :: "GetOptions \<Rightarrow> GetOptions" where
  "WithKeysOnly o1 = o1\<lparr>opt_KeysOnly := True\<rparr>"

definition WithRev :: "int \<Rightarrow> GetOptions \<Rightarrow> GetOptions" where
  "WithRev n o1 = o1\<lparr>opt_Rev := Some n\<rparr>"

definition first_value :: "GetResponse \<Rightarrow> Value" where
  "first_value response =
     (case resp_Kvs response of
        [] \<Rightarrow> \<lparr>val_Data = [], val_ModRevision = 0, val_Exists = False\<rparr>
      | e # _ \<Rightarrow> \<lparr>val_Data = kv_Value e, val_ModRevision = kv_ModRevision e, val_Exists = True\<rparr>)"

definition Client_Get :: "'s Client \<Rightarrow> string \<Rightarrow> ('s, source_error, Value) io" where
  "Client_Get c key =
     call (cv_Get (cl_client c) key exact) (ReadKey key) (\<lambda>response.
     done_with (Inr (first_value response)))"

definition Client_GetAt :: "'s Client \<Rightarrow> string \<Rightarrow> int \<Rightarrow> ('s, source_error, Value) io" where
  "Client_GetAt c key revision =
     (let options = (if 0 < revision then WithRev revision exact else exact) in
      call (cv_Get (cl_client c) key options) (ReadKey key) (\<lambda>response.
      done_with (Inr (first_value response))))"

definition Client_StageBundleIfAbsent :: "'s Client \<Rightarrow> string \<Rightarrow> string \<Rightarrow> ('s, source_error, bool) io" where
  "Client_StageBundleIfAbsent c key val =
     call (cv_Txn (cl_client c) [CmpCreateRevision key 0] (OpPut key val)) StageBundle (\<lambda>succeeded.
     done_with (Inr succeeded))"

definition activeComparison :: "string \<Rightarrow> ActiveCondition \<Rightarrow> Cmp list" where
  "activeComparison key expected =
     (if \<not> ac_Exists expected then [CmpCreateRevision key 0]
      else [CmpValue key (ac_Generation expected), CmpModRevision key (ac_ModRevision expected)])"

definition Client_SwapActive ::
  "'s Client \<Rightarrow> string \<Rightarrow> string \<Rightarrow> ActiveCondition \<Rightarrow> ('s, source_error, bool) io" where
  "Client_SwapActive c activeKey generation expected =
     call (cv_Txn (cl_client c) (activeComparison activeKey expected) (OpPut activeKey generation))
       CompareAndSwapActive (\<lambda>succeeded. done_with (Inr succeeded))"

definition Client_SwapActiveFromSource ::
  "'s Client \<Rightarrow> string \<Rightarrow> ActiveCondition \<Rightarrow> string \<Rightarrow> string \<Rightarrow> ActiveCondition \<Rightarrow>
   ('s, source_error, bool) io" where
  "Client_SwapActiveFromSource c sourceKey source destinationKey generation destination =
     (if \<not> ac_Exists source then done_with (Inl SourceMustExist)
      else call (cv_Txn (cl_client c)
          (activeComparison sourceKey source @ activeComparison destinationKey destination)
          (OpPut destinationKey generation))
        CompareAndSwapUpgrade (\<lambda>succeeded. done_with (Inr succeeded)))"

definition Client_DeletePrefix :: "'s Client \<Rightarrow> string \<Rightarrow> ('s, source_error, int) io" where
  "Client_DeletePrefix c prefix =
     call (cv_Delete (cl_client c) prefix) (DeletePrefixFailed prefix) (\<lambda>deleted.
     done_with (Inr deleted))"

section \<open>Snapshots\<close>

text \<open>The two loops over the pairs of a response; a Go map keeps the last value of a key.\<close>

fun snapshot_loop ::
  "string \<Rightarrow> (string \<times> string) list \<Rightarrow> KeyValue list \<Rightarrow> (source_error, (string \<times> string) list) result" where
  "snapshot_loop activePrefix active [] = Inr active"
| "snapshot_loop activePrefix active (e # es) =
     (let targetID = TrimPrefix (kv_Key e) activePrefix; generation = TrimSpace (kv_Value e) in
      if \<not> SafeName targetID \<or> \<not> SafeName generation
      then Inl (InvalidActivePointer (kv_Key e) (kv_Value e))
      else snapshot_loop activePrefix ((targetID, generation) # active) es)"

definition snapshotFromResponse :: "GetResponse \<Rightarrow> string \<Rightarrow> (source_error, Snapshot) result" where
  "snapshotFromResponse response activePrefix =
     and_then (snapshot_loop activePrefix [] (resp_Kvs response)) id (\<lambda>active.
     Inr \<lparr>snap_Revision = resp_Revision response, snap_Active = active\<rparr>)"

fun prefix_snapshot_loop ::
  "string \<Rightarrow> (string \<times> ActivePointer) list \<Rightarrow> KeyValue list \<Rightarrow>
   (source_error, (string \<times> ActivePointer) list) result" where
  "prefix_snapshot_loop activePrefix active [] = Inr active"
| "prefix_snapshot_loop activePrefix active (e # es) =
     (let targetID = TrimPrefix (kv_Key e) activePrefix; generation = TrimSpace (kv_Value e) in
      if \<not> SafeName targetID \<or> \<not> SafeName generation
      then Inl (InvalidActivePointer (kv_Key e) (kv_Value e))
      else prefix_snapshot_loop activePrefix
        ((targetID, \<lparr>ap_Generation = generation, ap_ModRevision = kv_ModRevision e\<rparr>) # active) es)"

definition prefixSnapshotFromResponse :: "GetResponse \<Rightarrow> string \<Rightarrow> (source_error, PrefixSnapshot) result" where
  "prefixSnapshotFromResponse response activePrefix =
     and_then (prefix_snapshot_loop activePrefix [] (resp_Kvs response)) id (\<lambda>active.
     Inr \<lparr>ps_Revision = resp_Revision response, ps_Active = active\<rparr>)"

definition SnapshotActive :: "'s Client \<Rightarrow> ('s, source_error, Snapshot) io" where
  "SnapshotActive c =
     (let activePrefix = Keys_ActivePrefix (cl_keys c) in
      call (cv_Get (cl_client c) activePrefix (WithPrefix exact)) ReadActivePointers (\<lambda>response.
      done_with (snapshotFromResponse response activePrefix)))"

definition SnapshotActivePrefix :: "'s Client \<Rightarrow> string \<Rightarrow> ('s, source_error, PrefixSnapshot) io" where
  "SnapshotActivePrefix c activePrefix =
     call (cv_Get (cl_client c) activePrefix (WithPrefix exact)) (ReadActivePrefix activePrefix) (\<lambda>response.
     done_with (prefixSnapshotFromResponse response activePrefix))"

section \<open>Bundles\<close>

definition materialFromValue ::
  "crypto \<Rightarrow> string \<Rightarrow> string \<Rightarrow> bytes \<Rightarrow> int \<Rightarrow> (source_error, Material) result" where
  "materialFromValue L targetID generation val revision =
     and_then (Decode L val) DecodeBundle (\<lambda>(manifest, files, digest).
     and_then (ValidateGeneration generation digest) InvalidGeneration (\<lambda>_.
     and_then (Manifest_ValidateFiles L manifest files) InvalidSemantics (\<lambda>(certificates, leaf).
     Inr \<lparr>mat_TargetID = targetID, mat_Generation = generation, mat_Revision = revision,
          mat_Manifest = manifest, mat_Files = files, mat_Digest = digest,
          mat_Certificates = map Some certificates, mat_Leaf = leaf\<rparr>)))"

definition FetchBundle ::
  "crypto \<Rightarrow> 's Client \<Rightarrow> string \<Rightarrow> string \<Rightarrow> int \<Rightarrow> ('s, source_error, Material) io" where
  "FetchBundle L c targetID generation revision =
     (if \<not> SafeName targetID \<or> \<not> SafeName generation then done_with (Inl UnsafeTargetOrGeneration)
      else
        (let key = Keys_BundleKey (cl_keys c) targetID generation;
             options = (if 0 < revision then WithRev revision exact else exact) in
         call (cv_Get (cl_client c) key options) (ReadBundle key) (\<lambda>response.
           case resp_Kvs response of
             [e] \<Rightarrow> done_with (materialFromValue L targetID generation (kv_Value e) (resp_Revision response))
           | _ \<Rightarrow> done_with (Inl (BundleMissing key)))))"

text \<open>The two loops of \<open>ListBundleRecords\<close>: check every key, then read each value.\<close>

fun check_bundle_keys :: "string \<Rightarrow> string list \<Rightarrow> KeyValue list \<Rightarrow> (source_error, string list) result" where
  "check_bundle_keys bundlePrefix keys [] = Inr keys"
| "check_bundle_keys bundlePrefix keys (e # es) =
     (case Cut (TrimPrefix (kv_Key e) bundlePrefix) (CHR ''/'') of
        (targetID, generation, found) \<Rightarrow>
          if \<not> found \<or> \<not> SafeName targetID \<or> \<not> SafeName generation
          then Inl (InvalidBundleKey (kv_Key e) bundlePrefix)
          else check_bundle_keys bundlePrefix (keys @ [kv_Key e]) es)"

definition bundle_record :: "string \<Rightarrow> string \<Rightarrow> Value \<Rightarrow> BundleRecord" where
  "bundle_record bundlePrefix key val =
     (case Cut (TrimPrefix key bundlePrefix) (CHR ''/'') of
        (targetID, generation, _) \<Rightarrow>
          \<lparr>br_Key = key, br_TargetID = targetID, br_Generation = generation,
           br_Data = val_Data val, br_ModRevision = val_ModRevision val\<rparr>)"

fun read_records ::
  "'s Client \<Rightarrow> string \<Rightarrow> BundleRecord list \<Rightarrow> string list \<Rightarrow> ('s, source_error, BundleRecord list) io" where
  "read_records c bundlePrefix records [] = done_with (Inr records)"
| "read_records c bundlePrefix records (key # keys) =
     call (Client_Get c key) (ReadListed key) (\<lambda>val.
       if \<not> val_Exists val then read_records c bundlePrefix records keys
       else read_records c bundlePrefix (records @ [bundle_record bundlePrefix key val]) keys)"

definition ListBundleRecords :: "'s Client \<Rightarrow> string \<Rightarrow> ('s, source_error, BundleRecord list) io" where
  "ListBundleRecords c bundlePrefix =
     call (cv_Get (cl_client c) bundlePrefix (WithKeysOnly (WithPrefix exact))) (ListBundles bundlePrefix)
       (\<lambda>response.
        case check_bundle_keys bundlePrefix [] (resp_Kvs response) of
          Inl e \<Rightarrow> done_with (Inl e)
        | Inr keys \<Rightarrow> read_records c bundlePrefix [] keys)"

definition DeleteBundleIfActiveUnchanged ::
  "'s Client \<Rightarrow> string \<Rightarrow> string \<Rightarrow> ActiveCondition \<Rightarrow> ('s, source_error, bool) io" where
  "DeleteBundleIfActiveUnchanged c bundleKey activeKey expected =
     (if \<not> ac_Exists expected then done_with (Inl PruneNeedsActive)
      else call (cv_Txn (cl_client c) (activeComparison activeKey expected) (OpDelete bundleKey))
        (DeleteBundle bundleKey) (\<lambda>succeeded. done_with (Inr succeeded)))"

section \<open>Watch events\<close>

datatype EventType = EventPut | EventDelete

record WatchEvent =
  we_Type :: EventType
  we_Kv :: KeyValue

record ActiveEvent =
  ae_TargetID :: string
  ae_Generation :: string
  ae_Revision :: int
  ae_Deleted :: bool

definition activeEvent :: "string \<Rightarrow> WatchEvent \<Rightarrow> (source_error, ActiveEvent) result" where
  "activeEvent activePrefix event =
     (let targetID = TrimPrefix (kv_Key (we_Kv event)) activePrefix;
          active = \<lparr>ae_TargetID = targetID, ae_Generation = [],
            ae_Revision = kv_ModRevision (we_Kv event), ae_Deleted = False\<rparr> in
      if \<not> SafeName targetID then Inl (UnsafeWatchTarget targetID)
      else if we_Type event = EventDelete then Inr (active\<lparr>ae_Deleted := True\<rparr>)
      else
        (let generation = TrimSpace (kv_Value (we_Kv event)) in
         if \<not> SafeName generation then Inl (UnsafeWatchGeneration targetID generation)
         else Inr (active\<lparr>ae_Generation := generation\<rparr>)))"

text \<open>
  The forwarding loop of \<open>WatchActive\<close> on the responses that arrived: the events it delivers, in
  order, and the error it reports, if any. A response carries a watch error or a list of events, and the
  end of the list is the closed channel. The context may end: \<open>cancelled\<close> is the number of events after
  which a delivery finds it ended, \<open>ended\<close> whether it has ended when the channel closes.
\<close>

datatype watch_error = WatchFailed etcd_failure | BadEvent source_error | WatchClosed

fun forward_events ::
  "string \<Rightarrow> nat option \<Rightarrow> ActiveEvent list \<Rightarrow> WatchEvent list \<Rightarrow> ActiveEvent list \<times> source_error option option" where
  "forward_events activePrefix cancelled sent [] = (sent, None)"
| "forward_events activePrefix cancelled sent (e # es) =
     (case activeEvent activePrefix e of
        Inl err \<Rightarrow> (sent, Some (Some err))
      | Inr active \<Rightarrow>
          if cancelled = Some (length sent) then (sent, Some None)
          else forward_events activePrefix cancelled (sent @ [active]) es)"

fun WatchActive_loop ::
  "string \<Rightarrow> nat option \<Rightarrow> bool \<Rightarrow> ActiveEvent list \<Rightarrow> (etcd_failure, WatchEvent list) result list \<Rightarrow>
   ActiveEvent list \<times> watch_error option" where
  "WatchActive_loop activePrefix cancelled ended sent [] = (sent, if ended then None else Some WatchClosed)"
| "WatchActive_loop activePrefix cancelled ended sent (Inl err # rs) = (sent, Some (WatchFailed err))"
| "WatchActive_loop activePrefix cancelled ended sent (Inr es # rs) =
     (case forward_events activePrefix cancelled sent es of
        (sent', Some err) \<Rightarrow> (sent', map_option BadEvent err)
      | (sent', None) \<Rightarrow> WatchActive_loop activePrefix cancelled ended sent' rs)"

section \<open>The client as a store\<close>

definition Client_kv :: "'s Client \<Rightarrow> 's kv" where
  "Client_kv c =
     \<lparr>kv_Prefix = Keys_Prefix (cl_keys c),
      kv_ActiveKey = Keys_ActiveKey (cl_keys c),
      kv_BundleKey = Keys_BundleKey (cl_keys c),
      kv_Get = Client_Get c,
      kv_GetAt = Client_GetAt c,
      kv_SnapshotActivePrefix = SnapshotActivePrefix c,
      kv_ListBundleRecords = ListBundleRecords c,
      kv_StageBundleIfAbsent = Client_StageBundleIfAbsent c,
      kv_SwapActive = Client_SwapActive c,
      kv_SwapActiveFromSource = Client_SwapActiveFromSource c,
      kv_DeletePrefix = Client_DeletePrefix c,
      kv_DeleteBundleIfActiveUnchanged = DeleteBundleIfActiveUnchanged c\<rparr>"

definition client_ok :: "(view \<Rightarrow> view \<Rightarrow> bool) \<Rightarrow> 's Client \<Rightarrow> ('s \<Rightarrow> view) \<Rightarrow> bool" where
  "client_ok R c view \<longleftrightarrow> etcd_ok R (cl_client c) view"

section \<open>Reads\<close>

lemma filter_key:
  "distinct (map kv_Key es) \<Longrightarrow>
   filter (\<lambda>e. kv_Key e = k) es = (case find (\<lambda>e. kv_Key e = k) es of None \<Rightarrow> [] | Some e \<Rightarrow> [e])"
proof (induction es)
  case (Cons e es)
  show ?case
  proof (cases "kv_Key e = k")
    case True
    with Cons.prems have "kv_Key f \<noteq> k" if "f \<in> set es" for f
      using that by (metis distinct.simps(2) imageI list.set_map list.simps(9))
    then have "filter (\<lambda>e. kv_Key e = k) es = []" by (simp add: filter_empty_conv)
    with True show ?thesis by simp
  next
    case False
    with Cons show ?thesis by simp
  qed
qed simp

lemma selected_exact:
  assumes "wf_version v" and "\<not> opt_Prefix opts" "\<not> opt_KeysOnly opts"
  shows "selected key opts v = (case lookup v key of None \<Rightarrow> [] | Some e \<Rightarrow> [e])"
  using filter_key [OF wf_version_distinct [OF assms(1)]] assms(2,3)
  by (simp add: selected_def lookup_def)

lemma first_value_selected:
  assumes "wf_version v" and "\<not> opt_Prefix opts" "\<not> opt_KeysOnly opts"
    and "resp_Kvs response = selected key opts v"
  shows "first_value response = Value_of (lookup v key)"
  using assms(4) unfolding selected_exact [OF assms(1-3)]
  by (simp add: first_value_def Value_of_def split: option.splits)

lemma Client_Get_ok:
  assumes ok: "client_ok R c view" and wf: "wf_view (view s)" and get: "Client_Get c key s = (r, s')"
  shows "R (view s) (view s') \<and> (\<forall>val. r = Inr val \<longrightarrow> val = Value_of (lookup (now (view s')) key))"
proof -
  have e: "etcd_ok R (cl_client c) view" using ok by (simp add: client_ok_def)
  obtain q where q: "cv_Get (cl_client c) key exact s = (q, s')"
    and r: "r = (case q of Inl f \<Rightarrow> Inl (ReadKey key f) | Inr resp \<Rightarrow> Inr (first_value resp))"
    using get by (auto simp: Client_Get_def call_def split: prod.splits sum.splits)
  have w: "wf_version (now (view s'))"
    using wf_view_now writes_wf cv_writes(1) [OF e q] wf by blast
  have "val = Value_of (lookup (now (view s')) key)" if inr: "r = Inr val" for val
  proof -
    obtain resp where resp: "q = Inr resp" "val = first_value resp"
      using inr r by (auto split: sum.splits)
    then have "resp_Kvs resp = selected key exact (now (view s'))"
      using cv_Get_ok(2) [OF e q] by (auto simp: exact_def version_at_def)
    from first_value_selected [OF w _ _ this] resp(2) show ?thesis
      by (simp add: exact_def)
  qed
  then show ?thesis using cv_Get_ok(1) [OF e q] by blast
qed

lemma find_in: "find P xs = Some x \<Longrightarrow> x \<in> set xs"
  by (auto simp: find_Some_iff)

lemma version_at_wf: "wf_view vs \<Longrightarrow> version_at r vs = Some v \<Longrightarrow> wf_version v"
  using wf_view_now by (auto simp: version_at_def wf_view_def split: option.splits dest: find_in)

lemma Client_GetAt_ok:
  assumes ok: "client_ok R c view" and wf: "wf_view (view s)" and get: "Client_GetAt c key n s = (r, s')"
  shows "R (view s) (view s') \<and> (\<forall>val. r = Inr val \<longrightarrow> 0 < n \<longrightarrow>
    (\<exists>v. version_at (Some n) (view s') = Some v \<and> val = Value_of (lookup v key)))"
proof -
  have e: "etcd_ok R (cl_client c) view" using ok by (simp add: client_ok_def)
  let ?opts = "if 0 < n then WithRev n exact else exact"
  obtain q where q: "cv_Get (cl_client c) key ?opts s = (q, s')"
    and r: "r = (case q of Inl f \<Rightarrow> Inl (ReadKey key f) | Inr resp \<Rightarrow> Inr (first_value resp))"
    using get by (auto simp: Client_GetAt_def Let_def call_def split: prod.splits sum.splits)
  have w: "wf_view (view s')" using writes_wf cv_writes(1) [OF e q] wf by blast
  have "\<exists>v. version_at (Some n) (view s') = Some v \<and> val = Value_of (lookup v key)"
    if inr: "r = Inr val" and n: "0 < n" for val
  proof -
    obtain resp where resp: "q = Inr resp" "val = first_value resp"
      using inr r by (auto split: sum.splits)
    obtain v where v: "version_at (Some n) (view s') = Some v"
      "resp_Kvs resp = selected key (WithRev n exact) v"
      using cv_Get_ok(2) [OF e q resp(1)] n by (auto simp: WithRev_def)
    show ?thesis
      using v first_value_selected [OF version_at_wf [OF w v(1)] _ _ v(2)] resp(2)
      by (simp add: WithRev_def exact_def)
  qed
  then show ?thesis using cv_Get_ok(1) [OF e q] by blast
qed

section \<open>Conditional writes\<close>

lemma absent_cmp: "wf_version v \<Longrightarrow> cmp_holds v (CmpCreateRevision key 0) \<longleftrightarrow> lookup v key = None"
  by (fastforce simp: cmp_holds_def wf_version_def dest: lookup_Some split: option.splits)

lemma present_cmp:
  "cmp_holds v (CmpValue key val) \<longleftrightarrow> (\<exists>e. lookup v key = Some e \<and> kv_Value e = val)"
  by (auto simp: cmp_holds_def value_of_def)

lemma activeComparison_holds:
  assumes "wf_version v"
  shows "list_all (cmp_holds v) (activeComparison key expected) \<longleftrightarrow> condition_holds v key expected"
  using assms absent_cmp [OF assms]
  by (auto simp: activeComparison_def condition_holds_def present_cmp)
    (auto simp: cmp_holds_def)

text \<open>Every transaction of the client is a conditional write.\<close>

lemma client_txn_ok:
  assumes ok: "client_ok R c view" and wf: "wf_view (view s)"
    and txn: "call (cv_Txn (cl_client c) cmps op) wrap (\<lambda>b. done_with (Inr b)) s = (r, s')"
    and cond: "\<And>v. wf_version v \<Longrightarrow> list_all (cmp_holds v) cmps \<longleftrightarrow> cond v"
  shows "conditional R cond (apply_op op) (view s) r (view s')"
proof -
  have e: "etcd_ok R (cl_client c) view" using ok by (simp add: client_ok_def)
  obtain q where q: "cv_Txn (cl_client c) cmps op s = (q, s')"
    and r: "r = (case q of Inl f \<Rightarrow> Inl (wrap f) | Inr b \<Rightarrow> Inr b)"
    using txn by (auto simp: call_def split: prod.splits sum.splits)
  obtain vs where R: "R (view s) vs" and some: "view s' = vs \<or> view s' = txn cmps op vs"
    and inr: "\<And>b. q = Inr b \<Longrightarrow> b = list_all (cmp_holds (now vs)) cmps \<and> view s' = txn cmps op vs"
    using cv_Txn_ok [OF e q] by blast
  have w: "wf_version (now vs)"
    using wf_view_now writes_wf others_writes [OF etcd_okD(1) [OF e] R] wf by blast
  show ?thesis
  proof (cases q)
    case (Inl f)
    then show ?thesis using R some r cond [OF w]
      by (auto simp: conditional_def txn_def split: if_split_asm)
  next
    case (Inr b)
    then show ?thesis using R inr [OF Inr] r cond [OF w]
      by (auto simp: conditional_def txn_def)
  qed
qed

lemma apply_op_eqs:
  "apply_op (OpPut key val) = put key val"
  "apply_op (OpDelete key) = delete_where (\<lambda>k. k = key)"
  by (auto simp: apply_op_def)

lemma Client_StageBundleIfAbsent_ok:
  assumes "client_ok R c view" "wf_view (view s)" "Client_StageBundleIfAbsent c key val s = (r, s')"
  shows "conditional R (\<lambda>v. lookup v key = None) (put key val) (view s) r (view s')"
  using client_txn_ok [OF assms(1,2) assms(3) [unfolded Client_StageBundleIfAbsent_def]] absent_cmp
  by (simp add: apply_op_eqs)

lemma Client_SwapActive_ok:
  assumes "client_ok R c view" "wf_view (view s)" "Client_SwapActive c key generation expected s = (r, s')"
  shows "conditional R (\<lambda>v. condition_holds v key expected) (put key generation) (view s) r (view s')"
  using client_txn_ok [OF assms(1,2) assms(3) [unfolded Client_SwapActive_def]] activeComparison_holds
  by (simp add: apply_op_eqs)

lemma Client_SwapActiveFromSource_ok:
  assumes ok: "client_ok R c view" and wf: "wf_view (view s)"
    and run: "Client_SwapActiveFromSource c sourceKey source key generation destination s = (r, s')"
    and src: "ac_Exists source"
  shows "conditional R (\<lambda>v. condition_holds v sourceKey source \<and> condition_holds v key destination)
    (put key generation) (view s) r (view s')"
proof -
  have cond: "list_all (cmp_holds v) (activeComparison sourceKey source @ activeComparison key destination) \<longleftrightarrow>
      condition_holds v sourceKey source \<and> condition_holds v key destination" if "wf_version v" for v
    unfolding list_all_append activeComparison_holds [OF that] ..
  have "call (cv_Txn (cl_client c) (activeComparison sourceKey source @ activeComparison key destination)
      (OpPut key generation)) CompareAndSwapUpgrade (\<lambda>b. done_with (Inr b)) s = (r, s')"
    using run src by (simp add: Client_SwapActiveFromSource_def)
  from client_txn_ok [OF ok wf this cond] show ?thesis by (simp add: apply_op_eqs)
qed

lemma DeleteBundleIfActiveUnchanged_ok:
  assumes "client_ok R c view" "wf_view (view s)"
    "DeleteBundleIfActiveUnchanged c bundleKey activeKey expected s = (r, s')" "ac_Exists expected"
  shows "conditional R (\<lambda>v. condition_holds v activeKey expected) (delete_where (\<lambda>k. k = bundleKey))
    (view s) r (view s')"
proof -
  have "conditional R (\<lambda>v. condition_holds v activeKey expected) (apply_op (OpDelete bundleKey))
    (view s) r (view s')"
    by (rule client_txn_ok [OF assms(1,2), of _ _ "DeleteBundle bundleKey"])
      (use assms(3,4) activeComparison_holds in \<open>simp_all add: DeleteBundleIfActiveUnchanged_def\<close>)
  then show ?thesis by (simp add: apply_op_eqs)
qed

lemma Client_DeletePrefix_ok:
  assumes ok: "client_ok R c view" and del: "Client_DeletePrefix c prefix s = (r, s')"
  shows "\<exists>vs. R (view s) vs \<and>
    (view s' = vs \<or> view s' = advance (delete_where (\<lambda>k. HasPrefix k prefix)) vs) \<and>
    (is_ok r \<longrightarrow> view s' = advance (delete_where (\<lambda>k. HasPrefix k prefix)) vs)"
proof -
  have e: "etcd_ok R (cl_client c) view" using ok by (simp add: client_ok_def)
  obtain q where q: "cv_Delete (cl_client c) prefix s = (q, s')" and r: "is_ok r \<longleftrightarrow> is_ok q"
    using del by (auto simp: Client_DeletePrefix_def call_def split: prod.splits sum.splits)
  from cv_Delete_ok [OF e q] show ?thesis using r by (metis is_ok_iff)
qed

section \<open>Snapshots\<close>

lemma prefix_snapshot_loop_Inr:
  "prefix_snapshot_loop prefix active es = Inr result \<longleftrightarrow>
     (\<forall>e \<in> set es. SafeName (TrimPrefix (kv_Key e) prefix) \<and> SafeName (TrimSpace (kv_Value e))) \<and>
     result = rev (map (\<lambda>e. (TrimPrefix (kv_Key e) prefix, pointer_of e)) es) @ active"
  by (induction es arbitrary: active) (auto simp: Let_def pointer_of_def)

lemma map_of_pointers:
  assumes "distinct (map kv_Key es)" "\<forall>e \<in> set es. HasPrefix (kv_Key e) prefix"
  shows "map_of (map (\<lambda>e. (TrimPrefix (kv_Key e) prefix, pointer_of e)) es) t =
    map_option pointer_of (find (\<lambda>e. kv_Key e = prefix @ t) es)"
  using assms by (induction es) (auto simp: HasPrefix_iff)

lemma distinct_TrimPrefix:
  assumes "distinct (map kv_Key es)" "\<forall>e \<in> set es. HasPrefix (kv_Key e) prefix"
  shows "distinct (map (\<lambda>e. TrimPrefix (kv_Key e) prefix) es)"
proof -
  have "inj_on (\<lambda>k. TrimPrefix k prefix) {k. HasPrefix k prefix}"
    by (auto simp: inj_on_def HasPrefix_iff)
  then have "inj_on (\<lambda>k. TrimPrefix k prefix) (kv_Key ` set es)"
    by (rule inj_on_subset) (use assms(2) in auto)
  with assms(1) show ?thesis
    by (auto simp: distinct_map comp_inj_on_iff [unfolded comp_def])
qed

lemma find_filter_prefix:
  "find (\<lambda>e. kv_Key e = prefix @ t) (filter (\<lambda>e. HasPrefix (kv_Key e) prefix) es) =
   find (\<lambda>e. kv_Key e = prefix @ t) es"
  by (induction es) auto

lemma prefixSnapshotFromResponse_ok:
  assumes wf: "wf_version v" and resp: "resp_Revision response = v_Revision v"
      "resp_Kvs response = selected prefix (WithPrefix exact) v"
    and ok: "prefixSnapshotFromResponse response prefix = Inr snap"
  shows "snapshot_of v prefix snap"
proof -
  let ?es = "filter (\<lambda>e. HasPrefix (kv_Key e) prefix) (v_Kvs v)"
  let ?pairs = "map (\<lambda>e. (TrimPrefix (kv_Key e) prefix, pointer_of e)) ?es"
  have es: "resp_Kvs response = ?es"
    using resp(2) by (simp add: selected_def WithPrefix_def exact_def)
  have safe: "\<forall>e \<in> set ?es. SafeName (TrimPrefix (kv_Key e) prefix) \<and> SafeName (TrimSpace (kv_Value e))"
    and active: "ps_Active snap = rev ?pairs" and rev: "ps_Revision snap = v_Revision v"
    using ok resp(1) by (auto simp: prefixSnapshotFromResponse_def and_then_Inr es prefix_snapshot_loop_Inr)
  have dk: "distinct (map kv_Key ?es)" using wf_version_distinct [OF wf] by (simp add: distinct_map_filter)
  have pre: "\<forall>e \<in> set ?es. HasPrefix (kv_Key e) prefix" by simp
  have dist: "distinct (map fst ?pairs)"
    using distinct_TrimPrefix [OF dk pre] by (simp add: comp_def)
  have "map_of (rev ?pairs) t = map_option pointer_of (lookup v (prefix @ t))" for t
  proof -
    have "map_of (rev ?pairs) t = map_of ?pairs t"
      using dist by (intro map_of_rev_distinct)
    also have "\<dots> = map_option pointer_of (lookup v (prefix @ t))"
      unfolding map_of_pointers [OF dk pre] find_filter_prefix lookup_def ..
    finally show ?thesis .
  qed
  moreover have "distinct (map fst (rev ?pairs))" using dist by (simp add: rev_map [symmetric])
  moreover have "\<forall>(t, p) \<in> set ?pairs. SafeName t \<and> SafeName (ap_Generation p)"
    using safe by (auto simp: pointer_of_def)
  ultimately show ?thesis by (simp add: snapshot_of_def active rev)
qed

lemma SnapshotActivePrefix_ok:
  assumes ok: "client_ok R c view" and wf: "wf_view (view s)"
    and snap: "SnapshotActivePrefix c prefix s = (r, s')"
  shows "R (view s) (view s') \<and> (\<forall>snap. r = Inr snap \<longrightarrow> snapshot_of (now (view s')) prefix snap)"
proof -
  have e: "etcd_ok R (cl_client c) view" using ok by (simp add: client_ok_def)
  obtain q where q: "cv_Get (cl_client c) prefix (WithPrefix exact) s = (q, s')"
    and r: "r = (case q of Inl f \<Rightarrow> Inl (ReadActivePrefix prefix f)
      | Inr resp \<Rightarrow> prefixSnapshotFromResponse resp prefix)"
    using snap by (auto simp: SnapshotActivePrefix_def call_def split: prod.splits sum.splits)
  have w: "wf_version (now (view s'))"
    using wf_view_now writes_wf cv_writes(1) [OF e q] wf by blast
  have "snapshot_of (now (view s')) prefix snap" if "r = Inr snap" for snap
  proof -
    obtain resp where resp: "q = Inr resp" "prefixSnapshotFromResponse resp prefix = Inr snap"
      using \<open>r = Inr snap\<close> r by (auto split: sum.splits)
    have "resp_Revision resp = v_Revision (now (view s'))"
      "resp_Kvs resp = selected prefix (WithPrefix exact) (now (view s'))"
      using cv_Get_ok(2) [OF e q resp(1)] by (auto simp: WithPrefix_def exact_def version_at_def)
    then show ?thesis using prefixSnapshotFromResponse_ok [OF w _ _ resp(2)] by blast
  qed
  then show ?thesis using cv_Get_ok(1) [OF e q] by blast
qed

section \<open>Listing\<close>

definition bundle_shape :: "string \<Rightarrow> string \<Rightarrow> bool" where
  "bundle_shape prefix key \<longleftrightarrow>
     (\<exists>t g. Cut (TrimPrefix key prefix) (CHR ''/'') = (t, g, True) \<and> SafeName t \<and> SafeName g)"

lemma check_bundle_keys_Inr:
  "check_bundle_keys prefix keys es = Inr result \<longleftrightarrow>
     (\<forall>e \<in> set es. bundle_shape prefix (kv_Key e)) \<and> result = keys @ map kv_Key es"
  by (induction es arbitrary: keys) (auto simp: bundle_shape_def split: prod.splits)

lemma bundle_record_listed:
  assumes "bundle_shape prefix key" "HasPrefix key prefix"
  shows "SafeName (br_TargetID (bundle_record prefix key val))"
    and "SafeName (br_Generation (bundle_record prefix key val))"
    and "key = prefix @ br_TargetID (bundle_record prefix key val) @ ''/'' @
      br_Generation (bundle_record prefix key val)"
proof -
  obtain t g where tg: "Cut (TrimPrefix key prefix) (CHR ''/'') = (t, g, True)" "SafeName t" "SafeName g"
    using assms(1) by (auto simp: bundle_shape_def)
  obtain rest where rest: "key = prefix @ rest" using assms(2) by (auto simp: HasPrefix_iff)
  have "rest = t @ CHR ''/'' # g" using Cut_found tg(1) by (simp add: rest)
  with tg show "SafeName (br_TargetID (bundle_record prefix key val))"
    "SafeName (br_Generation (bundle_record prefix key val))"
    "key = prefix @ br_TargetID (bundle_record prefix key val) @ ''/'' @
      br_Generation (bundle_record prefix key val)"
    by (auto simp: bundle_record_def rest)
qed

lemma bundle_record_simps:
  "br_Key (bundle_record prefix key val) = key"
  "br_Data (bundle_record prefix key val) = val_Data val"
  "br_ModRevision (bundle_record prefix key val) = val_ModRevision val"
  by (simp_all add: bundle_record_def split: prod.splits)

lemma read_records_ok:
  assumes ok: "client_ok R c view"
  shows "wf_view (view s) \<Longrightarrow> R u (view s) \<Longrightarrow>
    \<forall>key \<in> set keys. bundle_shape prefix key \<and> HasPrefix key prefix \<Longrightarrow>
    \<forall>rec \<in> set recs. listed R prefix u rec (view s) \<Longrightarrow>
    read_records c prefix recs keys s = (r, s') \<Longrightarrow>
    R u (view s') \<and> (\<forall>result. r = Inr result \<longrightarrow> (\<forall>rec \<in> set result. listed R prefix u rec (view s')))"
proof (induction keys arbitrary: s recs)
  case (Cons key keys)
  have R: "others_ok R" using ok by (simp add: client_ok_def etcd_ok_def)
  note trans = others_trans [OF R] and refl = others_refl [OF R]
  from Cons.prems(5) have "call (Client_Get c key) (ReadListed key) (\<lambda>val.
       if \<not> val_Exists val then read_records c prefix recs keys
       else read_records c prefix (recs @ [bundle_record prefix key val]) keys) s = (r, s')"
    by simp
  then show ?case
  proof (cases rule: call_cases)
    case (failed e)
    then show ?thesis
      using Client_Get_ok [OF ok Cons.prems(1) failed(1)] trans Cons.prems(2) by blast
  next
    case (passed val t)
    have g: "R (view s) (view t)" "val = Value_of (lookup (now (view t)) key)"
      using Client_Get_ok [OF ok Cons.prems(1) passed(1)] by blast+
    have wf: "wf_view (view t)" using writes_wf others_writes [OF R g(1)] Cons.prems(1) by blast
    have Ru: "R u (view t)" using trans Cons.prems(2) g(1) by blast
    have old: "\<forall>rec \<in> set recs. listed R prefix u rec (view t)"
      using Cons.prems(4) g(1) trans unfolding listed_def by blast
    have new: "listed R prefix u (bundle_record prefix key val) (view t)" if ex: "val_Exists val"
    proof -
      obtain e where e: "lookup (now (view t)) key = Some e"
        "val_Data val = kv_Value e" "val_ModRevision val = kv_ModRevision e"
        using g(2) ex by (auto simp: Value_of_def split: option.splits)
      have shape: "bundle_shape prefix key" "HasPrefix key prefix" using Cons.prems(3) by auto
      show ?thesis
        using bundle_record_listed [OF shape, of val] e Ru refl
        by (auto simp: listed_def bundle_record_simps)
    qed
    show ?thesis
    proof (cases "val_Exists val")
      case True
      then have "read_records c prefix (recs @ [bundle_record prefix key val]) keys t = (r, s')"
        using passed(2) by simp
      moreover have "\<forall>rec \<in> set (recs @ [bundle_record prefix key val]). listed R prefix u rec (view t)"
        using old new [OF True] by simp
      moreover have "\<forall>key \<in> set keys. bundle_shape prefix key \<and> HasPrefix key prefix"
        using Cons.prems(3) by simp
      ultimately show ?thesis using Cons.IH [OF wf Ru] by blast
    next
      case False
      then have "read_records c prefix recs keys t = (r, s')" using passed(2) by simp
      moreover have "\<forall>key \<in> set keys. bundle_shape prefix key \<and> HasPrefix key prefix"
        using Cons.prems(3) by simp
      ultimately show ?thesis using Cons.IH [OF wf Ru _ old] by blast
    qed
  qed
qed auto

lemma ListBundleRecords_ok:
  assumes ok: "client_ok R c view" and wf: "wf_view (view s)"
    and list: "ListBundleRecords c prefix s = (r, s')"
  shows "R (view s) (view s') \<and>
    (\<forall>recs. r = Inr recs \<longrightarrow> (\<forall>rec \<in> set recs. listed R prefix (view s) rec (view s')))"
proof -
  have e: "etcd_ok R (cl_client c) view" and R: "others_ok R"
    using ok by (simp_all add: client_ok_def etcd_ok_def)
  from list show ?thesis
    unfolding ListBundleRecords_def
  proof (cases rule: call_cases)
    case (failed f)
    then show ?thesis using cv_Get_ok(1) [OF e] by blast
  next
    case (passed resp t)
    have t: "R (view s) (view t)" using cv_Get_ok(1) [OF e passed(1)] .
    have wft: "wf_view (view t)" using writes_wf others_writes [OF R t] wf by blast
    have kvs: "resp_Kvs resp = selected prefix (WithKeysOnly (WithPrefix exact)) (now (view t))"
      using cv_Get_ok(2) [OF e passed(1)] by (auto simp: WithKeysOnly_def WithPrefix_def exact_def version_at_def)
    have pre: "\<forall>e \<in> set (resp_Kvs resp). HasPrefix (kv_Key e) prefix"
      by (auto simp: kvs selected_def WithKeysOnly_def WithPrefix_def)
    show ?thesis
    proof (cases "check_bundle_keys prefix [] (resp_Kvs resp)")
      case (Inl err)
      then show ?thesis using passed(2) t by simp
    next
      case (Inr keys)
      have keys: "\<forall>key \<in> set keys. bundle_shape prefix key \<and> HasPrefix key prefix"
        using Inr pre by (auto simp: check_bundle_keys_Inr)
      have "read_records c prefix [] keys t = (r, s')" using passed(2) Inr by simp
      from read_records_ok [OF ok wft t keys _ this] show ?thesis by simp
    qed
  qed
qed

section \<open>The client provides the interfaces\<close>

interpretation etcd_kv: kv_store Client_kv client_ok
proof unfold_locales
  show "client_ok R c view \<Longrightarrow> others_ok R" for R c and view :: "'a \<Rightarrow> view"
    by (simp add: client_ok_def etcd_ok_def)
qed (simp add: Client_kv_def Client_Get_ok)

interpretation etcd_publisher: publisher_store Client_kv client_ok
  by unfold_locales
    (simp_all add: Client_kv_def Client_StageBundleIfAbsent_ok Client_SwapActive_ok)

interpretation etcd_prune: prune_store Client_kv client_ok
  by unfold_locales
    (simp_all add: Client_kv_def SnapshotActivePrefix_ok ListBundleRecords_ok DeleteBundleIfActiveUnchanged_ok)

interpretation etcd_upgrade: upgrade_store Client_kv client_ok
  by unfold_locales
    (simp_all add: Client_kv_def Client_GetAt_ok Client_SwapActiveFromSource_ok Client_DeletePrefix_ok)

end
