(* ===== verification/Publisher.thy ===== *)
theory Publisher
  imports Etcd_Client Pack
begin

text \<open>
  \<open>internal/publisher\<close>: stage the immutable bundle, then commit its active pointer by
  compare-and-swap. \<open>kv\<close> is the store interface.
\<close>

datatype Outcome = OutcomePublished | OutcomeNoOp

datatype publish_error =
    InvalidPack pack_error
  | PackPrefixMismatch string string
  | PackActiveKeyMismatch
  | PackBundleKeyMismatch
  | PublishStage source_error
  | ReadExistingBundle source_error
  | BundleDisappeared string
  | DifferentBytes string
  | ReadActivePointer source_error
  | UnsafeActivePointer string
  | PublishSwap source_error
  | ActiveChanged

definition requireExistingBundle :: "'s kv \<Rightarrow> string \<Rightarrow> bytes \<Rightarrow> ('s, publish_error, unit) io" where
  "requireExistingBundle kv key expected =
     call (kv_Get kv key) ReadExistingBundle (\<lambda>val.
     if \<not> val_Exists val then done_with (Inl (BundleDisappeared key))
     else if val_Data val \<noteq> expected then done_with (Inl (DifferentBytes key))
     else done_with (Inr ()))"

definition captureActive :: "'s kv \<Rightarrow> string \<Rightarrow> ('s, publish_error, ActiveCondition) io" where
  "captureActive kv key =
     call (kv_Get kv key) ReadActivePointer (\<lambda>val.
     if val_Exists val \<and> \<not> SafeName (val_Data val)
     then done_with (Inl (UnsafeActivePointer (val_Data val)))
     else done_with (Inr \<lparr>ac_Generation = val_Data val, ac_ModRevision = val_ModRevision val,
                          ac_Exists = val_Exists val\<rparr>))"

text \<open>The calls of \<open>Publish\<close>, after its checks of the pack.\<close>

definition commit_active :: "'s kv \<Rightarrow> Metadata \<Rightarrow> ActiveCondition \<Rightarrow> ('s, publish_error, Outcome) io" where
  "commit_active kv metadata expected =
     (if ac_Exists expected \<and> ac_Generation expected = md_Generation metadata
      then done_with (Inr OutcomeNoOp)
      else call (kv_SwapActive kv (md_ActiveKey metadata) (md_Generation metadata) expected) PublishSwap
        (\<lambda>updated. done_with (if \<not> updated then Inl ActiveChanged else Inr OutcomePublished)))"

definition stage_and_commit :: "'s kv \<Rightarrow> PackResult \<Rightarrow> ('s, publish_error, Outcome) io" where
  "stage_and_commit kv result =
     (let metadata = pr_Metadata result in
      call (kv_StageBundleIfAbsent kv (md_BundleKey metadata) (pr_Bundle result)) PublishStage (\<lambda>created.
      call (if \<not> created then requireExistingBundle kv (md_BundleKey metadata) (pr_Bundle result)
            else done_with (Inr ())) id (\<lambda>_.
      call (captureActive kv (md_ActiveKey metadata)) id (\<lambda>expected.
      commit_active kv metadata expected))))"

definition Publish :: "crypto \<Rightarrow> 's kv \<Rightarrow> PackResult \<Rightarrow> ('s, publish_error, Outcome) io" where
  "Publish L kv result =
     call (done_with (Pack_Validate L result)) InvalidPack (\<lambda>_.
     let metadata = pr_Metadata result in
     if md_EtcdPrefix metadata \<noteq> kv_Prefix kv
     then done_with (Inl (PackPrefixMismatch (md_EtcdPrefix metadata) (kv_Prefix kv)))
     else if md_ActiveKey metadata \<noteq> kv_ActiveKey kv (md_TargetID metadata)
     then done_with (Inl PackActiveKeyMismatch)
     else if md_BundleKey metadata \<noteq> kv_BundleKey kv (md_TargetID metadata) (md_Generation metadata)
     then done_with (Inl PackBundleKeyMismatch)
     else stage_and_commit kv result)"

section \<open>Invariants of the key space\<close>

text \<open>What the other clients leave true.\<close>

definition stable :: "(view \<Rightarrow> view \<Rightarrow> bool) \<Rightarrow> (version \<Rightarrow> bool) \<Rightarrow> bool" where
  "stable R P \<longleftrightarrow> (\<forall>u v. wf_view u \<longrightarrow> R u v \<longrightarrow> P (now u) \<longrightarrow> P (now v))"

lemma stableD: "stable R P \<Longrightarrow> wf_view u \<Longrightarrow> R u v \<Longrightarrow> P (now u) \<Longrightarrow> P (now v)"
  unfolding stable_def by blast

text \<open>Referential integrity of one namespace: every active pointer of a safe target has its bundle.\<close>

definition no_dangling :: "Keys \<Rightarrow> version \<Rightarrow> bool" where
  "no_dangling k v \<longleftrightarrow>
     (\<forall>t g. SafeName t \<longrightarrow> value_of v (Keys_ActiveKey k t) = Some g \<longrightarrow>
        value_of v (Keys_BundleKey k t g) \<noteq> None)"

lemma ActiveKey_not_BundleKey_any:
  assumes "SafeName t" "SafeName t'"
  shows "Keys_ActiveKey k t \<noteq> Keys_BundleKey k t' g"
proof
  have "''active/'' @ t = ''bundles/'' @ t' @ ''/'' @ g \<Longrightarrow> False" by simp
  moreover assume "Keys_ActiveKey k t = Keys_BundleKey k t' g"
  ultimately show False
    by (simp add: Keys_ActiveKey_def Keys_ActivePrefix_def Keys_BundleKey_def
        Keys_TargetBundlePrefix_def Keys_BundlePrefix_def)
qed

lemma BundleKey_eq:
  assumes "SafeName t" "SafeName t'"
  shows "Keys_BundleKey k t g = Keys_BundleKey k t' g' \<longleftrightarrow> t = t' \<and> g = g'"
proof
  assume "Keys_BundleKey k t g = Keys_BundleKey k t' g'"
  then have "t @ CHR ''/'' # g = t' @ CHR ''/'' # g'"
    by (simp add: Keys_BundleKey_def Keys_TargetBundlePrefix_def)
  then show "t = t' \<and> g = g'"
    by (rule append_sep_eq) (use assms in \<open>auto dest: SafeName_no_slash\<close>)
qed simp

lemma ActiveKey_eq: "Keys_ActiveKey k t = Keys_ActiveKey k t' \<longleftrightarrow> t = t'"
  by (simp add: Keys_ActiveKey_def)

lemma no_dangling_put_bundle:
  assumes "wf_version v" "no_dangling k v" "SafeName t"
  shows "no_dangling k (put (Keys_BundleKey k t g) val v)"
  unfolding no_dangling_def
proof (intro allI impI)
  fix t' g' assume t': "SafeName t'"
    and active: "value_of (put (Keys_BundleKey k t g) val v) (Keys_ActiveKey k t') = Some g'"
  have "value_of v (Keys_ActiveKey k t') = Some g'"
    using active ActiveKey_not_BundleKey_any [OF t' assms(3)] by (simp add: value_of_put [OF assms(1)])
  then have "value_of v (Keys_BundleKey k t' g') \<noteq> None"
    using assms(2) t' unfolding no_dangling_def by blast
  then show "value_of (put (Keys_BundleKey k t g) val v) (Keys_BundleKey k t' g') \<noteq> None"
    by (simp add: value_of_put [OF assms(1)])
qed

lemma no_dangling_put_active:
  assumes "wf_version v" "no_dangling k v" "SafeName t" "value_of v (Keys_BundleKey k t g) \<noteq> None"
  shows "no_dangling k (put (Keys_ActiveKey k t) g v)"
  unfolding no_dangling_def
proof (intro allI impI)
  fix t' g' assume t': "SafeName t'"
    and active: "value_of (put (Keys_ActiveKey k t) g v) (Keys_ActiveKey k t') = Some g'"
  have "value_of v (Keys_BundleKey k t' g') \<noteq> None"
  proof (cases "t' = t")
    case True
    then show ?thesis using active assms(4) by (simp add: value_of_put [OF assms(1)])
  next
    case False
    then have "value_of v (Keys_ActiveKey k t') = Some g'"
      using active by (simp add: value_of_put [OF assms(1)] ActiveKey_eq)
    then show ?thesis using assms(2) t' unfolding no_dangling_def by blast
  qed
  then show "value_of (put (Keys_ActiveKey k t) g v) (Keys_BundleKey k t' g') \<noteq> None"
    using ActiveKey_not_BundleKey_any [OF assms(3) t'] by (simp add: value_of_put [OF assms(1)])
qed

section \<open>What publishing does to the key space\<close>

context kv_store begin

text \<open>An invariant that the others leave true and that the conditional write keeps.\<close>

lemma conditional_invariant:
  assumes ok: "promises R c view" and wf: "wf_view u" and c: "conditional R cond write u r u'"
    and P: "stable R P" "P (now u)"
    and step: "\<And>v. wf_version v \<Longrightarrow> cond v \<Longrightarrow> P v \<Longrightarrow> P (write v)"
  shows "P (now u')"
proof -
  obtain vs where R: "R u vs" and u': "u' = vs \<or> cond (now vs) \<and> u' = advance write vs"
    using conditional_cases [OF c] by blast
  have "wf_version (now vs)" using wf_view_now others_wf [OF ok R wf] by blast
  moreover have "P (now vs)" using stableD [OF P(1) wf R P(2)] .
  ultimately show ?thesis using u' step by auto
qed

lemma get_invariant:
  assumes "promises R c view" "wf_view (view s)" "kv_Get (store c) key s = (r, s')"
    and "stable R P" "P (now (view s))"
  shows "P (now (view s'))"
  using stableD [OF assms(4,2) _ assms(5)] get [OF assms(1-3)] by blast

lemma captureActive_get:
  "captureActive (store c) key s = (r, s') \<Longrightarrow> \<exists>q. kv_Get (store c) key s = (q, s') \<and>
     (\<forall>ac. r = Inr ac \<longrightarrow> (\<exists>val. q = Inr val \<and> ac = \<lparr>ac_Generation = val_Data val,
       ac_ModRevision = val_ModRevision val, ac_Exists = val_Exists val\<rparr>))"
  by (auto simp: captureActive_def call_def split: prod.splits sum.splits if_splits)

lemma captured_condition:
  assumes "Value_of (lookup v key) = val"
    and "ac = \<lparr>ac_Generation = val_Data val, ac_ModRevision = val_ModRevision val, ac_Exists = val_Exists val\<rparr>"
  shows "condition_holds v key ac"
    and "ac_Exists ac \<longleftrightarrow> lookup v key \<noteq> None"
    and "ac_Exists ac \<Longrightarrow> value_of v key = Some (ac_Generation ac)"
  using assms by (auto simp: Value_of_def condition_holds_def value_of_def split: option.splits)

lemma requireExistingBundle_get:
  "requireExistingBundle (store c) key expected s = (r, s') \<Longrightarrow> \<exists>q. kv_Get (store c) key s = (q, s') \<and>
     (r = Inr () \<longrightarrow> (\<exists>val. q = Inr val \<and> val_Exists val \<and> val_Data val = expected))"
  by (auto simp: requireExistingBundle_def call_def split: prod.splits sum.splits if_splits)

end

context publisher_store begin

text \<open>The first two calls: after them, if they succeed, the bundle is stored as the pack has it.\<close>

definition staging :: "'a \<Rightarrow> PackResult \<Rightarrow> ('b, publish_error, unit) io" where
  "staging c p =
     call (kv_StageBundleIfAbsent (store c) (md_BundleKey (pr_Metadata p)) (pr_Bundle p)) PublishStage (\<lambda>created.
     if \<not> created then requireExistingBundle (store c) (md_BundleKey (pr_Metadata p)) (pr_Bundle p)
     else done_with (Inr ()))"

lemma stage_and_commit_staging:
  "stage_and_commit (store c) p =
     call (staging c p) id (\<lambda>_. call (captureActive (store c) (md_ActiveKey (pr_Metadata p))) id
       (commit_active (store c) (pr_Metadata p)))"
  by (rule ext) (auto simp: stage_and_commit_def staging_def call_def Let_def split: prod.splits sum.splits)

lemma staging_invariant:
  assumes ok: "promises R c view" and wf: "wf_view (view s)" and run: "staging c p s = (r, s')"
    and P: "stable R P" "P (now (view s))"
    and step: "\<And>v. wf_version v \<Longrightarrow> lookup v (md_BundleKey (pr_Metadata p)) = None \<Longrightarrow> P v \<Longrightarrow>
      P (put (md_BundleKey (pr_Metadata p)) (pr_Bundle p) v)"
  shows "wf_view (view s') \<and> P (now (view s'))"
  using run unfolding staging_def
proof (cases rule: call_cases)
  case (failed e)
  note st = stage [OF ok wf failed(1)]
  show ?thesis using conditional_wf [OF ok wf st] conditional_invariant [OF ok wf st P] step by blast
next
  case (passed created t)
  note st = stage [OF ok wf passed(1)]
  have wft: "wf_view (view t)" using conditional_wf [OF ok wf st] .
  have Pt: "P (now (view t))" using conditional_invariant [OF ok wf st P] step by blast
  show ?thesis
  proof (cases created)
    case True
    then show ?thesis using passed(2) wft Pt by simp
  next
    case False
    then have "requireExistingBundle (store c) (md_BundleKey (pr_Metadata p)) (pr_Bundle p) t = (r, s')"
      using passed(2) by simp
    from requireExistingBundle_get [OF this]
    obtain q where q: "kv_Get (store c) (md_BundleKey (pr_Metadata p)) t = (q, s')" by blast
    show ?thesis using get_wf [OF ok wft q] get_invariant [OF ok wft q P(1) Pt] by blast
  qed
qed

lemma staging_stored:
  assumes ok: "promises R c view" and wf: "wf_view (view s)" and run: "staging c p s = (Inr (), s')"
  shows "value_of (now (view s')) (md_BundleKey (pr_Metadata p)) = Some (pr_Bundle p)"
proof -
  let ?k = "md_BundleKey (pr_Metadata p)"
  obtain created t where st1: "kv_StageBundleIfAbsent (store c) ?k (pr_Bundle p) s = (Inr created, t)"
    and rest: "(if \<not> created then requireExistingBundle (store c) ?k (pr_Bundle p) else done_with (Inr ())) t = (Inr (), s')"
    using run by (auto simp: staging_def call_Inr)
  note st = stage [OF ok wf st1]
  have wft: "wf_view (view t)" using conditional_wf [OF ok wf st] .
  show ?thesis
  proof (cases created)
    case True
    obtain vs where R: "R (view s) vs" and t: "view t = advance (put ?k (pr_Bundle p)) vs"
      using st True unfolding conditional_def by auto
    have "wf_version (now vs)" using others_wf [OF ok R wf] wf_view_now by blast
    then show ?thesis using rest True t by (simp add: value_of_put)
  next
    case False
    then have "requireExistingBundle (store c) ?k (pr_Bundle p) t = (Inr (), s')" using rest by simp
    from requireExistingBundle_get [OF this] obtain q where q: "kv_Get (store c) ?k t = (q, s')"
      and found: "\<exists>val. q = Inr val \<and> val_Exists val \<and> val_Data val = pr_Bundle p"
      by blast
    from found get [OF ok wft q] show ?thesis
      by (auto simp: Value_of_def value_of_def split: option.split_asm)
  qed
qed

text \<open>The last call: the swap happens on a version that still has the captured pointer.\<close>

lemma commit_cases:
  assumes ok: "promises R c view" and wf: "wf_view (view s)"
    and run: "commit_active (store c) md ac s = (r, s')"
  obtains (no_op) "r = Inr OutcomeNoOp" "s' = s" "ac_Exists ac" "ac_Generation ac = md_Generation md"
    | (swapped) q where "conditional R (\<lambda>v. condition_holds v (md_ActiveKey md) ac)
        (put (md_ActiveKey md) (md_Generation md)) (view s) q (view s')"
      "r = (case q of Inl e \<Rightarrow> Inl (PublishSwap e)
        | Inr updated \<Rightarrow> if \<not> updated then Inl ActiveChanged else Inr OutcomePublished)"
      "\<not> (ac_Exists ac \<and> ac_Generation ac = md_Generation md)"
proof (cases "ac_Exists ac \<and> ac_Generation ac = md_Generation md")
  case True
  then show ?thesis using run no_op by (simp add: commit_active_def)
next
  case False
  have "call (kv_SwapActive (store c) (md_ActiveKey md) (md_Generation md) ac) PublishSwap
      (\<lambda>updated. done_with (if \<not> updated then Inl ActiveChanged else Inr OutcomePublished)) s = (r, s')"
    using run unfolding commit_active_def if_not_P [OF False] .
  then show ?thesis
  proof (cases rule: call_cases)
    case (failed e)
    show ?thesis by (rule swapped [OF swap [OF ok wf failed(1)] _ False]) (simp add: failed(2))
  next
    case (passed b t)
    have t: "t = s'" using passed(2) by simp
    show ?thesis
      by (rule swapped [OF swap [OF ok wf passed(1) [unfolded t]] _ False]) (use passed(2) in simp)
  qed
qed

text \<open>An invariant of the whole publication: staging keeps it, and so does a swap that finds the bundle stored.\<close>

lemma publication_invariant:
  assumes ok: "promises R c view" and wf: "wf_view (view s)"
    and run: "stage_and_commit (store c) p s = (r, s')"
    and P: "stable R P" "P (now (view s))"
    and stored: "stable R (\<lambda>v. value_of v (md_BundleKey (pr_Metadata p)) = Some (pr_Bundle p)) \<or> \<not> needs"
    and put_bundle: "\<And>v. wf_version v \<Longrightarrow> lookup v (md_BundleKey (pr_Metadata p)) = None \<Longrightarrow> P v \<Longrightarrow>
      P (put (md_BundleKey (pr_Metadata p)) (pr_Bundle p) v)"
    and put_active: "\<And>v. wf_version v \<Longrightarrow> P v \<Longrightarrow>
      (needs \<Longrightarrow> value_of v (md_BundleKey (pr_Metadata p)) = Some (pr_Bundle p)) \<Longrightarrow>
      P (put (md_ActiveKey (pr_Metadata p)) (md_Generation (pr_Metadata p)) v)"
  shows "wf_view (view s') \<and> P (now (view s'))"
proof -
  let ?Q = "\<lambda>v. needs \<longrightarrow> value_of v (md_BundleKey (pr_Metadata p)) = Some (pr_Bundle p)"
  have Q: "stable R ?Q" using stored unfolding stable_def by blast
  from run show ?thesis
    unfolding stage_and_commit_staging
  proof (cases rule: call_cases)
    case (failed e)
    then show ?thesis using staging_invariant [OF ok wf failed(1) P put_bundle] by blast
  next
    case (passed u t)
    have t: "wf_view (view t)" "P (now (view t))" "?Q (now (view t))"
      using staging_invariant [OF ok wf passed(1) P put_bundle] staging_stored [OF ok wf] passed(1)
      by auto
    from passed(2) show ?thesis
    proof (cases rule: call_cases)
      case (failed e)
      obtain q where "kv_Get (store c) (md_ActiveKey (pr_Metadata p)) t = (q, s')"
        using captureActive_get [OF failed(1)] by blast
      then show ?thesis using get_wf [OF ok t(1)] get_invariant [OF ok t(1) _ P(1) t(2)] by blast
    next
      case (passed ac w)
      obtain q where g: "kv_Get (store c) (md_ActiveKey (pr_Metadata p)) t = (q, w)"
        using captureActive_get [OF passed(1)] by blast
      have w: "wf_view (view w)" "P (now (view w))" "?Q (now (view w))"
        using get_wf [OF ok t(1) g] get_invariant [OF ok t(1) g P(1) t(2)]
          get_invariant [OF ok t(1) g Q t(3)] by blast+
      have PQ: "stable R (\<lambda>v. P v \<and> ?Q v)" using P(1) Q unfolding stable_def by blast
      from ok w(1) passed(2) show ?thesis
      proof (cases rule: commit_cases)
        case no_op
        then show ?thesis using w by simp
      next
        case (swapped q)
        note c = swapped(1)
        obtain vs where vs: "R (view w) vs" "view s' = vs \<or> view s' = advance
            (put (md_ActiveKey (pr_Metadata p)) (md_Generation (pr_Metadata p))) vs"
          using conditional_cases [OF c] by blast
        have "wf_version (now vs)" using others_wf [OF ok vs(1) w(1)] wf_view_now by blast
        moreover have "P (now vs)" "?Q (now vs)"
          using stableD [OF P(1) w(1) vs(1)] stableD [OF Q w(1) vs(1)] w by blast+
        ultimately have "P (now (view s'))" using vs(2) put_active by auto
        then show ?thesis using conditional_wf [OF ok w(1) c] by blast
      qed
    qed
  qed
qed

end

section \<open>Publication\<close>

text \<open>\<open>Publish\<close> refuses without any call, or its calls are those of \<open>stage_and_commit\<close>.\<close>

lemma Publish_cases:
  assumes L: "crypto_ok L" and run: "Publish L kv p s = (r, s')"
  obtains (refused) "s' = s" "\<not> is_ok r"
    | (accepted) keys m files where "valid_pack L p keys m files" "md_EtcdPrefix (pr_Metadata p) = kv_Prefix kv"
        "md_ActiveKey (pr_Metadata p) = kv_ActiveKey kv (md_TargetID (pr_Metadata p))"
        "md_BundleKey (pr_Metadata p) = kv_BundleKey kv (md_TargetID (pr_Metadata p)) (md_Generation (pr_Metadata p))"
        "stage_and_commit kv p s = (r, s')"
proof (cases "Pack_Validate L p")
  case (Inl e)
  then show ?thesis using run refused by (auto simp: Publish_def call_def done_with_def)
next
  case (Inr u)
  then obtain keys m files where v: "valid_pack L p keys m files"
    using Pack_Validate_ok [OF L, of p] by auto
  consider "md_EtcdPrefix (pr_Metadata p) \<noteq> kv_Prefix kv \<or>
      md_ActiveKey (pr_Metadata p) \<noteq> kv_ActiveKey kv (md_TargetID (pr_Metadata p)) \<or>
      md_BundleKey (pr_Metadata p) \<noteq> kv_BundleKey kv (md_TargetID (pr_Metadata p)) (md_Generation (pr_Metadata p))"
    | "md_EtcdPrefix (pr_Metadata p) = kv_Prefix kv"
      "md_ActiveKey (pr_Metadata p) = kv_ActiveKey kv (md_TargetID (pr_Metadata p))"
      "md_BundleKey (pr_Metadata p) = kv_BundleKey kv (md_TargetID (pr_Metadata p)) (md_Generation (pr_Metadata p))"
    by blast
  then show ?thesis
  proof cases
    case 1
    then have "s' = s" "\<not> is_ok r"
      using run Inr by (auto simp: Publish_def call_def done_with_def Let_def split: if_split_asm)
    then show ?thesis by (rule refused)
  next
    case 2
    then have "stage_and_commit kv p s = (r, s')"
      using run Inr by (simp add: Publish_def call_def done_with_def Let_def)
    with v 2 show ?thesis by (rule accepted)
  qed
qed

lemma valid_pack_keys:
  assumes "valid_pack L p keys m files"
  shows "SafeName (md_TargetID (pr_Metadata p))"
    "md_ActiveKey (pr_Metadata p) = Keys_ActiveKey keys (md_TargetID (pr_Metadata p))"
    "md_BundleKey (pr_Metadata p) = Keys_BundleKey keys (md_TargetID (pr_Metadata p)) (md_Generation (pr_Metadata p))"
    "md_ActiveKey (pr_Metadata p) \<noteq> md_BundleKey (pr_Metadata p)"
    "wf_keys keys"
proof -
  show t: "SafeName (md_TargetID (pr_Metadata p))"
    and a: "md_ActiveKey (pr_Metadata p) = Keys_ActiveKey keys (md_TargetID (pr_Metadata p))"
    and b: "md_BundleKey (pr_Metadata p) = Keys_BundleKey keys (md_TargetID (pr_Metadata p)) (md_Generation (pr_Metadata p))"
    using assms by (auto simp: valid_pack_def Let_def)
  show "md_ActiveKey (pr_Metadata p) \<noteq> md_BundleKey (pr_Metadata p)"
    unfolding a b by (rule ActiveKey_not_BundleKey_any [OF t t])
  show "wf_keys keys" using assms NewKeys_Inr(1) by (auto simp: valid_pack_def Let_def)
qed

text \<open>Others that leave one stored value alone.\<close>

definition keeps :: "(view \<Rightarrow> view \<Rightarrow> bool) \<Rightarrow> string \<Rightarrow> string \<Rightarrow> bool" where
  "keeps R key val \<longleftrightarrow> stable R (\<lambda>v. value_of v key = Some val)"

context publisher_store begin

lemma publish_no_dangling:
  assumes L: "crypto_ok L" and ok: "promises R c view" and wf: "wf_view (view s)"
    and run: "Publish L (store c) p s = (r, s')"
    and keep: "keeps R (md_BundleKey (pr_Metadata p)) (pr_Bundle p)"
    and k: "NewKeys (md_EtcdPrefix (pr_Metadata p)) = Inr k"
    and others: "stable R (no_dangling k)" and before: "no_dangling k (now (view s))"
  shows "no_dangling k (now (view s'))"
  using L run
proof (cases rule: Publish_cases)
  case refused
  then show ?thesis using before by simp
next
  case (accepted keys m files)
  have keys: "keys = k" using accepted(1) k by (simp add: valid_pack_def Let_def)
  note vp = valid_pack_keys [OF accepted(1), unfolded keys]
  have "wf_view (view s') \<and> no_dangling k (now (view s'))"
  proof (rule publication_invariant [OF ok wf accepted(5), where needs = True])
    show "stable R (no_dangling k)" by (rule others)
    show "no_dangling k (now (view s))" by (rule before)
    show "stable R (\<lambda>v. value_of v (md_BundleKey (pr_Metadata p)) = Some (pr_Bundle p)) \<or> \<not> True"
      using keep by (simp add: keeps_def)
    show "no_dangling k (put (md_BundleKey (pr_Metadata p)) (pr_Bundle p) v)"
      if "wf_version v" "no_dangling k v" for v
      unfolding vp(3) by (rule no_dangling_put_bundle [OF that vp(1)])
    show "no_dangling k (put (md_ActiveKey (pr_Metadata p)) (md_Generation (pr_Metadata p)) v)"
      if "wf_version v" "no_dangling k v" "True \<Longrightarrow> value_of v (md_BundleKey (pr_Metadata p)) = Some (pr_Bundle p)" for v
      unfolding vp(2) by (rule no_dangling_put_active [OF that(1,2) vp(1)]) (use that(3) vp(3) in simp)
  qed
  then show ?thesis by blast
qed

lemma publish_keeps_others:
  assumes L: "crypto_ok L" and ok: "promises R c view" and wf: "wf_view (view s)"
    and run: "Publish L (store c) p s = (r, s')"
    and keep: "keeps R key val" and val: "value_of (now (view s)) key = Some val"
    and other: "key \<noteq> md_ActiveKey (pr_Metadata p)"
  shows "value_of (now (view s')) key = Some val"
  using L run
proof (cases rule: Publish_cases)
  case refused
  then show ?thesis using val by simp
next
  case (accepted keys m files)
  have "wf_view (view s') \<and> value_of (now (view s')) key = Some val"
  proof (rule publication_invariant [OF ok wf accepted(5), where needs = False])
    show "stable R (\<lambda>v. value_of v key = Some val)" using keep by (simp add: keeps_def)
    show "value_of (put (md_BundleKey (pr_Metadata p)) (pr_Bundle p) v) key = Some val"
      if "wf_version v" "lookup v (md_BundleKey (pr_Metadata p)) = None" "value_of v key = Some val" for v
      using that by (auto simp: value_of_put) (simp add: value_of_def)
    show "value_of (put (md_ActiveKey (pr_Metadata p)) (md_Generation (pr_Metadata p)) v) key = Some val"
      if "wf_version v" "value_of v key = Some val" for v
      using that other by (simp add: value_of_put)
  qed (use val in auto)
  then show ?thesis by blast
qed

text \<open>The steps of a successful publication.\<close>

lemma publish_success:
  assumes L: "crypto_ok L" and ok: "promises R c view" and wf: "wf_view (view s)"
    and run: "Publish L (store c) p s = (Inr out, s')"
  defines "md \<equiv> pr_Metadata p"
  obtains t u ac where "wf_view (view t)" "wf_view (view u)" "R (view t) (view u)"
    "value_of (now (view t)) (md_BundleKey md) = Some (pr_Bundle p)"
    "ac_Exists ac \<longleftrightarrow> lookup (now (view u)) (md_ActiveKey md) \<noteq> None"
    "ac_Exists ac \<Longrightarrow> value_of (now (view u)) (md_ActiveKey md) = Some (ac_Generation ac)"
    "condition_holds (now (view u)) (md_ActiveKey md) ac"
    "commit_active (store c) md ac u = (Inr out, s')"
    "staging c p s = (Inr (), t)" "captureActive (store c) (md_ActiveKey md) t = (Inr ac, u)"
  using L run
proof (cases rule: Publish_cases)
  case refused
  then show ?thesis by simp
next
  case (accepted keys m files)
  then obtain t ac u where st: "staging c p s = (Inr (), t)"
    and cap: "captureActive (store c) (md_ActiveKey md) t = (Inr ac, u)"
    and com: "commit_active (store c) md ac u = (Inr out, s')"
    unfolding stage_and_commit_staging md_def by (auto simp: call_Inr)
  have wft: "wf_view (view t)"
    using staging_invariant [OF ok wf st, of "\<lambda>_. True"] by (simp add: stable_def)
  obtain val where g: "kv_Get (store c) (md_ActiveKey md) t = (Inr val, u)"
    and ac: "ac = \<lparr>ac_Generation = val_Data val, ac_ModRevision = val_ModRevision val, ac_Exists = val_Exists val\<rparr>"
    using captureActive_get [OF cap] by auto
  have "R (view t) (view u)" and val: "val = Value_of (lookup (now (view u)) (md_ActiveKey md))"
    using get [OF ok wft g] by auto
  with captured_condition [OF val [symmetric] ac] show ?thesis
    using that [OF wft get_wf [OF ok wft g]] com staging_stored [OF ok wf st] st cap by (simp add: md_def)
qed

lemma publish_commits:
  assumes L: "crypto_ok L" and ok: "promises R c view" and wf: "wf_view (view s)"
    and run: "Publish L (store c) p s = (Inr out, s')"
    and keep: "keeps R (md_BundleKey (pr_Metadata p)) (pr_Bundle p)"
  shows "value_of (now (view s')) (md_ActiveKey (pr_Metadata p)) = Some (md_Generation (pr_Metadata p)) \<and>
    value_of (now (view s')) (md_BundleKey (pr_Metadata p)) = Some (pr_Bundle p)"
proof -
  let ?md = "pr_Metadata p"
  obtain keys m files where "valid_pack L p keys m files"
    using L run by (cases rule: Publish_cases) auto
  note ne = valid_pack_keys(4) [OF this]
  obtain t u ac where *: "wf_view (view t)" "wf_view (view u)" "R (view t) (view u)"
    "value_of (now (view t)) (md_BundleKey ?md) = Some (pr_Bundle p)"
    "ac_Exists ac \<Longrightarrow> value_of (now (view u)) (md_ActiveKey ?md) = Some (ac_Generation ac)"
    "commit_active (store c) ?md ac u = (Inr out, s')"
    using publish_success [OF L ok wf run] by metis
  have bu: "value_of (now (view u)) (md_BundleKey ?md) = Some (pr_Bundle p)"
    using stableD [OF keep [unfolded keeps_def] *(1,3,4)] .
  from ok *(2,6) show ?thesis
  proof (cases rule: commit_cases)
    case no_op
    then show ?thesis using *(5) bu by simp
  next
    case (swapped q)
    have "q = Inr True" using swapped(2) by (cases q) (auto split: if_split_asm)
    with swapped(1) obtain vs where R: "R (view u) vs"
      and s': "view s' = advance (put (md_ActiveKey ?md) (md_Generation ?md)) vs"
      using conditional_done by blast
    have "wf_version (now vs)" using others_wf [OF ok R *(2)] wf_view_now by blast
    moreover have "value_of (now vs) (md_BundleKey ?md) = Some (pr_Bundle p)"
      using stableD [OF keep [unfolded keeps_def] *(2) R bu] .
    ultimately show ?thesis using ne by (simp add: s' value_of_put)
  qed
qed

lemma publish_swaps:
  assumes L: "crypto_ok L" and ok: "promises R c view" and wf: "wf_view (view s)"
    and run: "Publish L (store c) p s = (Inr OutcomePublished, s')"
  shows "\<exists>t ac u vs. staging c p s = (Inr (), t) \<and>
    captureActive (store c) (md_ActiveKey (pr_Metadata p)) t = (Inr ac, u) \<and>
    kv_SwapActive (store c) (md_ActiveKey (pr_Metadata p)) (md_Generation (pr_Metadata p)) ac u = (Inr True, s') \<and>
    condition_holds (now (view u)) (md_ActiveKey (pr_Metadata p)) ac \<and> R (view u) vs \<and>
    value_of (now (view u)) (md_ActiveKey (pr_Metadata p)) \<noteq> Some (md_Generation (pr_Metadata p)) \<and>
    lookup (now vs) (md_ActiveKey (pr_Metadata p)) = lookup (now (view u)) (md_ActiveKey (pr_Metadata p)) \<and>
    view s' = advance (put (md_ActiveKey (pr_Metadata p)) (md_Generation (pr_Metadata p))) vs"
proof -
  let ?md = "pr_Metadata p"
  obtain t u ac where run2: "staging c p s = (Inr (), t)" "captureActive (store c) (md_ActiveKey ?md) t = (Inr ac, u)"
    and *: "wf_view (view u)" "ac_Exists ac \<longleftrightarrow> lookup (now (view u)) (md_ActiveKey ?md) \<noteq> None"
    "ac_Exists ac \<Longrightarrow> value_of (now (view u)) (md_ActiveKey ?md) = Some (ac_Generation ac)"
    "condition_holds (now (view u)) (md_ActiveKey ?md) ac"
    "commit_active (store c) ?md ac u = (Inr OutcomePublished, s')"
    using publish_success [OF L ok wf run] by metis
  from ok *(1,5) show ?thesis
  proof (cases rule: commit_cases)
    case (swapped q)
    have "q = Inr True" using swapped(2) by (cases q) (auto split: if_split_asm)
    with swapped(1) obtain vs where R: "R (view u) vs" and held: "condition_holds (now vs) (md_ActiveKey ?md) ac"
      and s': "view s' = advance (put (md_ActiveKey ?md) (md_Generation ?md)) vs"
      using conditional_done by blast
    have ne: "\<not> (ac_Exists ac \<and> ac_Generation ac = md_Generation ?md)" by (rule swapped(3))
    have swap: "kv_SwapActive (store c) (md_ActiveKey ?md) (md_Generation ?md) ac u = (Inr True, s')"
      using *(5) unfolding commit_active_def if_not_P [OF ne] by (auto simp: call_Inr split: if_split_asm)
    have w: "writes (view u) vs" using others_writes [OF others [OF ok] R] .
    have same: "lookup (now vs) (md_ActiveKey ?md) = lookup (now (view u)) (md_ActiveKey ?md)"
    proof (cases "ac_Exists ac")
      case True
      then obtain e e' where "lookup (now (view u)) (md_ActiveKey ?md) = Some e"
        "lookup (now vs) (md_ActiveKey ?md) = Some e'" "kv_ModRevision e' = kv_ModRevision e"
        using *(4) held by (auto simp: condition_holds_def)
      with no_aba [OF w *(1)] show ?thesis by simp
    next
      case False
      then show ?thesis using *(2) held by (simp add: condition_holds_def)
    qed
    have "value_of (now (view u)) (md_ActiveKey ?md) \<noteq> Some (md_Generation ?md)"
      using swapped(3) *(2,3) by (cases "ac_Exists ac") (auto simp: value_of_def)
    with run2 swap *(4) R same s' show ?thesis by blast
  qed simp
qed

end

end
