(* ===== verification/Sample_Etcd.thy ===== *)
theory Sample_Etcd
  imports Etcd_Api
begin

text \<open>
  A concrete etcd service that keeps the promises of \<open>etcd_ok\<close>, at which the witnesses run the
  code. Its state carries a script: for each call, what other clients write before it and whether
  the call fails, unexecuted or executed with its answer lost. Writes of others that
  \<open>allowed\<close> forbids are skipped, so that a witness can also bound what the others do.
\<close>

datatype other_write = OtherPut string string | OtherDelete string

datatype fault = NoFault | Lost | Unacked

record script_state =
  sc_view :: view
  sc_script :: "(other_write list \<times> fault) list"

definition other_write_step :: "(other_write \<Rightarrow> bool) \<Rightarrow> view \<Rightarrow> other_write \<Rightarrow> view" where
  "other_write_step allowed vs w =
     (if \<not> allowed w then vs
      else case w of
        OtherPut key val \<Rightarrow> advance (put key val) vs
      | OtherDelete key \<Rightarrow> advance (delete_where (\<lambda>k. k = key)) vs)"

definition next_entry ::
  "(other_write \<Rightarrow> bool) \<Rightarrow> script_state \<Rightarrow> view \<times> fault \<times> (other_write list \<times> fault) list" where
  "next_entry allowed s =
     (case sc_script s of
        [] \<Rightarrow> (sc_view s, NoFault, [])
      | (ws, f) # rest \<Rightarrow> (foldl (other_write_step allowed) (sc_view s) ws, f, rest))"

definition script_Get ::
  "(other_write \<Rightarrow> bool) \<Rightarrow> string \<Rightarrow> GetOptions \<Rightarrow> (script_state, etcd_failure, GetResponse) io" where
  "script_Get allowed key opts s =
     (case next_entry allowed s of (vs, f, rest) \<Rightarrow>
        (if f \<noteq> NoFault then Inl ''unavailable''
         else case version_at (opt_Rev opts) vs of
           None \<Rightarrow> Inl ''no such revision''
         | Some v \<Rightarrow> Inr \<lparr>resp_Revision = v_Revision (now vs), resp_Kvs = selected key opts v\<rparr>,
         \<lparr>sc_view = vs, sc_script = rest\<rparr>))"

definition script_Txn ::
  "(other_write \<Rightarrow> bool) \<Rightarrow> Cmp list \<Rightarrow> Op \<Rightarrow> (script_state, etcd_failure, bool) io" where
  "script_Txn allowed cmps op s =
     (case next_entry allowed s of (vs, f, rest) \<Rightarrow>
        (if f = NoFault then Inr (list_all (cmp_holds (now vs)) cmps) else Inl ''unavailable'',
         \<lparr>sc_view = (if f = Lost then vs else txn cmps op vs), sc_script = rest\<rparr>))"

definition script_Delete :: "(other_write \<Rightarrow> bool) \<Rightarrow> string \<Rightarrow> (script_state, etcd_failure, int) io" where
  "script_Delete allowed prefix s =
     (case next_entry allowed s of (vs, f, rest) \<Rightarrow>
        (if f = NoFault
         then Inr (int (length (filter (\<lambda>e. HasPrefix (kv_Key e) prefix) (v_Kvs (now vs)))))
         else Inl ''unavailable'',
         \<lparr>sc_view = (if f = Lost then vs else advance (delete_where (\<lambda>k. HasPrefix k prefix)) vs),
          sc_script = rest\<rparr>))"

definition script_etcd :: "(other_write \<Rightarrow> bool) \<Rightarrow> script_state clientv3" where
  "script_etcd allowed =
     \<lparr>cv_Get = script_Get allowed, cv_Txn = script_Txn allowed, cv_Delete = script_Delete allowed\<rparr>"

text \<open>What the others of a script may do.\<close>

definition allowed_writes :: "(other_write \<Rightarrow> bool) \<Rightarrow> view \<Rightarrow> view \<Rightarrow> bool" where
  "allowed_writes allowed u v \<longleftrightarrow> (\<exists>ws. v = foldl (other_write_step allowed) u ws)"

lemma other_write_steps: "writes u (foldl (other_write_step allowed) u ws)"
proof (induction ws rule: rev_induct)
  case (snoc w ws)
  have "writes v (other_write_step allowed v w)" for v
    by (auto simp: other_write_step_def intro: write_step.intros split: other_write.split)
  with snoc show ?case by (simp add: rtranclp_trans)
qed simp

lemma allowed_writes_others: "others_ok (allowed_writes allowed)"
proof -
  have "allowed_writes allowed v v" for v
    unfolding allowed_writes_def by (rule exI [of _ "[]"]) simp
  moreover have "allowed_writes allowed u v \<Longrightarrow> allowed_writes allowed v w \<Longrightarrow> allowed_writes allowed u w"
    for u v w
    unfolding allowed_writes_def by (metis foldl_append)
  moreover have "allowed_writes allowed u v \<Longrightarrow> writes u v" for u v
    using other_write_steps by (auto simp: allowed_writes_def)
  ultimately show ?thesis unfolding others_ok_def by blast
qed

lemma next_entry_others:
  "next_entry allowed s = (vs, f, rest) \<Longrightarrow> allowed_writes allowed (sc_view s) vs"
  using others_refl [OF allowed_writes_others]
  by (auto simp: next_entry_def allowed_writes_def split: list.splits prod.splits)

lemma script_etcd_ok: "etcd_ok (allowed_writes allowed) (script_etcd allowed) sc_view"
proof -
  have "get_promise (allowed_writes allowed) (script_etcd allowed) sc_view"
    by (auto simp: get_promise_def script_etcd_def script_Get_def
        split: prod.splits option.splits if_splits dest: next_entry_others)
  moreover have "txn_promise (allowed_writes allowed) (script_etcd allowed) sc_view"
    by (fastforce simp: txn_promise_def script_etcd_def script_Txn_def
        split: prod.splits if_splits dest: next_entry_others)
  moreover have "delete_promise (allowed_writes allowed) (script_etcd allowed) sc_view"
    by (fastforce simp: delete_promise_def script_etcd_def script_Delete_def Let_def
        split: prod.splits if_splits dest: next_entry_others)
  ultimately show ?thesis using allowed_writes_others by (simp add: etcd_ok_def)
qed

text \<open>Others that never touch certain keys keep what these hold.\<close>

fun write_key :: "other_write \<Rightarrow> string" where
  "write_key (OtherPut key val) = key"
| "write_key (OtherDelete key) = key"

definition empty_view :: view where
  "empty_view = [\<lparr>v_Revision = 1, v_Kvs = []\<rparr>]"

lemma wf_empty_view: "wf_view empty_view"
  by (simp add: empty_view_def wf_view_def wf_version_def)

end
