(* ===== verification/Publish_Properties.thy ===== *)
theory Publish_Properties
  imports Publisher Pack_Properties Sample_Etcd
begin

text \<open>
  The properties of publishing through the etcd client, with their witnesses on a concrete service
  and a concrete pack. \<open>R\<close> is what the other clients of the service may do between two calls.
\<close>

section \<open>A sample publication\<close>

definition script_client :: "(other_write \<Rightarrow> bool) \<Rightarrow> script_state Client" where
  "script_client allowed = \<lparr>cl_client = script_etcd allowed, cl_keys = DefaultKeys\<rparr>"

definition fresh :: "(other_write list \<times> fault) list \<Rightarrow> script_state" where
  "fresh script = \<lparr>sc_view = empty_view, sc_script = script\<rparr>"

lemma script_client_ok: "client_ok (allowed_writes allowed) (script_client allowed) sc_view"
  by (simp add: client_ok_def script_client_def script_etcd_ok)

definition web_pack :: PackResult where
  "web_pack = (case sample_pack ''/pemcast'' of Some p \<Rightarrow> p
     | None \<Rightarrow> \<lparr>pr_Metadata = undefined, pr_Bundle = [], pr_StageTxn = []\<rparr>)"

abbreviation (input) web_bundle :: string where
  "web_bundle \<equiv> md_BundleKey (pr_Metadata web_pack)"

abbreviation (input) web_active :: string where
  "web_active \<equiv> md_ActiveKey (pr_Metadata web_pack)"

lemma NewKeys_default: "NewKeys ''/pemcast'' = Inr DefaultKeys"
  by code_simp

lemma web_pack_built:
  "Build sample_crypto (\<lambda>_. False) sample_reader (sample_options ''/pemcast'') = Inr web_pack"
  "md_EtcdPrefix (pr_Metadata web_pack) = ''/pemcast''"
  using sample_builds [OF NewKeys_default]
  by (auto simp: web_pack_def Keys_Prefix_def DefaultKeys_def DefaultPrefix_def)

lemma web_pack_valid: "\<exists>m files. valid_pack sample_crypto web_pack DefaultKeys m files"
  using Build_valid_pack [OF web_pack_built(1)] NewKeys_default
  by (simp add: sample_options_def Keys_Prefix_def DefaultKeys_def DefaultPrefix_def)

lemma web_pack_keys:
  "md_BundleKey (pr_Metadata web_pack) =
     Keys_BundleKey DefaultKeys (md_TargetID (pr_Metadata web_pack)) (md_Generation (pr_Metadata web_pack))"
  "md_ActiveKey (pr_Metadata web_pack) = Keys_ActiveKey DefaultKeys (md_TargetID (pr_Metadata web_pack))"
  "web_active \<noteq> web_bundle"
  "SafeName (md_TargetID (pr_Metadata web_pack))"
  using web_pack_valid valid_pack_keys by blast+

lemma web_publish:
  "Publish sample_crypto (Client_kv (script_client allowed)) web_pack s =
     stage_and_commit (Client_kv (script_client allowed)) web_pack s"
proof -
  have "is_ok (Pack_Validate sample_crypto web_pack)"
    using web_pack_valid Pack_Validate_ok [OF sample_crypto_ok] by blast
  then have "Pack_Validate sample_crypto web_pack = Inr ()" by (simp add: unit_ok)
  then show ?thesis
    using web_pack_keys(1,2) web_pack_built(2)
    by (simp add: Publish_def call_def done_with_def Let_def Client_kv_def script_client_def
        Keys_Prefix_def DefaultKeys_def DefaultPrefix_def)
qed

lemmas script_run =
  stage_and_commit_def commit_active_def captureActive_def requireExistingBundle_def call_def done_with_def
  Client_kv_def script_client_def script_etcd_def Client_StageBundleIfAbsent_def Client_Get_def
  Client_SwapActive_def script_Txn_def script_Get_def next_entry_def fresh_def empty_view_def
  txn_def cmp_holds_def lookup_def value_of_def now_def advance_def put_def apply_op_def first_value_def selected_def
  exact_def version_at_def activeComparison_def Let_def

text \<open>On an empty service that nobody else uses, the publication commits.\<close>

lemma web_published:
  "\<exists>s'. Publish sample_crypto (Client_kv (script_client allowed)) web_pack (fresh []) = (Inr OutcomePublished, s')"
  unfolding web_publish using web_pack_keys(3) by (simp add: script_run)

definition spares_web :: "other_write \<Rightarrow> bool" where
  "spares_web w \<longleftrightarrow> write_key w \<notin> {web_bundle, web_active}"

lemma allowed_stable:
  assumes step: "\<And>u w. allowed w \<Longrightarrow> wf_view u \<Longrightarrow> P (now u) \<Longrightarrow> P (now (other_write_step allowed u w))"
  shows "stable (allowed_writes allowed) P"
proof -
  have "P (now (foldl (other_write_step allowed) u ws))" if "wf_view u" "P (now u)" for u ws
  proof (induction ws rule: rev_induct)
    case (snoc w ws)
    let ?v = "foldl (other_write_step allowed) u ws"
    have "wf_view ?v" using writes_wf [OF other_write_steps] that(1) .
    moreover have "other_write_step allowed ?v w = ?v" if "\<not> allowed w"
      using that by (simp add: other_write_step_def)
    moreover have "foldl (other_write_step allowed) u (ws @ [w]) = other_write_step allowed ?v w" by simp
    ultimately show ?case using step [of w ?v] snoc by metis
  qed (use that in simp)
  then show ?thesis unfolding stable_def allowed_writes_def by blast
qed

lemma spares_keeps:
  assumes "\<And>w. allowed w \<Longrightarrow> write_key w \<noteq> key"
  shows "keeps (allowed_writes allowed) key val"
  unfolding keeps_def
proof (rule allowed_stable)
  fix u w assume "allowed w" "wf_view u" "value_of (now u) key = Some val"
  then show "value_of (now (other_write_step allowed u w)) key = Some val"
    using assms [of w] wf_view_now [of u]
    by (cases w) (auto simp: other_write_step_def value_of_put value_of_delete_where)
qed

definition quiet :: "other_write \<Rightarrow> bool" where
  "quiet w = False"

lemma quiet_stable: "stable (allowed_writes quiet) P"
  by (rule allowed_stable) (simp add: quiet_def)

lemma quiet_same: "allowed_writes quiet u v \<Longrightarrow> v = u"
proof -
  have "foldl (other_write_step quiet) u ws = u" for ws
    by (induction ws arbitrary: u) (simp_all add: other_write_step_def quiet_def)
  then show "allowed_writes quiet u v \<Longrightarrow> v = u" by (auto simp: allowed_writes_def)
qed

lemma fresh_view [simp]: "sc_view (fresh script) = empty_view" "wf_view (sc_view (fresh script))"
  by (simp_all add: fresh_def wf_empty_view)

lemma empty_value [simp]: "value_of (now empty_view) key = None"
  by (simp add: value_of_def lookup_def now_def empty_view_def)

lemma empty_no_dangling: "no_dangling k (now empty_view)"
  by (simp add: no_dangling_def)

section \<open>Properties\<close>

text \<open>C2: a successful publication has happened. When \<open>Publish\<close> reports that it published, or that
  there was nothing to do, the store holds the pack's exact bytes under the bundle key and the
  pack's generation under the active key, whatever other clients did meanwhile short of replacing
  that bundle.\<close>

theorem Publish_commits:
  assumes "crypto_ok L" "client_ok R c view" "wf_view (view s)"
    and "keeps R (md_BundleKey (pr_Metadata p)) (pr_Bundle p)"
    and "Publish L (Client_kv c) p s = (Inr out, s')"
  shows "value_of (now (view s')) (md_ActiveKey (pr_Metadata p)) = Some (md_Generation (pr_Metadata p)) \<and>
    value_of (now (view s')) (md_BundleKey (pr_Metadata p)) = Some (pr_Bundle p)"
  using etcd_publisher.publish_commits [OF assms(1-3,5,4)] .

lemma Publish_commits_witness:
  "\<exists>s'. Publish sample_crypto (Client_kv (script_client spares_web)) web_pack (fresh []) = (Inr OutcomePublished, s') \<and>
    value_of (now (sc_view s')) web_active = Some (md_Generation (pr_Metadata web_pack))"
proof -
  obtain s' where s': "Publish sample_crypto (Client_kv (script_client spares_web)) web_pack (fresh []) =
      (Inr OutcomePublished, s')"
    using web_published by blast
  have "keeps (allowed_writes spares_web) web_bundle (pr_Bundle web_pack)"
    by (rule spares_keeps) (simp add: spares_web_def)
  from Publish_commits [OF sample_crypto_ok script_client_ok fresh_view(2) this s'] s' show ?thesis by blast
qed

text \<open>C3: no update of the pointer is lost. A run of \<open>Publish\<close> that reports a publication stages the bundle
  (up to state \<open>t\<close>), reads the pointer (up to \<open>u\<close>) and swaps it, and nothing else. The condition of the swap is
  the entry of the active key that the read saw in \<open>u\<close>, which did not name the generation already; whatever
  other clients wrote between the read and the swap, the entry the swap overwrote in \<open>vs\<close>, with its revision, is
  this one.\<close>

theorem Publish_loses_no_update:
  assumes "crypto_ok L" "client_ok R c view" "wf_view (view s)"
    and "Publish L (Client_kv c) p s = (Inr OutcomePublished, s')"
  shows "\<exists>t ac u vs.
    call (kv_StageBundleIfAbsent (Client_kv c) (md_BundleKey (pr_Metadata p)) (pr_Bundle p)) PublishStage (\<lambda>created.
      if \<not> created then requireExistingBundle (Client_kv c) (md_BundleKey (pr_Metadata p)) (pr_Bundle p)
      else done_with (Inr ())) s = (Inr (), t) \<and>
    captureActive (Client_kv c) (md_ActiveKey (pr_Metadata p)) t = (Inr ac, u) \<and>
    kv_SwapActive (Client_kv c) (md_ActiveKey (pr_Metadata p)) (md_Generation (pr_Metadata p)) ac u = (Inr True, s') \<and>
    condition_holds (now (view u)) (md_ActiveKey (pr_Metadata p)) ac \<and> R (view u) vs \<and>
    value_of (now (view u)) (md_ActiveKey (pr_Metadata p)) \<noteq> Some (md_Generation (pr_Metadata p)) \<and>
    lookup (now vs) (md_ActiveKey (pr_Metadata p)) = lookup (now (view u)) (md_ActiveKey (pr_Metadata p)) \<and>
    view s' = advance (put (md_ActiveKey (pr_Metadata p)) (md_Generation (pr_Metadata p))) vs"
  using etcd_publisher.publish_swaps [OF assms] unfolding etcd_publisher.staging_def .

lemma Publish_loses_no_update_witness:
  "\<exists>s' t ac u vs. Publish sample_crypto (Client_kv (script_client quiet)) web_pack (fresh []) = (Inr OutcomePublished, s') \<and>
    captureActive (Client_kv (script_client quiet)) web_active t = (Inr ac, u) \<and>
    lookup (now vs) web_active = lookup (now (sc_view u)) web_active \<and>
    sc_view s' = advance (put web_active (md_Generation (pr_Metadata web_pack))) vs"
proof -
  obtain s' where s': "Publish sample_crypto (Client_kv (script_client quiet)) web_pack (fresh []) =
      (Inr OutcomePublished, s')"
    using web_published by blast
  from Publish_loses_no_update [OF sample_crypto_ok script_client_ok fresh_view(2) s'] s' show ?thesis by blast
qed

text \<open>C1: publishing never damages the namespace. Whatever \<open>Publish\<close> returns, an error of the
  service included, every active pointer has its bundle afterwards if every one had it before, as
  long as the other clients keep it that way and leave the staged bundle in place.\<close>

theorem Publish_no_dangling:
  assumes "crypto_ok L" "client_ok R c view" "wf_view (view s)"
    and "Publish L (Client_kv c) p s = (r, s')"
    and "keeps R (md_BundleKey (pr_Metadata p)) (pr_Bundle p)"
    and "NewKeys (md_EtcdPrefix (pr_Metadata p)) = Inr k"
    and "stable R (no_dangling k)" "no_dangling k (now (view s))"
  shows "no_dangling k (now (view s'))"
  using etcd_publisher.publish_no_dangling [OF assms] .

lemma Publish_no_dangling_witness:
  "\<exists>r s'. Publish sample_crypto (Client_kv (script_client quiet)) web_pack (fresh [([], NoFault), ([], Unacked)]) = (r, s') \<and>
    no_dangling DefaultKeys (now (sc_view s'))"
proof -
  let ?s = "fresh [([], NoFault), ([], Unacked)]"
  obtain r s' where run: "Publish sample_crypto (Client_kv (script_client quiet)) web_pack ?s = (r, s')"
    by (cases "Publish sample_crypto (Client_kv (script_client quiet)) web_pack ?s")
  have keys: "NewKeys (md_EtcdPrefix (pr_Metadata web_pack)) = Inr DefaultKeys"
    by (simp add: web_pack_built(2) NewKeys_default)
  have "keeps (allowed_writes quiet) web_bundle (pr_Bundle web_pack)"
    by (simp add: keeps_def quiet_stable)
  from Publish_no_dangling [OF sample_crypto_ok script_client_ok fresh_view(2) run this keys quiet_stable]
    run show ?thesis by (auto simp: empty_no_dangling)
qed

text \<open>C4: publishing changes nothing else. Whatever \<open>Publish\<close> returns, a key other than the pack's
  active key keeps the value it had; in particular an existing bundle is never overwritten.\<close>

theorem Publish_keeps_others:
  assumes "crypto_ok L" "client_ok R c view" "wf_view (view s)"
    and "Publish L (Client_kv c) p s = (r, s')"
    and "keeps R key val" "value_of (now (view s)) key = Some val" "key \<noteq> md_ActiveKey (pr_Metadata p)"
  shows "value_of (now (view s')) key = Some val"
  using etcd_publisher.publish_keeps_others [OF assms] .

lemma Publish_keeps_others_witness:
  "\<exists>r s'. Publish sample_crypto (Client_kv (script_client quiet)) web_pack
      \<lparr>sc_view = advance (put web_bundle ''other bytes'') empty_view, sc_script = []\<rparr> = (r, s') \<and>
    value_of (now (sc_view s')) web_bundle = Some ''other bytes''"
proof -
  define s where "s = \<lparr>sc_view = advance (put web_bundle ''other bytes'') empty_view, sc_script = []\<rparr>"
  obtain r s' where run: "Publish sample_crypto (Client_kv (script_client quiet)) web_pack s = (r, s')"
    by fastforce
  have view: "sc_view s = advance (put web_bundle ''other bytes'') empty_view" by (simp add: s_def)
  have wf: "wf_view (sc_view s)"
    unfolding view by (rule write_step_wf [OF put_step wf_empty_view])
  have val: "value_of (now (sc_view s)) web_bundle = Some ''other bytes''"
    unfolding view now_advance value_of_put [OF wf_view_now [OF wf_empty_view]] by (rule if_P) (rule refl)
  have keep: "keeps (allowed_writes quiet) web_bundle ''other bytes''"
    unfolding keeps_def by (rule quiet_stable)
  from Publish_keeps_others [OF sample_crypto_ok script_client_ok wf run keep val web_pack_keys(3) [symmetric]]
    run show ?thesis unfolding s_def by blast
qed

text \<open>C30: a pack that does not validate, or that is for another namespace, is refused before any
  call to the service.\<close>

theorem Publish_refuses:
  assumes "\<not> is_ok (Pack_Validate L p) \<or> md_EtcdPrefix (pr_Metadata p) \<noteq> kv_Prefix kv"
  shows "\<exists>e. Publish L kv p s = (Inl e, s)"
  using assms
  by (cases "Pack_Validate L p") (auto simp: Publish_def call_def done_with_def Let_def)

lemma Publish_refuses_witness:
  "\<exists>e. Publish sample_crypto (Client_kv (script_client quiet)) (web_pack\<lparr>pr_Bundle := ''{}''\<rparr>) (fresh []) =
    (Inl e, fresh [])"
proof -
  obtain m files where v: "valid_pack sample_crypto web_pack DefaultKeys m files" using web_pack_valid by blast
  have "\<not> is_ok (Pack_Validate sample_crypto (web_pack\<lparr>pr_Bundle := ''{}''\<rparr>))"
  proof
    assume "is_ok (Pack_Validate sample_crypto (web_pack\<lparr>pr_Bundle := ''{}''\<rparr>))"
    then obtain k m files where "valid_pack sample_crypto (web_pack\<lparr>pr_Bundle := ''{}''\<rparr>) k m files"
      using Pack_Validate_ok [OF sample_crypto_ok] by blast
    then have "is_ok (Decode sample_crypto ''{}'')" by (simp add: valid_pack_def Let_def)
    moreover have "\<not> is_ok (Decode sample_crypto ''{}'')" by code_simp
    ultimately show False by simp
  qed
  then show ?thesis by (rule Publish_refuses [OF disjI1])
qed

text \<open>C31: publishing races with deletion. The swap compares only the pointer, so when another client
  (a concurrent prune, say) deletes the bundle between its staging and the swap, \<open>Publish\<close> reports
  success and the pointer names a bundle that is gone.\<close>

theorem Publish_race:
  "\<exists>s'. Publish sample_crypto (Client_kv (script_client (\<lambda>_. True))) web_pack
      (fresh [([], NoFault), ([], NoFault), ([OtherDelete web_bundle], NoFault)]) = (Inr OutcomePublished, s') \<and>
    \<not> no_dangling DefaultKeys (now (sc_view s'))"
proof -
  let ?s = "fresh [([], NoFault), ([], NoFault), ([OtherDelete web_bundle], NoFault)]"
  let ?t = "md_TargetID (pr_Metadata web_pack)" and ?g = "md_Generation (pr_Metadata web_pack)"
  obtain s' where run: "Publish sample_crypto (Client_kv (script_client (\<lambda>_. True))) web_pack ?s = (Inr OutcomePublished, s')"
    and a: "value_of (now (sc_view s')) web_active = Some ?g" and b: "value_of (now (sc_view s')) web_bundle = None"
    unfolding web_publish using web_pack_keys(3)
    by (simp add: script_run other_write_step_def delete_where_def)
  have "\<not> no_dangling DefaultKeys (now (sc_view s'))"
    using a b web_pack_keys(4) unfolding no_dangling_def web_pack_keys(1,2) by blast
  with run show ?thesis by blast
qed

end
