(* ===== verification/Prune.thy ===== *)
theory Prune
  imports Publisher "HOL-Library.Product_Lexorder"
begin

text \<open>
  \<open>internal/prune\<close>: reporting bundles below a namespace and deleting identity bundles that are
  not active and have been expired for longer than the retention. A zero \<open>Now\<close> is \<open>None\<close>; the
  clock is an argument. On an error the code also returns the result so far, so an error is a pair.
\<close>

section \<open>Data\<close>

record PruneOptions =
  po_Prefix :: string
  po_Now :: "int option"
  po_Retention :: int
  po_Delete :: bool

record Item =
  it_TargetID :: string
  it_Generation :: string
  it_Type :: string
  it_EarliestNotAfter :: "int option"
  it_Eligible :: bool
  it_Status :: string

record PruneResult =
  pu_Prefix :: string
  pu_Retention :: int
  pu_Scanned :: nat
  pu_Eligible :: nat
  pu_Deleted :: nat
  pu_Items :: "Item list"

datatype prune_error =
    NegativeRetention
  | PrunePrefix keys_error
  | PruneClientPrefix string string
  | SnapshotPointers source_error
  | ListBundlesFailed source_error
  | InspectBundle string bundle_error
  | NoParsedIdentity string
  | DeleteFailed string source_error
  | PrunePointerChanged string

definition zero_result :: PruneResult where
  "zero_result = \<lparr>pu_Prefix = [], pu_Retention = 0, pu_Scanned = 0, pu_Eligible = 0, pu_Deleted = 0, pu_Items = []\<rparr>"

section \<open>The decision\<close>

fun earliest_loop :: "int \<Rightarrow> Certificate list \<Rightarrow> int" where
  "earliest_loop earliest [] = earliest"
| "earliest_loop earliest (c # cs) =
     earliest_loop (if c_NotAfter c < earliest then c_NotAfter c else earliest) cs"

definition inspectRecord ::
  "crypto \<Rightarrow> BundleRecord \<Rightarrow> ActivePointer \<Rightarrow> int \<Rightarrow> int \<Rightarrow> (prune_error, Item) result" where
  "inspectRecord L rec active t retention =
     and_then (Decode L (br_Data rec)) (InspectBundle (br_Key rec)) (\<lambda>(manifest, files, digest).
     and_then (Manifest_ValidateFiles L manifest files) (InspectBundle (br_Key rec)) (\<lambda>(certificates, _).
     and_then (ValidateGeneration (br_Generation rec) digest) (InspectBundle (br_Key rec)) (\<lambda>_.
     let item = \<lparr>it_TargetID = br_TargetID rec, it_Generation = br_Generation rec,
           it_Type = m_Type manifest, it_EarliestNotAfter = None, it_Eligible = False, it_Status = []\<rparr> in
     if ap_Generation active = br_Generation rec then Inr (item\<lparr>it_Status := ''active''\<rparr>)
     else if m_Type manifest = TypeTrust then Inr (item\<lparr>it_Status := ''trust-skipped''\<rparr>)
     else if ap_Generation active = [] then Inr (item\<lparr>it_Status := ''no-active-pointer''\<rparr>)
     else case certificates of
       [] \<Rightarrow> Inl (NoParsedIdentity (br_Key rec))
     | c # cs \<Rightarrow>
         (let earliest = earliest_loop (c_NotAfter c) cs;
              item = item\<lparr>it_EarliestNotAfter := Some earliest\<rparr> in
          if retention < time_Sub t earliest
          then Inr (item\<lparr>it_Eligible := True, it_Status := ''would-delete''\<rparr>)
          else Inr (item\<lparr>it_Status := ''retained''\<rparr>)))))"

section \<open>The scan\<close>

text \<open>What the loop does with one record: the result grows, or the scan ends with an error.\<close>

definition prune_record ::
  "crypto \<Rightarrow> 's kv \<Rightarrow> Keys \<Rightarrow> (string \<times> ActivePointer) list \<Rightarrow> int \<Rightarrow> PruneOptions \<Rightarrow> BundleRecord \<Rightarrow>
   PruneResult \<Rightarrow> ('s, prune_error \<times> PruneResult, PruneResult) io" where
  "prune_record L kv keys active t options rec res =
     call (done_with (inspectRecord L rec (pointer_get active (br_TargetID rec)) t (po_Retention options)))
       (\<lambda>e. (e, res)) (\<lambda>item.
     let res = (if it_Eligible item then res\<lparr>pu_Eligible := pu_Eligible res + 1\<rparr> else res) in
     if \<not> it_Eligible item \<or> \<not> po_Delete options
     then done_with (Inr (res\<lparr>pu_Items := pu_Items res @ [item]\<rparr>))
     else
       call (kv_DeleteBundleIfActiveUnchanged kv (br_Key rec) (Keys_ActiveKey keys (br_TargetID rec))
           \<lparr>ac_Generation = ap_Generation (pointer_get active (br_TargetID rec)),
            ac_ModRevision = ap_ModRevision (pointer_get active (br_TargetID rec)), ac_Exists = True\<rparr>)
         (\<lambda>e. (DeleteFailed (br_Key rec) e, res)) (\<lambda>deleted.
       if \<not> deleted then done_with (Inl (PrunePointerChanged (br_Key rec), res))
       else done_with (Inr (res\<lparr>pu_Deleted := pu_Deleted res + 1,
              pu_Items := pu_Items res @ [item\<lparr>it_Status := ''deleted''\<rparr>]\<rparr>))))"

fun prune_loop ::
  "crypto \<Rightarrow> 's kv \<Rightarrow> Keys \<Rightarrow> (string \<times> ActivePointer) list \<Rightarrow> int \<Rightarrow> PruneOptions \<Rightarrow> BundleRecord list \<Rightarrow>
   PruneResult \<Rightarrow> ('s, prune_error \<times> PruneResult, PruneResult) io" where
  "prune_loop L kv keys active t options [] res = done_with (Inr res)"
| "prune_loop L kv keys active t options (rec # recs) res =
     call (prune_record L kv keys active t options rec res) id (\<lambda>res.
     prune_loop L kv keys active t options recs res)"

definition sort_items :: "PruneResult \<Rightarrow> PruneResult" where
  "sort_items res = res\<lparr>pu_Items := sort_key (\<lambda>i. (it_TargetID i, it_Generation i)) (pu_Items res)\<rparr>"

definition Prune :: "crypto \<Rightarrow> int \<Rightarrow> 's kv \<Rightarrow> PruneOptions \<Rightarrow> ('s, prune_error \<times> PruneResult, PruneResult) io" where
  "Prune L clock kv options =
     (if po_Retention options < 0 then done_with (Inl (NegativeRetention, zero_result))
      else
        (let t = (case po_Now options of None \<Rightarrow> clock | Some t \<Rightarrow> t) in
         call (done_with (NewKeys (po_Prefix options))) (\<lambda>e. (PrunePrefix e, zero_result)) (\<lambda>keys.
         if kv_Prefix kv \<noteq> Keys_Prefix keys
         then done_with (Inl (PruneClientPrefix (kv_Prefix kv) (Keys_Prefix keys), zero_result))
         else
           call (kv_SnapshotActivePrefix kv (Keys_ActivePrefix keys)) (\<lambda>e. (SnapshotPointers e, zero_result)) (\<lambda>active.
           call (kv_ListBundleRecords kv (Keys_BundlePrefix keys)) (\<lambda>e. (ListBundlesFailed e, zero_result)) (\<lambda>recs.
           call (prune_loop L kv keys (ps_Active active) t options recs
               \<lparr>pu_Prefix = Keys_Prefix keys, pu_Retention = po_Retention options, pu_Scanned = length recs,
                pu_Eligible = 0, pu_Deleted = 0, pu_Items = []\<rparr>) id (\<lambda>res.
           done_with (Inr (sort_items res))))))))"

section \<open>What is eligible\<close>

definition earliest_expiry :: "Certificate list \<Rightarrow> int" where
  "earliest_expiry cs = Min (c_NotAfter ` set cs)"

lemma earliest_loop_Min: "earliest_loop m cs = Min (insert m (c_NotAfter ` set cs))"
proof (induction cs arbitrary: m)
  case (Cons c cs)
  have "earliest_loop m (c # cs) = earliest_loop (min (c_NotAfter c) m) cs" by (simp add: min_def)
  also have "\<dots> = Min (insert m (c_NotAfter ` set (c # cs)))"
    using Cons.IH by (cases "cs = []") (auto simp: min.assoc min.commute min.left_commute)
  finally show ?case .
qed simp

text \<open>A value that the prune may delete at all: an identity bundle expired beyond the retention.\<close>

definition prunable :: "crypto \<Rightarrow> int \<Rightarrow> int \<Rightarrow> bytes \<Rightarrow> bool" where
  "prunable L t retention data \<longleftrightarrow>
     (\<exists>m files digest cs leaf. Decode L data = Inr (m, files, digest) \<and>
        Manifest_ValidateFiles L m files = Inr (cs, leaf) \<and> m_Type m \<noteq> TypeTrust \<and> cs \<noteq> [] \<and>
        retention < time_Sub t (earliest_expiry cs))"

lemma inspectRecord_eligible:
  assumes "inspectRecord L rec active t retention = Inr item"
  shows "it_TargetID item = br_TargetID rec" "it_Generation item = br_Generation rec"
    "it_Eligible item \<Longrightarrow> prunable L t retention (br_Data rec) \<and> ap_Generation active \<noteq> [] \<and>
       ap_Generation active \<noteq> br_Generation rec"
    "it_Eligible item \<longleftrightarrow> it_Status item = ''would-delete''"
proof -
  obtain m files digest cs leaf where d: "Decode L (br_Data rec) = Inr (m, files, digest)"
    and v: "Manifest_ValidateFiles L m files = Inr (cs, leaf)"
    using assms by (auto simp: inspectRecord_def and_then_Inr)
  note unfold = inspectRecord_def d v
  show "it_TargetID item = br_TargetID rec" "it_Generation item = br_Generation rec"
    "it_Eligible item \<longleftrightarrow> it_Status item = ''would-delete''"
    using assms by (auto simp: unfold Let_def and_then_Inr split: if_split_asm list.split_asm)
  show "prunable L t retention (br_Data rec) \<and> ap_Generation active \<noteq> [] \<and>
      ap_Generation active \<noteq> br_Generation rec" if e: "it_Eligible item"
  proof -
    obtain c cs' where cs: "cs = c # cs'" and m: "m_Type m \<noteq> TypeTrust"
      and exp: "retention < time_Sub t (earliest_loop (c_NotAfter c) cs')"
      and ap: "ap_Generation active \<noteq> []" "ap_Generation active \<noteq> br_Generation rec"
      using assms e by (auto simp: unfold Let_def and_then_Inr split: if_split_asm list.split_asm)
    have "earliest_expiry cs = earliest_loop (c_NotAfter c) cs'"
      by (simp add: earliest_expiry_def cs earliest_loop_Min)
    then have "prunable L t retention (br_Data rec)"
      unfolding prunable_def using d v m cs exp by auto
    with ap show ?thesis by blast
  qed
qed

section \<open>What a prune does to the key space\<close>

text \<open>A record that a listing of the namespace of \<open>k\<close> can return while \<open>P\<close> holds.\<close>

definition listed_under :: "Keys \<Rightarrow> (version \<Rightarrow> bool) \<Rightarrow> BundleRecord \<Rightarrow> bool" where
  "listed_under k P rec \<longleftrightarrow>
     SafeName (br_TargetID rec) \<and> SafeName (br_Generation rec) \<and>
     br_Key rec = Keys_BundleKey k (br_TargetID rec) (br_Generation rec) \<and>
     (\<exists>u. P u \<and> value_of u (br_Key rec) = Some (br_Data rec))"

text \<open>The deletions a prune may do keep \<open>P\<close>.\<close>

definition survives_prune :: "crypto \<Rightarrow> int \<Rightarrow> int \<Rightarrow> Keys \<Rightarrow> (version \<Rightarrow> bool) \<Rightarrow> bool" where
  "survives_prune L t retention k P \<longleftrightarrow>
     (\<forall>rec g v. listed_under k P rec \<longrightarrow> prunable L t retention (br_Data rec) \<longrightarrow> P v \<longrightarrow>
        value_of v (Keys_ActiveKey k (br_TargetID rec)) = Some g \<longrightarrow> g \<noteq> br_Generation rec \<longrightarrow>
        P (delete_where (\<lambda>key. key = br_Key rec) v))"

context prune_store begin

lemma prune_record_invariant:
  assumes ok: "promises R c view" and wf: "wf_view (view s)"
    and run: "prune_record L (store c) k active t options rec res s = (r, s')"
    and P: "stable R P" "P (now (view s))"
    and rec: "listed_under k P rec" and survive: "survives_prune L t (po_Retention options) k P"
  shows "wf_view (view s') \<and> P (now (view s')) \<and> (\<not> po_Delete options \<longrightarrow> s' = s)"
proof (cases "inspectRecord L rec (pointer_get active (br_TargetID rec)) t (po_Retention options)")
  case (Inl e)
  then have "s' = s" using run by (auto simp: prune_record_def call_def done_with_def)
  with wf P show ?thesis by simp
next
  case (Inr item)
  show ?thesis
  proof (cases "it_Eligible item \<and> po_Delete options")
    case False
    then have "s' = s" using run Inr by (auto simp: prune_record_def call_def done_with_def Let_def)
    with wf P show ?thesis by simp
  next
    case True
    let ?ac = "\<lparr>ac_Generation = ap_Generation (pointer_get active (br_TargetID rec)),
      ac_ModRevision = ap_ModRevision (pointer_get active (br_TargetID rec)), ac_Exists = True\<rparr>"
    let ?res = "if it_Eligible item then res\<lparr>pu_Eligible := pu_Eligible res + 1\<rparr> else res"
    have "\<exists>q. kv_DeleteBundleIfActiveUnchanged (store c) (br_Key rec) (Keys_ActiveKey k (br_TargetID rec)) ?ac s = (q, s')"
      using run Inr True
      by (auto simp: prune_record_def call_def done_with_def Let_def split: prod.splits sum.splits if_splits)
    then obtain q where q: "kv_DeleteBundleIfActiveUnchanged (store c) (br_Key rec)
        (Keys_ActiveKey k (br_TargetID rec)) ?ac s = (q, s')" ..
    note d = delete_bundle [OF ok wf q, simplified]
    have wf': "wf_view (view s')" using conditional_delete_wf [OF ok wf d] .
    obtain vs where vs: "R (view s) vs" and s': "view s' = vs \<or>
        condition_holds (now vs) (Keys_ActiveKey k (br_TargetID rec)) ?ac \<and>
        view s' = advance (delete_where (\<lambda>key. key = br_Key rec)) vs"
      using conditional_cases [OF d] by blast
    have Pvs: "P (now vs)" using stableD [OF P(1) wf vs P(2)] .
    from s' have "P (now (view s'))"
    proof
      assume "view s' = vs"
      then show ?thesis using Pvs by simp
    next
      assume a: "condition_holds (now vs) (Keys_ActiveKey k (br_TargetID rec)) ?ac \<and>
        view s' = advance (delete_where (\<lambda>key. key = br_Key rec)) vs"
      then have g: "value_of (now vs) (Keys_ActiveKey k (br_TargetID rec)) =
          Some (ap_Generation (pointer_get active (br_TargetID rec)))"
        by (auto simp: condition_holds_def value_of_def)
      have e: "prunable L t (po_Retention options) (br_Data rec)"
        "ap_Generation (pointer_get active (br_TargetID rec)) \<noteq> br_Generation rec"
        using inspectRecord_eligible(3) [OF Inr] True by blast+
      have "P (delete_where (\<lambda>key. key = br_Key rec) (now vs))"
        using survive rec e(1) Pvs g e(2) unfolding survives_prune_def by blast
      then show ?thesis using a by simp
    qed
    with wf' True show ?thesis by blast
  qed
qed

lemma prune_loop_invariant:
  assumes ok: "promises R c view" and P: "stable R P"
    and survive: "survives_prune L t (po_Retention options) k P"
  shows "wf_view (view s) \<Longrightarrow> P (now (view s)) \<Longrightarrow> \<forall>rec \<in> set recs. listed_under k P rec \<Longrightarrow>
    prune_loop L (store c) k active t options recs res s = (r, s') \<Longrightarrow>
    wf_view (view s') \<and> P (now (view s')) \<and> (\<not> po_Delete options \<longrightarrow> s' = s)"
proof (induction recs arbitrary: s res)
  case (Cons rec recs)
  have rec: "listed_under k P rec" and recs: "\<forall>rec \<in> set recs. listed_under k P rec"
    using Cons.prems(3) by auto
  from Cons.prems(4) have "call (prune_record L (store c) k active t options rec res) id
      (\<lambda>res. prune_loop L (store c) k active t options recs res) s = (r, s')"
    by simp
  then show ?case
  proof (cases rule: call_cases)
    case (failed e)
    then show ?thesis using prune_record_invariant [OF ok Cons.prems(1) failed(1) P Cons.prems(2) rec survive] by blast
  next
    case (passed res' u)
    have "wf_view (view u) \<and> P (now (view u)) \<and> (\<not> po_Delete options \<longrightarrow> u = s)"
      using prune_record_invariant [OF ok Cons.prems(1) passed(1) P Cons.prems(2) rec survive] .
    then show ?thesis using Cons.IH [OF _ _ recs passed(2)] by blast
  qed
qed simp

lemma listed_listed_under:
  assumes ok: "promises R c view" and wf: "wf_view u" and P: "stable R P" "P (now u)"
    and l: "listed R (Keys_BundlePrefix k) u rec u'"
  shows "listed_under k P rec"
proof -
  obtain vs e where vs: "R u vs" and e: "lookup (now vs) (br_Key rec) = Some e" "kv_Value e = br_Data rec"
    using l unfolding listed_def by blast
  have "P (now vs)" using stableD [OF P(1) wf vs P(2)] .
  moreover have "value_of (now vs) (br_Key rec) = Some (br_Data rec)" using e by (simp add: value_of_def)
  ultimately show ?thesis
    using l unfolding listed_under_def listed_def
    by (auto simp: Keys_BundleKey_def Keys_TargetBundlePrefix_def)
qed

text \<open>A whole prune: an invariant that its deletions keep holds afterwards, whatever it returns.\<close>

lemma prune_invariant:
  assumes ok: "promises R c view" and wf: "wf_view (view s)"
    and run: "Prune L clock (store c) options s = (r, s')"
    and P: "stable R P" "P (now (view s))"
    and survive: "\<And>k. NewKeys (po_Prefix options) = Inr k \<Longrightarrow>
      survives_prune L (case po_Now options of None \<Rightarrow> clock | Some t \<Rightarrow> t) (po_Retention options) k P"
  shows "P (now (view s')) \<and> (\<not> po_Delete options \<longrightarrow> R (view s) (view s'))"
proof -
  have refl: "R u u" for u using others_refl [OF others [OF ok]] .
  have trans: "R u v \<Longrightarrow> R v w \<Longrightarrow> R u w" for u v w using others_trans [OF others [OF ok]] .
  let ?t = "case po_Now options of None \<Rightarrow> clock | Some t \<Rightarrow> t"
  show ?thesis
  proof (cases "s' = s")
    case True
    then show ?thesis using P refl by simp
  next
    case False
    then obtain k where k: "NewKeys (po_Prefix options) = Inr k"
      and run': "call (kv_SnapshotActivePrefix (store c) (Keys_ActivePrefix k)) (\<lambda>e. (SnapshotPointers e, zero_result)) (\<lambda>active.
           call (kv_ListBundleRecords (store c) (Keys_BundlePrefix k)) (\<lambda>e. (ListBundlesFailed e, zero_result)) (\<lambda>recs.
           call (prune_loop L (store c) k (ps_Active active) ?t options recs
               \<lparr>pu_Prefix = Keys_Prefix k, pu_Retention = po_Retention options, pu_Scanned = length recs,
                pu_Eligible = 0, pu_Deleted = 0, pu_Items = []\<rparr>) id (\<lambda>res.
           done_with (Inr (sort_items res))))) s = (r, s')"
      using run
      by (cases "NewKeys (po_Prefix options)") (auto simp: Prune_def Let_def call_done split: if_split_asm)
    from run' show ?thesis
    proof (cases rule: call_cases)
      case (failed e)
      then have "R (view s) (view s')" using snapshot [OF ok wf failed(1)] by blast
      then show ?thesis using stableD [OF P(1) wf _ P(2)] by blast
    next
      case (passed active u)
      have u: "R (view s) (view u)" using snapshot [OF ok wf passed(1)] by blast
      have wfu: "wf_view (view u)" using others_wf [OF ok u wf] .
      have Pu: "P (now (view u))" using stableD [OF P(1) wf u P(2)] .
      from passed(2) show ?thesis
      proof (cases rule: call_cases)
        case (failed e)
        then have "R (view u) (view s')" using list [OF ok wfu failed(1)] by blast
        then show ?thesis using stableD [OF P(1) wfu _ Pu] trans [OF u] by blast
      next
        case (passed recs w)
        have w: "R (view u) (view w)" and l: "\<forall>rec \<in> set recs. listed R (Keys_BundlePrefix k) (view u) rec (view w)"
          using list [OF ok wfu passed(1)] by blast+
        have wfw: "wf_view (view w)" using others_wf [OF ok w wfu] .
        have Pw: "P (now (view w))" using stableD [OF P(1) wfu w Pu] .
        have recs: "\<forall>rec \<in> set recs. listed_under k P rec"
          using l listed_listed_under [OF ok wfu P(1) Pu] by blast
        from passed(2) obtain q where "prune_loop L (store c) k (ps_Active active) ?t options recs
               \<lparr>pu_Prefix = Keys_Prefix k, pu_Retention = po_Retention options, pu_Scanned = length recs,
                pu_Eligible = 0, pu_Deleted = 0, pu_Items = []\<rparr> w = (q, s')"
          by (cases rule: call_cases) auto
        from prune_loop_invariant [OF ok P(1) survive [OF k] wfw Pw recs this]
        show ?thesis using trans [OF u w] by blast
      qed
    qed
  qed
qed

end

text \<open>Invariants that survive: referential integrity, and every value that is not prunable.\<close>

lemma survives_no_dangling: "survives_prune L t retention k (no_dangling k)"
  unfolding survives_prune_def
proof (intro allI impI)
  fix rec g v
  assume rec: "listed_under k (no_dangling k) rec" and v: "no_dangling k v"
    and g: "value_of v (Keys_ActiveKey k (br_TargetID rec)) = Some g" "g \<noteq> br_Generation rec"
  have safe: "SafeName (br_TargetID rec)" and key: "br_Key rec = Keys_BundleKey k (br_TargetID rec) (br_Generation rec)"
    using rec by (auto simp: listed_under_def)
  show "no_dangling k (delete_where (\<lambda>key. key = br_Key rec) v)"
    unfolding no_dangling_def
  proof (intro allI impI)
    fix t' g' assume t': "SafeName t'"
      and "value_of (delete_where (\<lambda>key. key = br_Key rec) v) (Keys_ActiveKey k t') = Some g'"
    then have a: "value_of v (Keys_ActiveKey k t') = Some g'"
      by (simp add: value_of_delete_where split: if_split_asm)
    then have "value_of v (Keys_BundleKey k t' g') \<noteq> None" using v t' unfolding no_dangling_def by blast
    moreover have "Keys_BundleKey k t' g' \<noteq> br_Key rec"
      unfolding key BundleKey_eq [OF t' safe] using a g by auto
    ultimately show "value_of (delete_where (\<lambda>key. key = br_Key rec) v) (Keys_BundleKey k t' g') \<noteq> None"
      by (simp add: value_of_delete_where)
  qed
qed

lemma survives_value:
  assumes "\<not> prunable L t retention val \<or> (\<forall>tgt g. SafeName tgt \<longrightarrow> key \<noteq> Keys_BundleKey k tgt g)"
  shows "survives_prune L t retention k (\<lambda>v. value_of v key = Some val)"
  unfolding survives_prune_def
proof (intro allI impI)
  fix rec g v
  assume rec: "listed_under k (\<lambda>v. value_of v key = Some val) rec"
    and p: "prunable L t retention (br_Data rec)" and v: "value_of v key = Some val"
  have "br_Key rec \<noteq> key"
  proof
    assume eq: "br_Key rec = key"
    then have "br_Data rec = val" using rec by (auto simp: listed_under_def)
    with assms p have "\<forall>tgt g. SafeName tgt \<longrightarrow> key \<noteq> Keys_BundleKey k tgt g" by blast
    with rec eq show False by (auto simp: listed_under_def)
  qed
  with v show "value_of (delete_where (\<lambda>key. key = br_Key rec) v) key = Some val"
    by (simp add: value_of_delete_where)
qed

section \<open>What a prune reports\<close>

definition item_of :: "crypto \<Rightarrow> (string \<times> ActivePointer) list \<Rightarrow> int \<Rightarrow> PruneOptions \<Rightarrow> BundleRecord \<Rightarrow> Item \<Rightarrow> bool" where
  "item_of L active t options rec item \<longleftrightarrow>
     (\<exists>i. inspectRecord L rec (pointer_get active (br_TargetID rec)) t (po_Retention options) = Inr i \<and>
        item = (if it_Eligible i \<and> po_Delete options then i\<lparr>it_Status := ''deleted''\<rparr> else i))"

lemma prune_record_Inr:
  assumes "prune_record L kv k active t options rec res s = (Inr res', s')"
  shows "\<exists>item. item_of L active t options rec item \<and>
    pu_Items res' = pu_Items res @ [item] \<and> pu_Scanned res' = pu_Scanned res \<and>
    pu_Eligible res' = pu_Eligible res + (if it_Eligible item then 1 else 0) \<and>
    pu_Deleted res' = pu_Deleted res + (if it_Eligible item \<and> po_Delete options then 1 else 0)"
proof -
  obtain i where "inspectRecord L rec (pointer_get active (br_TargetID rec)) t (po_Retention options) = Inr i"
    using assms
    by (cases "inspectRecord L rec (pointer_get active (br_TargetID rec)) t (po_Retention options)")
      (auto simp: prune_record_def call_done)
  with assms show ?thesis
    by (auto simp: prune_record_def call_done call_Inr Let_def item_of_def split: if_split_asm)
qed

lemma prune_loop_Inr:
  "prune_loop L kv k active t options recs res s = (Inr res', s') \<Longrightarrow>
   \<exists>items. list_all2 (item_of L active t options) recs items \<and>
     pu_Items res' = pu_Items res @ items \<and> pu_Scanned res' = pu_Scanned res \<and>
     pu_Eligible res' = pu_Eligible res + length (filter it_Eligible items) \<and>
     pu_Deleted res' = pu_Deleted res + (if po_Delete options then length (filter it_Eligible items) else 0)"
proof (induction recs arbitrary: s res)
  case (Cons rec recs)
  then obtain res1 t1 where r: "prune_record L kv k active t options rec res s = (Inr res1, t1)"
    and l: "prune_loop L kv k active t options recs res1 t1 = (Inr res', s')"
    by (auto simp: call_Inr)
  obtain item where item: "item_of L active t options rec item" "pu_Items res1 = pu_Items res @ [item]"
    "pu_Scanned res1 = pu_Scanned res"
    "pu_Eligible res1 = pu_Eligible res + (if it_Eligible item then 1 else 0)"
    "pu_Deleted res1 = pu_Deleted res + (if it_Eligible item \<and> po_Delete options then 1 else 0)"
    using prune_record_Inr [OF r] by blast
  obtain items where items: "list_all2 (item_of L active t options) recs items"
    "pu_Items res' = pu_Items res1 @ items" "pu_Scanned res' = pu_Scanned res1"
    "pu_Eligible res' = pu_Eligible res1 + length (filter it_Eligible items)"
    "pu_Deleted res' = pu_Deleted res1 + (if po_Delete options then length (filter it_Eligible items) else 0)"
    using Cons.IH [OF l] by blast
  show ?case
    by (rule exI [of _ "item # items"]) (use item items in auto)
qed auto

lemma Prune_Inr:
  assumes "Prune L clock kv options s = (Inr res, s')"
  shows "\<exists>k active t1 recs t2 items t.
    0 \<le> po_Retention options \<and> NewKeys (po_Prefix options) = Inr k \<and> kv_Prefix kv = Keys_Prefix k \<and>
    t = (case po_Now options of None \<Rightarrow> clock | Some t \<Rightarrow> t) \<and>
    kv_SnapshotActivePrefix kv (Keys_ActivePrefix k) s = (Inr active, t1) \<and>
    kv_ListBundleRecords kv (Keys_BundlePrefix k) t1 = (Inr recs, t2) \<and>
    list_all2 (item_of L (ps_Active active) t options) recs items \<and>
    pu_Items res = sort_key (\<lambda>i. (it_TargetID i, it_Generation i)) items \<and>
    pu_Scanned res = length recs \<and> pu_Eligible res = length (filter it_Eligible items) \<and>
    pu_Deleted res = (if po_Delete options then pu_Eligible res else 0)"
proof -
  let ?t = "case po_Now options of None \<Rightarrow> clock | Some t \<Rightarrow> t"
  obtain k active t1 recs t2 res1 t3 where k: "0 \<le> po_Retention options" "NewKeys (po_Prefix options) = Inr k"
      "kv_Prefix kv = Keys_Prefix k"
    and a: "kv_SnapshotActivePrefix kv (Keys_ActivePrefix k) s = (Inr active, t1)"
    and r: "kv_ListBundleRecords kv (Keys_BundlePrefix k) t1 = (Inr recs, t2)"
    and l: "prune_loop L kv k (ps_Active active) ?t options recs
      \<lparr>pu_Prefix = Keys_Prefix k, pu_Retention = po_Retention options, pu_Scanned = length recs,
       pu_Eligible = 0, pu_Deleted = 0, pu_Items = []\<rparr> t2 = (Inr res1, t3)"
    and res: "res = sort_items res1"
    using assms
    by (cases "NewKeys (po_Prefix options)")
      (auto simp: Prune_def Let_def call_done call_Inr split: if_split_asm)
  from prune_loop_Inr [OF l] obtain items where
    "list_all2 (item_of L (ps_Active active) ?t options) recs items" "pu_Items res1 = items"
    "pu_Scanned res1 = length recs" "pu_Eligible res1 = length (filter it_Eligible items)"
    "pu_Deleted res1 = (if po_Delete options then length (filter it_Eligible items) else 0)"
    by auto
  with k a r res show ?thesis by (auto simp: sort_items_def)
qed

text \<open>What was reported as deleted is gone, when the others create nothing.\<close>

context prune_store begin

lemma prune_loop_deletes:
  assumes ok: "promises R c view" and create: "\<And>key. stable R (\<lambda>v. value_of v key = None)"
    and del: "po_Delete options"
  shows "wf_view (view s) \<Longrightarrow> prune_loop L (store c) k active t options recs res s = (Inr res', s') \<Longrightarrow>
    wf_view (view s') \<and> (\<forall>key. value_of (now (view s)) key = None \<longrightarrow> value_of (now (view s')) key = None) \<and>
    (\<forall>rec \<in> set recs. \<forall>item. inspectRecord L rec (pointer_get active (br_TargetID rec)) t (po_Retention options) = Inr item \<longrightarrow>
       it_Eligible item \<longrightarrow> value_of (now (view s')) (br_Key rec) = None)"
proof (induction recs arbitrary: s res)
  case (Cons rec recs)
  then obtain res1 u where r: "prune_record L (store c) k active t options rec res s = (Inr res1, u)"
    and l: "prune_loop L (store c) k active t options recs res1 u = (Inr res', s')"
    by (auto simp: call_Inr)
  have absent: "survives_prune L t (po_Retention options) k (\<lambda>v. value_of v key = None)" for key
    by (auto simp: survives_prune_def value_of_delete_where)
  obtain item where item: "inspectRecord L rec (pointer_get active (br_TargetID rec)) t (po_Retention options) = Inr item"
    using r
    by (cases "inspectRecord L rec (pointer_get active (br_TargetID rec)) t (po_Retention options)")
      (auto simp: prune_record_def call_done)
  have u: "wf_view (view u) \<and> (\<forall>key. value_of (now (view s)) key = None \<longrightarrow> value_of (now (view u)) key = None) \<and>
    (it_Eligible item \<longrightarrow> value_of (now (view u)) (br_Key rec) = None)"
  proof (cases "it_Eligible item")
    case False
    then have "u = s" using r item by (auto simp: prune_record_def call_done Let_def)
    with Cons.prems(1) False show ?thesis by simp
  next
    case True
    let ?ac = "\<lparr>ac_Generation = ap_Generation (pointer_get active (br_TargetID rec)),
      ac_ModRevision = ap_ModRevision (pointer_get active (br_TargetID rec)), ac_Exists = True\<rparr>"
    have q: "kv_DeleteBundleIfActiveUnchanged (store c) (br_Key rec)
        (Keys_ActiveKey k (br_TargetID rec)) ?ac s = (Inr True, u)"
      using r item True del by (auto simp: prune_record_def call_done call_Inr Let_def split: if_split_asm)
    note d = delete_bundle [OF ok Cons.prems(1) q, simplified]
    obtain vs where vs: "R (view s) vs" "view u = advance (delete_where (\<lambda>key. key = br_Key rec)) vs"
      using conditional_done [OF d] by blast
    have "value_of (now vs) key = None" if "value_of (now (view s)) key = None" for key
      using stableD [OF create Cons.prems(1) vs(1) that] .
    then show ?thesis
      using conditional_delete_wf [OF ok Cons.prems(1) d] vs(2) by (simp add: value_of_delete_where)
  qed
  have rest: "wf_view (view s') \<and> (\<forall>key. value_of (now (view u)) key = None \<longrightarrow> value_of (now (view s')) key = None) \<and>
    (\<forall>rec \<in> set recs. \<forall>item. inspectRecord L rec (pointer_get active (br_TargetID rec)) t (po_Retention options) = Inr item \<longrightarrow>
       it_Eligible item \<longrightarrow> value_of (now (view s')) (br_Key rec) = None)"
    using Cons.IH [OF _ l] u by blast
  show ?case
  proof (intro conjI ballI allI impI)
    show "wf_view (view s')" using rest by blast
    show "value_of (now (view s')) key = None" if "value_of (now (view s)) key = None" for key
      using that u rest by blast
    show "value_of (now (view s')) (br_Key rec') = None"
      if "rec' \<in> set (rec # recs)" "inspectRecord L rec' (pointer_get active (br_TargetID rec')) t (po_Retention options) = Inr i"
        "it_Eligible i" for rec' i
    proof (cases "rec' = rec")
      case True
      then show ?thesis using that item u rest by simp
    next
      case False
      then show ?thesis using that rest by simp
    qed
  qed
qed simp

lemma prune_deletes:
  assumes ok: "promises R c view" and create: "\<And>key. stable R (\<lambda>v. value_of v key = None)"
    and del: "po_Delete options" and wf: "wf_view (view s)"
    and run: "Prune L clock (store c) options s = (Inr res, s')"
    and k: "NewKeys (po_Prefix options) = Inr k" and item: "item \<in> set (pu_Items res)" "it_Eligible item"
  shows "value_of (now (view s')) (Keys_BundleKey k (it_TargetID item) (it_Generation item)) = None"
proof -
  let ?t = "case po_Now options of None \<Rightarrow> clock | Some t \<Rightarrow> t"
  obtain active t1 recs t2 res1 where a: "kv_SnapshotActivePrefix (store c) (Keys_ActivePrefix k) s = (Inr active, t1)"
    and r: "kv_ListBundleRecords (store c) (Keys_BundlePrefix k) t1 = (Inr recs, t2)"
    and l: "prune_loop L (store c) k (ps_Active active) ?t options recs
      \<lparr>pu_Prefix = Keys_Prefix k, pu_Retention = po_Retention options, pu_Scanned = length recs,
       pu_Eligible = 0, pu_Deleted = 0, pu_Items = []\<rparr> t2 = (Inr res1, s')"
    and res: "res = sort_items res1"
    using run k by (auto simp: Prune_def Let_def call_done call_Inr split: if_split_asm)
  have t1: "R (view s) (view t1)" using snapshot [OF ok wf a] by blast
  have wf1: "wf_view (view t1)" using others_wf [OF ok t1 wf] .
  have t2: "R (view t1) (view t2)" and ls: "\<forall>rec \<in> set recs. listed R (Keys_BundlePrefix k) (view t1) rec (view t2)"
    using list [OF ok wf1 r] by blast+
  have wf2: "wf_view (view t2)" using others_wf [OF ok t2 wf1] .
  obtain items where items: "list_all2 (item_of L (ps_Active active) ?t options) recs items" "pu_Items res1 = items"
    using prune_loop_Inr [OF l] by auto
  have "item \<in> set items" using item(1) items(2) by (simp add: res sort_items_def)
  then obtain rec where rec: "rec \<in> set recs" "item_of L (ps_Active active) ?t options rec item"
    using items(1) by (metis in_set_conv_nth list_all2_conv_all_nth)
  then obtain i where i: "inspectRecord L rec (pointer_get (ps_Active active) (br_TargetID rec)) ?t (po_Retention options) = Inr i"
    "it_TargetID item = br_TargetID rec" "it_Generation item = br_Generation rec" "it_Eligible i"
    using item(2) inspectRecord_eligible(1,2) by (auto simp: item_of_def split: if_split_asm)
  have "br_Key rec = Keys_BundleKey k (br_TargetID rec) (br_Generation rec)"
    using ls rec(1) by (auto simp: listed_def Keys_BundleKey_def Keys_TargetBundlePrefix_def)
  moreover have "value_of (now (view s')) (br_Key rec) = None"
    using prune_loop_deletes [OF ok create del wf2 l] rec(1) i(1,4) by blast
  ultimately show ?thesis using i by simp
qed

end

end
