(* ===== verification/Prune_Properties.thy ===== *)
theory Prune_Properties
  imports Prune Publish_Properties
begin

text \<open>The properties of pruning through the etcd client, with their witnesses.\<close>

section \<open>A sample prune\<close>

text \<open>A service with one expired bundle of target \<open>web\<close>, whose pointer names another generation.\<close>

definition old_generation :: string where
  "old_generation = Generation (ManifestDigest sample_crypto (fst sample_manifest) (decoded (fst sample_manifest)))"

definition old_key :: string where "old_key = Keys_BundleKey DefaultKeys ''web'' old_generation"
definition old_pointer :: string where "old_pointer = Keys_ActiveKey DefaultKeys ''web''"

definition expired_view :: view where
  "expired_view = advance (put old_key (encoded (fst sample_manifest))) (advance (put old_pointer ''next'') empty_view)"

definition expired :: script_state where
  "expired = \<lparr>sc_view = expired_view, sc_script = []\<rparr>"

definition prune_options :: PruneOptions where
  "prune_options = \<lparr>po_Prefix = ''/pemcast'', po_Now = Some 5000, po_Retention = 60, po_Delete = True\<rparr>"

lemma expired_wf: "wf_view (sc_view expired)"
  unfolding expired_def expired_view_def script_state.simps
  by (intro write_step_wf [OF put_step] wf_empty_view)

lemma default_prefixes:
  "Keys_ActivePrefix DefaultKeys = ''/pemcast/v6/active/''" "Keys_BundlePrefix DefaultKeys = ''/pemcast/v6/bundles/''"
  by code_simp+

lemma old_keys:
  "old_pointer = ''/pemcast/v6/active/web''" "old_key = ''/pemcast/v6/bundles/web/'' @ old_generation"
  by (simp_all add: old_pointer_def old_key_def Keys_ActiveKey_def Keys_BundleKey_def
      Keys_TargetBundlePrefix_def default_prefixes)

lemma expired_kvs:
  "sc_view expired = [\<lparr>v_Revision = 3, v_Kvs =
      [\<lparr>kv_Key = old_pointer, kv_Value = ''next'', kv_CreateRevision = 2, kv_ModRevision = 2\<rparr>,
       \<lparr>kv_Key = old_key, kv_Value = encoded (fst sample_manifest), kv_CreateRevision = 3, kv_ModRevision = 3\<rparr>]\<rparr>,
     \<lparr>v_Revision = 2, v_Kvs =
      [\<lparr>kv_Key = old_pointer, kv_Value = ''next'', kv_CreateRevision = 2, kv_ModRevision = 2\<rparr>]\<rparr>,
     \<lparr>v_Revision = 1, v_Kvs = []\<rparr>]"
proof -
  have "old_key \<noteq> old_pointer" "\<not> old_key < old_pointer"
    unfolding old_keys by (simp_all add: less_char_def)
  then show ?thesis
    by (simp add: expired_def expired_view_def empty_view_def advance_def put_def now_def lookup_def Let_def)
qed

lemma old_keys_differ: "old_pointer \<noteq> old_key"
  unfolding old_keys by simp

lemma old_generation_safe: "SafeName old_generation" "old_generation \<noteq> ''next''"
  by code_simp+

lemma old_inspect:
  "inspectRecord sample_crypto \<lparr>br_Key = old_key, br_TargetID = ''web'', br_Generation = old_generation,
      br_Data = encoded (fst sample_manifest), br_ModRevision = 3\<rparr>
     \<lparr>ap_Generation = ''next'', ap_ModRevision = 2\<rparr> 5000 60 =
   Inr \<lparr>it_TargetID = ''web'', it_Generation = old_generation, it_Type = TypeTLSServer,
        it_EarliestNotAfter = Some 1000, it_Eligible = True, it_Status = ''would-delete''\<rparr>"
proof -
  have v: "Manifest_ValidateFiles sample_crypto (fst sample_manifest) (decoded (fst sample_manifest)) =
      Inr ([sample_cert ''L'', sample_cert ''A''], Some (sample_cert ''L''))"
    by code_simp
  have "m_Type (fst sample_manifest) = TypeTLSServer"
    by (simp add: sample_manifest_def NewTLSManifest_def Let_def)
  then show ?thesis
    using old_generation_safe(2)
    by (simp add: inspectRecord_def sample_valid(2) v ValidateGeneration_def old_generation_def [symmetric]
        sample_cert_def time_Sub_def max_duration_def min_duration_def Let_def type_defs)
qed

lemma old_prefixes:
  "HasPrefix old_pointer ''/pemcast/v6/active/''" "\<not> HasPrefix old_key ''/pemcast/v6/active/''"
  "HasPrefix old_key ''/pemcast/v6/bundles/''" "\<not> HasPrefix old_pointer ''/pemcast/v6/bundles/''"
  "TrimPrefix old_pointer ''/pemcast/v6/active/'' = ''web''"
  "TrimPrefix old_key ''/pemcast/v6/bundles/'' = ''web/'' @ old_generation"
  by (simp_all add: old_keys TrimPrefix_def)

lemma old_names:
  "SafeName ''web''" "SafeName ''next''" "TrimSpace ''next'' = ''next''"
  by code_simp+

lemma old_cut: "Cut (''web/'' @ old_generation) (CHR ''/'') = (''web'', old_generation, True)"
  using Cut_append [of "CHR ''/''" "''web''" old_generation] by simp

lemmas expired_view_eq = expired_kvs [unfolded expired_def script_state.simps]

definition expired_snapshot :: PrefixSnapshot where
  "expired_snapshot = \<lparr>ps_Revision = 3, ps_Active = [(''web'', \<lparr>ap_Generation = ''next'', ap_ModRevision = 2\<rparr>)]\<rparr>"

definition expired_record :: BundleRecord where
  "expired_record = \<lparr>br_Key = old_key, br_TargetID = ''web'', br_Generation = old_generation,
     br_Data = encoded (fst sample_manifest), br_ModRevision = 3\<rparr>"

lemmas script_calls =
  Client_kv_def script_client_def script_etcd_def script_Get_def script_Txn_def next_entry_def
  now_def version_at_def exact_def WithPrefix_def WithKeysOnly_def selected_def call_def done_with_def

lemma expired_snapshot_call:
  "kv_SnapshotActivePrefix (Client_kv (script_client allowed)) ''/pemcast/v6/active/'' expired =
     (Inr expired_snapshot, expired)"
  using old_prefixes old_names
  by (simp add: expired_view_eq script_calls SnapshotActivePrefix_def prefixSnapshotFromResponse_def expired_def
      expired_snapshot_def Let_def)

lemma expired_list_call:
  "kv_ListBundleRecords (Client_kv (script_client allowed)) ''/pemcast/v6/bundles/'' expired =
     (Inr [expired_record], expired)"
proof -
  have ne: "old_key \<noteq> old_pointer" by (simp add: old_keys)
  show ?thesis
    using old_prefixes old_names old_generation_safe ne old_cut
    by (simp add: expired_view_eq script_calls ListBundleRecords_def Client_Get_def first_value_def bundle_record_def expired_def
        expired_record_def)
qed

lemma expired_delete_call:
  "\<exists>s'. kv_DeleteBundleIfActiveUnchanged (Client_kv (script_client allowed)) old_key old_pointer
     \<lparr>ac_Generation = ''next'', ac_ModRevision = 2, ac_Exists = True\<rparr> expired = (Inr True, s')"
  by (simp add: expired_view_eq script_calls DeleteBundleIfActiveUnchanged_def activeComparison_def cmp_holds_def value_of_def
      lookup_def expired_def)

definition expired_item :: "string \<Rightarrow> Item" where
  "expired_item status = \<lparr>it_TargetID = ''web'', it_Generation = old_generation, it_Type = TypeTLSServer,
     it_EarliestNotAfter = Some 1000, it_Eligible = True, it_Status = status\<rparr>"

lemma expired_prune:
  "\<exists>s'. Prune sample_crypto 0 (Client_kv (script_client quiet)) prune_options expired =
    (Inr \<lparr>pu_Prefix = ''/pemcast'', pu_Retention = 60, pu_Scanned = 1, pu_Eligible = 1, pu_Deleted = 1,
       pu_Items = [expired_item ''deleted'']\<rparr>, s')"
proof -
  obtain s' where d: "kv_DeleteBundleIfActiveUnchanged (Client_kv (script_client quiet)) old_key old_pointer
     \<lparr>ac_Generation = ''next'', ac_ModRevision = 2, ac_Exists = True\<rparr> expired = (Inr True, s')"
    using expired_delete_call by blast
  have p: "pointer_get (ps_Active expired_snapshot) ''web'' = \<lparr>ap_Generation = ''next'', ap_ModRevision = 2\<rparr>"
    by (simp add: pointer_get_def expired_snapshot_def)
  have i: "inspectRecord sample_crypto expired_record \<lparr>ap_Generation = ''next'', ap_ModRevision = 2\<rparr> 5000 60 =
      Inr (expired_item ''would-delete'')"
    using old_inspect by (simp add: expired_record_def expired_item_def)
  have r: "br_TargetID expired_record = ''web''" "br_Key expired_record = old_key" by (simp_all add: expired_record_def)
  have k: "kv_Prefix (Client_kv (script_client quiet)) = ''/pemcast''" "Keys_Prefix DefaultKeys = ''/pemcast''"
    by (simp_all add: Client_kv_def script_client_def Keys_Prefix_def DefaultKeys_def DefaultPrefix_def)
  show ?thesis
    using d p i r
    by (simp add: Prune_def prune_options_def NewKeys_default k default_prefixes expired_snapshot_call
        expired_list_call call_def done_with_def prune_record_def old_pointer_def [symmetric] sort_items_def
        expired_item_def Let_def)
qed

section \<open>Properties\<close>

text \<open>C8: a prune without \<open>Delete\<close> only reads. Whatever it returns, the key space moved only by what
  the other clients did.\<close>

theorem Prune_dry_run:
  assumes "client_ok R c view" "wf_view (view s)" "\<not> po_Delete options"
    and "Prune L clock (Client_kv c) options s = (r, s')"
  shows "R (view s) (view s')"
proof -
  have "stable R (\<lambda>_. True)" "survives_prune L t n k (\<lambda>_. True)" for t n k
    by (simp_all add: stable_def survives_prune_def)
  with etcd_prune.prune_invariant [OF assms(1,2,4), of "\<lambda>_. True"] assms(3) show ?thesis by blast
qed

lemma Prune_dry_run_witness:
  "\<exists>r s'. Prune sample_crypto 0 (Client_kv (script_client quiet)) (prune_options\<lparr>po_Delete := False\<rparr>) expired = (r, s') \<and>
    sc_view s' = sc_view expired"
proof -
  obtain r s' where run: "Prune sample_crypto 0 (Client_kv (script_client quiet)) (prune_options\<lparr>po_Delete := False\<rparr>)
      expired = (r, s')"
    by fastforce
  have "allowed_writes quiet (sc_view expired) (sc_view s')"
    by (rule Prune_dry_run [OF script_client_ok expired_wf _ run]) simp
  then have "sc_view s' = sc_view expired" by (rule quiet_same)
  then show ?thesis using run by blast
qed

text \<open>C5: pruning never cuts an active pointer off. Whatever \<open>Prune\<close> returns, in whatever order other
  clients move pointers meanwhile, every active pointer of the namespace still has its bundle, if
  the other clients keep it that way.\<close>

theorem Prune_no_dangling:
  assumes "client_ok R c view" "wf_view (view s)" "NewKeys (po_Prefix options) = Inr k"
    and "stable R (no_dangling k)" "no_dangling k (now (view s))"
    and "Prune L clock (Client_kv c) options s = (r, s')"
  shows "no_dangling k (now (view s'))"
  using etcd_prune.prune_invariant [OF assms(1,2,6,4,5)] survives_no_dangling assms(3) by auto

lemma Prune_no_dangling_witness:
  "\<exists>r s'. Prune sample_crypto 0 (Client_kv (script_client quiet)) prune_options (fresh []) = (r, s') \<and>
    no_dangling DefaultKeys (now (sc_view s'))"
proof -
  obtain r s' where run: "Prune sample_crypto 0 (Client_kv (script_client quiet)) prune_options (fresh []) = (r, s')"
    by fastforce
  have "NewKeys (po_Prefix prune_options) = Inr DefaultKeys" by (simp add: prune_options_def NewKeys_default)
  from Prune_no_dangling [OF script_client_ok fresh_view(2) this quiet_stable _ run] run show ?thesis
    by (simp add: empty_no_dangling)
qed

text \<open>C6: pruning deletes only what it may. Whatever \<open>Prune\<close> returns, a value that is not an
  identity bundle expired beyond the retention at the time of the prune (the given one, else the clock) stays: trust
  bundles, identities that have not expired or not for long enough, and values that do not decode. So does every key
  outside the bundles of the namespace, the active pointers among them.\<close>

theorem Prune_keeps:
  assumes "client_ok R c view" "wf_view (view s)" "NewKeys (po_Prefix options) = Inr k"
    and "\<not> prunable L (case po_Now options of None \<Rightarrow> clock | Some t \<Rightarrow> t) (po_Retention options) val \<or>
      (\<forall>tgt g. SafeName tgt \<longrightarrow> key \<noteq> Keys_BundleKey k tgt g)"
    and "keeps R key val" "value_of (now (view s)) key = Some val"
    and "Prune L clock (Client_kv c) options s = (r, s')"
  shows "value_of (now (view s')) key = Some val"
proof -
  have "survives_prune L (case po_Now options of None \<Rightarrow> clock | Some t \<Rightarrow> t) (po_Retention options) k
      (\<lambda>v. value_of v key = Some val)"
    using survives_value assms(4) by blast
  with etcd_prune.prune_invariant [OF assms(1,2,7), of "\<lambda>v. value_of v key = Some val"] assms(3,5,6)
  show ?thesis by (auto simp: keeps_def)
qed

text \<open>The bundle of the sample is deleted once it has expired, and stays a moment earlier.\<close>

lemma sample_expiry:
  "case Manifest_ValidateFiles sample_crypto (fst sample_manifest) (decoded (fst sample_manifest)) of
     Inr (cs, l) \<Rightarrow> map c_NotAfter cs = [1000, 1000] | Inl e \<Rightarrow> False"
  by code_simp

lemma sample_not_prunable: "t \<le> 1000 \<Longrightarrow> \<not> prunable sample_crypto t 0 (encoded (fst sample_manifest))"
proof
  assume t: "t \<le> 1000" and "prunable sample_crypto t 0 (encoded (fst sample_manifest))"
  then obtain cs l where "Manifest_ValidateFiles sample_crypto (fst sample_manifest) (decoded (fst sample_manifest)) = Inr (cs, l)"
    and e: "0 < time_Sub t (earliest_expiry cs)"
    using sample_valid(2) by (auto simp: prunable_def)
  then have "map c_NotAfter cs = [1000, 1000]" using sample_expiry by simp
  then have "c_NotAfter ` set cs = {1000}" by (metis image_set list.simps(15) insert_absorb2 list.set(1))
  then have "earliest_expiry cs = 1000" by (simp add: earliest_expiry_def)
  then show False using e t by (simp add: time_Sub_def max_duration_def min_duration_def split: if_split_asm)
qed

lemma Prune_keeps_witness:
  "\<exists>r s'. Prune sample_crypto 0 (Client_kv (script_client quiet)) (prune_options\<lparr>po_Now := Some 1000, po_Retention := 0\<rparr>) expired = (r, s') \<and>
    value_of (now (sc_view s')) old_key = Some (encoded (fst sample_manifest))"
proof -
  let ?o = "prune_options\<lparr>po_Now := Some 1000, po_Retention := 0\<rparr>"
  obtain r s' where run: "Prune sample_crypto 0 (Client_kv (script_client quiet)) ?o expired = (r, s')"
    by fastforce
  have k: "NewKeys (po_Prefix ?o) = Inr DefaultKeys" by (simp add: prune_options_def NewKeys_default)
  have keep: "keeps (allowed_writes quiet) old_key (encoded (fst sample_manifest))" unfolding keeps_def by (rule quiet_stable)
  have val: "value_of (now (sc_view expired)) old_key = Some (encoded (fst sample_manifest))"
    unfolding expired_kvs using old_keys_differ by (simp add: now_def value_of_def lookup_def)
  have "\<not> prunable sample_crypto (case po_Now ?o of None \<Rightarrow> 0 | Some t \<Rightarrow> t) (po_Retention ?o) (encoded (fst sample_manifest))"
    using sample_not_prunable [of 1000] by simp
  from Prune_keeps [OF script_client_ok expired_wf k disjI1 [OF this] keep val run] run show ?thesis by blast
qed

text \<open>C9: the report is true. A prune that succeeds has one item for each bundle it listed, in the
  order of targets and generations, with the decision of \<open>inspectRecord\<close> against the snapshot of
  the pointers; it counts the eligible ones, and with \<open>Delete\<close> it has deleted exactly these.\<close>

theorem Prune_reports:
  assumes "Prune L clock kv options s = (Inr res, s')"
  shows "\<exists>k active t1 recs t2 items t.
    0 \<le> po_Retention options \<and> NewKeys (po_Prefix options) = Inr k \<and> kv_Prefix kv = Keys_Prefix k \<and>
    t = (case po_Now options of None \<Rightarrow> clock | Some t \<Rightarrow> t) \<and>
    kv_SnapshotActivePrefix kv (Keys_ActivePrefix k) s = (Inr active, t1) \<and>
    kv_ListBundleRecords kv (Keys_BundlePrefix k) t1 = (Inr recs, t2) \<and>
    list_all2 (item_of L (ps_Active active) t options) recs items \<and>
    pu_Items res = sort_key (\<lambda>i. (it_TargetID i, it_Generation i)) items \<and>
    pu_Scanned res = length recs \<and> pu_Eligible res = length (filter it_Eligible items) \<and>
    pu_Deleted res = (if po_Delete options then pu_Eligible res else 0)"
  by (rule Prune_Inr [OF assms])

lemma Prune_reports_witness:
  "\<exists>res s'. Prune sample_crypto 0 (Client_kv (script_client quiet)) prune_options expired = (Inr res, s') \<and>
    pu_Deleted res = pu_Eligible res \<and> pu_Deleted res = 1"
proof -
  obtain res s' where run: "Prune sample_crypto 0 (Client_kv (script_client quiet)) prune_options expired = (Inr res, s')"
    and one: "pu_Deleted res = 1"
    using expired_prune by force
  from Prune_reports [OF run] have "pu_Deleted res = pu_Eligible res" by (auto simp: prune_options_def)
  with run one show ?thesis by blast
qed

text \<open>C7: what is reported as deleted is gone. After a successful prune with \<open>Delete\<close>, the bundle of
  every eligible item is absent, when the other clients create no key meanwhile.\<close>

theorem Prune_deletes:
  assumes "client_ok R c view" "wf_view (view s)" "po_Delete options"
    and "\<forall>key. stable R (\<lambda>v. value_of v key = None)"
    and "Prune L clock (Client_kv c) options s = (Inr res, s')"
    and "NewKeys (po_Prefix options) = Inr k" "item \<in> set (pu_Items res)" "it_Eligible item"
  shows "value_of (now (view s')) (Keys_BundleKey k (it_TargetID item) (it_Generation item)) = None"
  by (rule etcd_prune.prune_deletes [OF assms(1) _ assms(3,2,5-8)]) (use assms(4) in blast)

lemma Prune_deletes_witness:
  "\<exists>res s'. Prune sample_crypto 0 (Client_kv (script_client quiet)) prune_options expired = (Inr res, s') \<and>
    value_of (now (sc_view s')) old_key = None"
proof -
  obtain res s' where run: "Prune sample_crypto 0 (Client_kv (script_client quiet)) prune_options expired = (Inr res, s')"
    and items: "pu_Items res = [expired_item ''deleted'']"
    using expired_prune by force
  have k: "NewKeys (po_Prefix prune_options) = Inr DefaultKeys" and d: "po_Delete prune_options"
    by (simp_all add: prune_options_def NewKeys_default)
  have create: "\<forall>key. stable (allowed_writes quiet) (\<lambda>v. value_of v key = None)" using quiet_stable by blast
  have "value_of (now (sc_view s')) (Keys_BundleKey DefaultKeys (it_TargetID (expired_item ''deleted''))
      (it_Generation (expired_item ''deleted''))) = None"
    by (rule Prune_deletes [OF script_client_ok expired_wf d create run k])
      (simp_all add: items expired_item_def)
  with run show ?thesis by (auto simp: expired_item_def old_key_def)
qed

end
