(* ===== verification/Legacy.thy ===== *)
theory Legacy
  imports Pack
begin

text \<open>
  \<open>internal/upgrade/legacy\<close>: the canonical bundle of the previous protocol, its strict validation
  and digest, and its conversion into an identity bundle of the current protocol.
\<close>

section \<open>Data\<close>

definition LegacySchema :: string where "LegacySchema = ''pemcast/v5''"
definition LegacyProtocolRoot :: string where "LegacyProtocolRoot = ''/v5''"

definition KindCertificate :: string where "KindCertificate = ''certificate''"
definition KindPrivateKey :: string where "KindPrivateKey = ''private-key''"
definition LegacyEncodingBase64 :: string where "LegacyEncodingBase64 = ''base64''"

definition CertificateName :: string where "CertificateName = ''fullchain.pem''"
definition PrivateKeyName :: string where "PrivateKeyName = ''privkey.pem''"

record LegacyFile =
  lf_Name :: string
  lf_Kind :: string
  lf_SHA256 :: string
  lf_Encoding :: string
  lf_Data :: string

record Pair =
  pair_Certificate :: string
  pair_PrivateKey :: string

record LegacyManifest =
  lm_Schema :: string
  lm_Files :: "LegacyFile list"
  lm_Pairs :: "Pair list"

record LegacyMaterial =
  lmat_TargetID :: string
  lmat_Generation :: string
  lmat_Manifest :: LegacyManifest
  lmat_Files :: file_map
  lmat_Digest :: string

datatype legacy_error =
    LegacyUnsafeName
  | LegacyTooLarge nat
  | LegacyUnmarshal
  | LegacyUnsupportedSchema string
  | LegacyNotOnePair
  | LegacyUnsafeFile nat string
  | LegacyDuplicateFile string
  | LegacyUnsupportedEncoding string string
  | LegacyInvalidSHA256 string
  | LegacyMissingFile string
  | LegacyInvalidKind string string
  | LegacyWrongPair
  | LegacyInvalidBase64 string
  | LegacySHA256Mismatch string
  | LegacyGenerationMismatch string string
  | LegacyNoMaterial
  | LegacyTargetType
  | LegacyConvert string bundle_error

section \<open>Validation\<close>

text \<open>The first loop of \<open>Validate\<close>; \<open>files\<close> is the Go map, newest entry first.\<close>

fun validate_legacy_files ::
  "nat \<Rightarrow> (string \<times> LegacyFile) list \<Rightarrow> LegacyFile list \<Rightarrow> (legacy_error, (string \<times> LegacyFile) list) result" where
  "validate_legacy_files index files [] = Inr files"
| "validate_legacy_files index files (file # fs) =
     (if \<not> SafeName (lf_Name file) then Inl (LegacyUnsafeFile index (lf_Name file))
      else if map_of files (lf_Name file) \<noteq> None then Inl (LegacyDuplicateFile (lf_Name file))
      else if lf_Encoding file \<noteq> LegacyEncodingBase64
        then Inl (LegacyUnsupportedEncoding (lf_Name file) (lf_Encoding file))
      else if \<not> valid_sha256_hex (lf_SHA256 file) then Inl (LegacyInvalidSHA256 (lf_Name file))
      else validate_legacy_files (Suc index) ((lf_Name file, file) # files) fs)"

text \<open>The second loop, over the two expected names.\<close>

fun check_kinds :: "(string \<times> LegacyFile) list \<Rightarrow> string list \<Rightarrow> (legacy_error, unit) result" where
  "check_kinds files [] = Inr ()"
| "check_kinds files (name # names) =
     (case map_of files name of
        None \<Rightarrow> Inl (LegacyMissingFile name)
      | Some file \<Rightarrow>
          (let expectedKind = (if name = PrivateKeyName then KindPrivateKey else KindCertificate) in
           if lf_Kind file \<noteq> expectedKind then Inl (LegacyInvalidKind name (lf_Kind file))
           else check_kinds files names))"

definition Legacy_Validate :: "LegacyManifest \<Rightarrow> (legacy_error, unit) result" where
  "Legacy_Validate m =
     (if lm_Schema m \<noteq> LegacySchema then Inl (LegacyUnsupportedSchema (lm_Schema m))
      else if length (lm_Files m) \<noteq> 2 \<or> length (lm_Pairs m) \<noteq> 1 then Inl LegacyNotOnePair
      else
        and_then (validate_legacy_files 0 [] (lm_Files m)) id (\<lambda>files.
        and_then (check_kinds files [CertificateName, PrivateKeyName]) id (\<lambda>_.
        let pair = lm_Pairs m ! 0 in
        if pair_Certificate pair \<noteq> CertificateName \<or> pair_PrivateKey pair \<noteq> PrivateKeyName
        then Inl LegacyWrongPair
        else Inr ())))"

section \<open>Decoding\<close>

definition legacy_digest_input :: "crypto \<Rightarrow> file_map \<Rightarrow> bytes" where
  "legacy_digest_input L files =
     LegacySchema @ nul @
     concat (map (\<lambda>name. name @ nul @ sha256 L (map_get files name)) (sorted_keys files))"

definition ContentDigest :: "crypto \<Rightarrow> file_map \<Rightarrow> string" where
  "ContentDigest L files = hex_encode (sha256 L (legacy_digest_input L files))"

fun decode_legacy_files :: "crypto \<Rightarrow> LegacyFile list \<Rightarrow> file_map \<Rightarrow> (legacy_error, file_map) result" where
  "decode_legacy_files L [] files = Inr files"
| "decode_legacy_files L (declared # ds) files =
     (case b64_decode (lf_Data declared) of
        None \<Rightarrow> Inl (LegacyInvalidBase64 (lf_Name declared))
      | Some content \<Rightarrow>
          if bundle_hash L content \<noteq> lf_SHA256 declared then Inl (LegacySHA256Mismatch (lf_Name declared))
          else decode_legacy_files L ds ((lf_Name declared, content) # files))"

definition LegacyFile_members :: "(string \<times> json) list \<Rightarrow> LegacyFile option" where
  "LegacyFile_members ms =
     (case (json_member unmarshal_string [] ms ''name'', json_member unmarshal_string [] ms ''kind'',
            json_member unmarshal_string [] ms ''sha256'', json_member unmarshal_string [] ms ''encoding'',
            json_member unmarshal_string [] ms ''data'') of
        (Some n, Some k, Some s, Some e, Some d) \<Rightarrow>
          Some \<lparr>lf_Name = n, lf_Kind = k, lf_SHA256 = s, lf_Encoding = e, lf_Data = d\<rparr>
      | _ \<Rightarrow> None)"

definition Pair_members :: "(string \<times> json) list \<Rightarrow> Pair option" where
  "Pair_members ms =
     (case (json_member unmarshal_string [] ms ''certificate'', json_member unmarshal_string [] ms ''private-key'') of
        (Some c, Some k) \<Rightarrow> Some \<lparr>pair_Certificate = c, pair_PrivateKey = k\<rparr>
      | _ \<Rightarrow> None)"

definition unmarshal_LegacyFile :: "json \<Rightarrow> LegacyFile option" where
  "unmarshal_LegacyFile =
     unmarshal_struct [''name'', ''kind'', ''sha256'', ''encoding'', ''data''] LegacyFile_members"

definition unmarshal_Pair :: "json \<Rightarrow> Pair option" where
  "unmarshal_Pair = unmarshal_struct [''certificate'', ''private-key''] Pair_members"

definition LegacyManifest_members :: "(string \<times> json) list \<Rightarrow> LegacyManifest option" where
  "LegacyManifest_members ms =
     (case (json_member unmarshal_string [] ms ''schema'',
            json_member (unmarshal_slice unmarshal_LegacyFile) [] ms ''files'',
            json_member (unmarshal_slice unmarshal_Pair) [] ms ''pairs'') of
        (Some s, Some fs, Some ps) \<Rightarrow> Some \<lparr>lm_Schema = s, lm_Files = fs, lm_Pairs = ps\<rparr>
      | _ \<Rightarrow> None)"

definition unmarshal_LegacyManifest :: "bytes \<Rightarrow> LegacyManifest option" where
  "unmarshal_LegacyManifest data =
     (case json_parse data of
        None \<Rightarrow> None
      | Some v \<Rightarrow> unmarshal_struct [''schema'', ''files'', ''pairs''] LegacyManifest_members v)"

definition Legacy_Decode ::
  "crypto \<Rightarrow> string \<Rightarrow> string \<Rightarrow> bytes \<Rightarrow> (legacy_error, LegacyMaterial) result" where
  "Legacy_Decode L targetID generation data =
     (if \<not> SafeName targetID \<or> \<not> SafeName generation then Inl LegacyUnsafeName
      else if MaxEncodedBundleBytes < length data then Inl (LegacyTooLarge (length data))
      else case unmarshal_LegacyManifest data of
        None \<Rightarrow> Inl LegacyUnmarshal
      | Some manifest \<Rightarrow>
          and_then (Legacy_Validate manifest) id (\<lambda>_.
          and_then (decode_legacy_files L (lm_Files manifest) []) id (\<lambda>files.
          let digest = ContentDigest L files in
          if generation \<noteq> Generation digest then Inl (LegacyGenerationMismatch generation (Generation digest))
          else Inr \<lparr>lmat_TargetID = targetID, lmat_Generation = generation, lmat_Manifest = manifest,
                    lmat_Files = files, lmat_Digest = digest\<rparr>)))"

section \<open>Conversion\<close>

definition ConvertTLS ::
  "crypto \<Rightarrow> LegacyMaterial option \<Rightarrow> string \<Rightarrow> (legacy_error, Manifest \<times> bytes \<times> string) result" where
  "ConvertTLS L material bundleType =
     (case material of
        None \<Rightarrow> Inl LegacyNoMaterial
      | Some m \<Rightarrow>
          if bundleType \<noteq> TypeTLSServer \<and> bundleType \<noteq> TypeTLSClient then Inl LegacyTargetType
          else case map_of (lmat_Files m) CertificateName of
            None \<Rightarrow> Inl (LegacyMissingFile CertificateName)
          | Some certificate \<Rightarrow>
              case map_of (lmat_Files m) PrivateKeyName of
                None \<Rightarrow> Inl (LegacyMissingFile PrivateKeyName)
              | Some privateKey \<Rightarrow>
                  (case NewTLSManifest L bundleType certificate privateKey of
                     (manifest, digest) \<Rightarrow>
                       and_then (Encode L manifest) (LegacyConvert (lmat_TargetID m)) (\<lambda>encoded.
                       Inr (manifest, encoded, digest))))"

section \<open>Facts\<close>

lemma legacy_names:
  "CertificateName = NameCertificateChain" "PrivateKeyName = NamePrivateKey"
  by (simp_all add: CertificateName_def PrivateKeyName_def name_defs)

text \<open>What the loop requires of one declaration.\<close>

definition legacy_declaration :: "LegacyFile \<Rightarrow> bool" where
  "legacy_declaration f \<longleftrightarrow>
     SafeName (lf_Name f) \<and> lf_Encoding f = LegacyEncodingBase64 \<and> valid_sha256_hex (lf_SHA256 f)"

lemma validate_legacy_files_Inr:
  "validate_legacy_files index files fs = Inr result \<longleftrightarrow>
     (\<forall>f \<in> set fs. legacy_declaration f) \<and> distinct (map lf_Name fs) \<and>
     (\<forall>f \<in> set fs. lf_Name f \<notin> fst ` set files) \<and>
     result = rev (map (\<lambda>f. (lf_Name f, f)) fs) @ files"
proof (induction fs arbitrary: index files)
  case (Cons f fs)
  show ?case
  proof (cases "legacy_declaration f \<and> lf_Name f \<notin> fst ` set files")
    case True
    then have "map_of files (lf_Name f) = None" by (simp add: map_of_eq_None_iff)
    with True have step: "validate_legacy_files index files (f # fs) =
        validate_legacy_files (Suc index) ((lf_Name f, f) # files) fs"
      by (simp add: legacy_declaration_def)
    show ?thesis unfolding step Cons.IH using True by auto (metis imageI)
  next
    case False
    then have "validate_legacy_files index files (f # fs) \<noteq> Inr result"
      by (auto simp: legacy_declaration_def map_of_eq_None_iff)
    with False show ?thesis by auto
  qed
qed auto

text \<open>The loop over the declarations fills the map with the decoded contents.\<close>

definition legacy_decoded :: "crypto \<Rightarrow> LegacyFile \<Rightarrow> bytes \<Rightarrow> bool" where
  "legacy_decoded L f c \<longleftrightarrow> b64_decode (lf_Data f) = Some c \<and> bundle_hash L c = lf_SHA256 f"

lemma decode_legacy_files_Inr:
  "decode_legacy_files L fs files = Inr result \<Longrightarrow>
     \<exists>cs. list_all2 (legacy_decoded L) fs cs \<and> result = rev (zip (map lf_Name fs) cs) @ files"
proof (induction fs arbitrary: files)
  case (Cons f fs)
  then obtain c where c: "legacy_decoded L f c"
    and rest: "decode_legacy_files L fs ((lf_Name f, c) # files) = Inr result"
    by (auto simp: legacy_decoded_def split: option.splits if_splits)
  obtain cs where cs: "list_all2 (legacy_decoded L) fs cs"
    "result = rev (zip (map lf_Name fs) cs) @ (lf_Name f, c) # files"
    using Cons.IH [OF rest] by blast
  then have "list_all2 (legacy_decoded L) (f # fs) (c # cs) \<and>
      result = rev (zip (map lf_Name (f # fs)) (c # cs)) @ files"
    using c by simp
  then show ?case by blast
qed auto

text \<open>What decoding accepts, and what a conversion keeps of it.\<close>

lemma Legacy_Validate_names:
  assumes "Legacy_Validate m = Inr ()"
  shows "distinct (map lf_Name (lm_Files m))" "lf_Name ` set (lm_Files m) = {CertificateName, PrivateKeyName}"
proof -
  have len: "length (lm_Files m) = 2"
    using assms by (auto simp: Legacy_Validate_def split: if_splits)
  obtain files where f: "validate_legacy_files 0 [] (lm_Files m) = Inr files"
    and k: "check_kinds files [CertificateName, PrivateKeyName] = Inr ()"
    using assms by (auto simp: Legacy_Validate_def and_then_Inr split: if_splits)
  show dist: "distinct (map lf_Name (lm_Files m))" using f by (simp add: validate_legacy_files_Inr)
  have "files = rev (map (\<lambda>f. (lf_Name f, f)) (lm_Files m))" using f by (simp add: validate_legacy_files_Inr)
  then have dom: "fst ` set files = lf_Name ` set (lm_Files m)" by force
  have "map_of files CertificateName \<noteq> None" "map_of files PrivateKeyName \<noteq> None"
    using k by (auto split: option.splits if_splits)
  then have sub: "{CertificateName, PrivateKeyName} \<subseteq> lf_Name ` set (lm_Files m)"
    unfolding map_of_eq_None_iff dom by simp
  have "card (lf_Name ` set (lm_Files m)) = 2"
    using distinct_card [OF dist] len by simp
  moreover have "card {CertificateName, PrivateKeyName} = 2"
    by (simp add: legacy_names)
  ultimately show "lf_Name ` set (lm_Files m) = {CertificateName, PrivateKeyName}"
    using card_subset_eq [OF _ sub] by simp
qed

lemma Legacy_Decode_Inr:
  assumes "Legacy_Decode L t g data = Inr mat"
  shows "SafeName t" "SafeName g" "lmat_TargetID mat = t" "lmat_Generation mat = g"
    "g = Generation (ContentDigest L (lmat_Files mat))"
    "fst ` set (lmat_Files mat) = {CertificateName, PrivateKeyName}"
proof -
  obtain m files where m: "Legacy_Validate m = Inr ()" and d: "decode_legacy_files L (lm_Files m) [] = Inr files"
    and mat: "lmat_TargetID mat = t" "lmat_Generation mat = g" "lmat_Files mat = files" "SafeName t" "SafeName g"
      "g = Generation (ContentDigest L files)"
    using assms by (auto simp: Legacy_Decode_def and_then_Inr Let_def split: if_splits option.splits)
  then show "SafeName t" "SafeName g" "lmat_TargetID mat = t" "lmat_Generation mat = g"
    "g = Generation (ContentDigest L (lmat_Files mat))" by simp_all
  obtain cs where cs: "list_all2 (legacy_decoded L) (lm_Files m) cs" "files = rev (zip (map lf_Name (lm_Files m)) cs)"
    using decode_legacy_files_Inr [OF d] by auto
  have "length cs = length (map lf_Name (lm_Files m))" using cs(1) by (simp add: list_all2_lengthD)
  then have "fst ` set files = lf_Name ` set (lm_Files m)"
    unfolding cs(2) set_rev set_map [symmetric] by simp
  then show "fst ` set (lmat_Files mat) = {CertificateName, PrivateKeyName}"
    using Legacy_Validate_names(2) [OF m] mat(3) by simp
qed

text \<open>A bundle value with the files of the legacy material, under the requested type.\<close>

definition converted :: "crypto \<Rightarrow> LegacyMaterial \<Rightarrow> string \<Rightarrow> bytes \<Rightarrow> string \<Rightarrow> bool" where
  "converted L mat ty data digest \<longleftrightarrow>
     (\<exists>m files. Decode L data = Inr (m, files, digest) \<and> m_Type m = ty \<and>
        map_of files = map_of (lmat_Files mat))"

lemma ConvertTLS_converted:
  assumes "fst ` set (lmat_Files mat) = {CertificateName, PrivateKeyName}"
    and "ConvertTLS L (Some mat) ty = Inr (m, data, digest)"
  shows "(ty = TypeTLSServer \<or> ty = TypeTLSClient) \<and> converted L mat ty data digest"
proof -
  obtain certificate privateKey where ty: "ty = TypeTLSServer \<or> ty = TypeTLSClient"
    and c: "map_of (lmat_Files mat) CertificateName = Some certificate"
    and k: "map_of (lmat_Files mat) PrivateKeyName = Some privateKey"
    and new: "NewTLSManifest L ty certificate privateKey = (m, digest)" and enc: "Encode L m = Inr data"
    using assms(2) by (auto simp: ConvertTLS_def and_then_Inr split: if_splits option.splits prod.splits)
  obtain files where d: "Decode L data = Inr (m, files, ManifestDigest L m files)" and v: "valid_bundle L m files"
    using Decode_Encode [OF enc] by blast
  have "map_of files = map_of (map part_content
      [(NameCertificateChain, RoleCertificateChain, certificate), (NamePrivateKey, RolePrivateKey, privateKey)])"
    using v new unfolding NewTLSManifest_parts Let_def
    by (intro decode_files_encoded [of L]) (auto simp: valid_bundle_def)
  moreover have "map_of (lmat_Files mat) n = None" if "n \<noteq> NameCertificateChain" "n \<noteq> NamePrivateKey" for n
    using assms(1) that by (simp add: map_of_eq_None_iff legacy_names)
  ultimately have "map_of files = map_of (lmat_Files mat)"
    using c k by (auto simp: part_content_def legacy_names)
  then show ?thesis
    using ty d NewTLSManifest_digest [OF new v] by (auto simp: converted_def)
qed

end
