(* ===== verification/Upgrade.thy ===== *)
theory Upgrade
  imports Legacy Publisher
begin

text \<open>
  \<open>internal/upgrade\<close>: the one-way migration of a namespace from the previous protocol. A plan is
  built from one snapshot of the old pointers, applied target by target, and verified; then the
  old keys may be deleted. Where the code ranges over a Go map until it finds an offending key, the
  error does not name the key, because the iteration order is unspecified.
\<close>

section \<open>Data\<close>

record UpgradeOptions =
  uo_Prefix :: string
  uo_DefaultType :: string
  uo_TargetTypes :: "(string \<times> string) list"
  uo_DryRun :: bool
  uo_DeleteOld :: bool
  uo_ConfirmDelete :: bool

record TargetResult =
  tr_TargetID :: string
  tr_Type :: string
  tr_SourceGeneration :: string
  tr_ResultGeneration :: string
  tr_Status :: string

record UpgradeResult =
  ur_Prefix :: string
  ur_Source :: string
  ur_Destination :: string
  ur_DryRun :: bool
  ur_DeletedOld :: bool
  ur_DeletedKeys :: int
  ur_Targets :: "TargetResult list"

record targetPlan =
  tp_id :: string
  tp_bundleType :: string
  tp_sourceKey :: string
  tp_sourceGeneration :: string
  tp_sourceModRevision :: int
  tp_bundleKey :: string
  tp_bundleValue :: bytes
  tp_resultGeneration :: string
  tp_alreadyMigrated :: bool

record migrationPlan =
  mp_prefix :: string
  mp_sourceRoot :: string
  mp_activePrefix :: string
  mp_revision :: int
  mp_targets :: "targetPlan list"

text \<open>The errors that are collected over all targets, and the ones that end the upgrade.\<close>

datatype target_error =
    InvalidDestinationType string string
  | ConversionFailed legacy_error

datatype upgrade_error =
    DeleteNeedsYes
  | UpgradePrefix keys_error
  | UpgradeClientPrefix string string
  | UnsafeProtocolRoot string
  | InspectV4 source_error
  | ActiveV4 string
  | SnapshotV5 source_error
  | SnapshotV6 source_error
  | OnlyV6Populated
  | NoActiveV5 string
  | MixedPrefix
  | UnknownOverride
  | ReadV5Bundle string source_error
  | V5BundleMissing string int
  | ValidateV5 string legacy_error
  | DifferentV6Active string string string
  | InvalidTargets "target_error list"
  | StageV6 string source_error
  | ReadExistingV6 string source_error
  | ExistingV6Differs string
  | CaptureV5 string source_error
  | V5PointerChanged string
  | CaptureV6 string source_error
  | V6PointerAppeared string
  | CommitV6 string source_error
  | PointerChangedAtCommit string
  | PostverifyV5 source_error
  | PostverifyV6 source_error
  | UnexpectedTargetSet
  | V5ChangedAfterwards string
  | V6MismatchAfterwards string
  | PostverifyBundle string source_error
  | V6BundleChanged string
  | DeleteOldFailed source_error

definition zero_upgrade :: UpgradeResult where
  "zero_upgrade = \<lparr>ur_Prefix = [], ur_Source = [], ur_Destination = [], ur_DryRun = False,
     ur_DeletedOld = False, ur_DeletedKeys = 0, ur_Targets = []\<rparr>"

section \<open>The plan\<close>

text \<open>
  One round of the loop over the old targets gives an error that ends the planning, an error that is
  collected (\<open>Inr (Inl e)\<close>), or the plan of the target. Its last part is pure: the conversion of
  the decoded material, and the check against a pointer that exists already.
\<close>

definition plan_material ::
  "crypto \<Rightarrow> Keys \<Rightarrow> string \<Rightarrow> PrefixSnapshot \<Rightarrow> ActivePointer \<Rightarrow> string \<Rightarrow> string \<Rightarrow> LegacyMaterial \<Rightarrow>
   (upgrade_error, (target_error, targetPlan) result) result" where
  "plan_material L destinationKeys sourceActivePrefix destinationSnapshot source bundleType targetID material =
     (case ConvertTLS L (Some material) bundleType of
        Inl e \<Rightarrow> Inr (Inl (ConversionFailed e))
      | Inr (_, encoded, digest) \<Rightarrow>
          (let resultGeneration = Generation digest;
               destinationPointer = pointer_get (ps_Active destinationSnapshot) targetID;
               exists = (map_of (ps_Active destinationSnapshot) targetID \<noteq> None) in
           if exists \<and> ap_Generation destinationPointer \<noteq> resultGeneration
           then Inl (DifferentV6Active targetID (ap_Generation destinationPointer) resultGeneration)
           else Inr (Inr \<lparr>tp_id = targetID, tp_bundleType = bundleType,
             tp_sourceKey = sourceActivePrefix @ targetID, tp_sourceGeneration = ap_Generation source,
             tp_sourceModRevision = ap_ModRevision source,
             tp_bundleKey = Keys_BundleKey destinationKeys targetID resultGeneration,
             tp_bundleValue = encoded, tp_resultGeneration = resultGeneration,
             tp_alreadyMigrated = exists\<rparr>)))"

definition destination_type :: "UpgradeOptions \<Rightarrow> string \<Rightarrow> string" where
  "destination_type options targetID =
     (case map_of (uo_TargetTypes options) targetID of
        None \<Rightarrow> uo_DefaultType options | Some override \<Rightarrow> override)"

definition plan_target ::
  "crypto \<Rightarrow> 's kv \<Rightarrow> Keys \<Rightarrow> string \<Rightarrow> string \<Rightarrow> PrefixSnapshot \<Rightarrow> PrefixSnapshot \<Rightarrow> UpgradeOptions \<Rightarrow> string \<Rightarrow>
   ('s, upgrade_error, (target_error, targetPlan) result) io" where
  "plan_target L kv destinationKeys sourceActivePrefix sourceBundlePrefix sourceSnapshot destinationSnapshot options targetID =
     (let source = pointer_get (ps_Active sourceSnapshot) targetID;
          bundleType = destination_type options targetID in
      if bundleType \<noteq> TypeTLSServer \<and> bundleType \<noteq> TypeTLSClient
      then done_with (Inr (Inl (InvalidDestinationType targetID bundleType)))
      else
        (let sourceBundleKey = sourceBundlePrefix @ targetID @ ''/'' @ ap_Generation source in
         call (kv_GetAt kv sourceBundleKey (ps_Revision sourceSnapshot)) (ReadV5Bundle targetID) (\<lambda>sourceValue.
         if \<not> val_Exists sourceValue
         then done_with (Inl (V5BundleMissing sourceBundleKey (ps_Revision sourceSnapshot)))
         else
           call (done_with (Legacy_Decode L targetID (ap_Generation source) (val_Data sourceValue))) (ValidateV5 targetID)
             (\<lambda>material.
           done_with (plan_material L destinationKeys sourceActivePrefix destinationSnapshot source bundleType
             targetID material)))))"

fun plan_targets ::
  "(string \<Rightarrow> ('s, upgrade_error, (target_error, targetPlan) result) io) \<Rightarrow> string list \<Rightarrow>
   target_error list \<Rightarrow> targetPlan list \<Rightarrow> ('s, upgrade_error, target_error list \<times> targetPlan list) io" where
  "plan_targets plan [] errs targets = done_with (Inr (errs, targets))"
| "plan_targets plan (targetID # ids) errs targets =
     call (plan targetID) id (\<lambda>planned.
       case planned of
         Inl e \<Rightarrow> plan_targets plan ids (errs @ [e]) targets
       | Inr target \<Rightarrow> plan_targets plan ids errs (targets @ [target]))"

definition buildPlan ::
  "crypto \<Rightarrow> 's kv \<Rightarrow> string \<Rightarrow> UpgradeOptions \<Rightarrow> ('s, upgrade_error, migrationPlan) io" where
  "buildPlan L kv prefix options =
     (let sourceRoot = PathJoin [prefix, LegacyProtocolRoot] in
      if sourceRoot = ''/'' \<or> Clean sourceRoot \<noteq> sourceRoot
      then done_with (Inl (UnsafeProtocolRoot sourceRoot))
      else
        (let sourceActivePrefix = sourceRoot @ ''/active/''; sourceBundlePrefix = sourceRoot @ ''/bundles/'' in
         call (done_with (NewKeys prefix)) UpgradePrefix (\<lambda>destinationKeys.
         call (kv_SnapshotActivePrefix kv (PathJoin [prefix, ''/v4''] @ ''/active/'')) InspectV4 (\<lambda>unsupported.
         if map_len (ps_Active unsupported) \<noteq> 0 then done_with (Inl (ActiveV4 prefix))
         else
           call (kv_SnapshotActivePrefix kv sourceActivePrefix) SnapshotV5 (\<lambda>sourceSnapshot.
           call (kv_SnapshotActivePrefix kv (Keys_ActivePrefix destinationKeys)) SnapshotV6 (\<lambda>destinationSnapshot.
           if map_len (ps_Active sourceSnapshot) = 0 then
             (if map_len (ps_Active destinationSnapshot) \<noteq> 0 then done_with (Inl OnlyV6Populated)
              else done_with (Inl (NoActiveV5 sourceActivePrefix)))
           else if \<not> list_all (\<lambda>(targetID, _). map_of (ps_Active sourceSnapshot) targetID \<noteq> None)
                (ps_Active destinationSnapshot)
           then done_with (Inl MixedPrefix)
           else if \<not> list_all (\<lambda>(targetID, _). map_of (ps_Active sourceSnapshot) targetID \<noteq> None)
                (uo_TargetTypes options)
           then done_with (Inl UnknownOverride)
           else
             call (plan_targets (plan_target L kv destinationKeys sourceActivePrefix sourceBundlePrefix
                 sourceSnapshot destinationSnapshot options) (sorted_keys (ps_Active sourceSnapshot)) [] []) id
               (\<lambda>(validationErrors, targets).
             if validationErrors \<noteq> [] then done_with (Inl (InvalidTargets validationErrors))
             else done_with (Inr \<lparr>mp_prefix = prefix, mp_sourceRoot = sourceRoot,
               mp_activePrefix = sourceActivePrefix, mp_revision = ps_Revision sourceSnapshot,
               mp_targets = targets\<rparr>))))))))"


section \<open>Applying and verifying\<close>

definition destinationActivePrefix :: "string \<Rightarrow> string" where
  "destinationActivePrefix prefix = PathJoin [prefix, ''/v6''] @ ''/active/''"

definition destinationActiveKey :: "string \<Rightarrow> string \<Rightarrow> string" where
  "destinationActiveKey prefix targetID = destinationActivePrefix prefix @ targetID"

definition absent_condition :: ActiveCondition where
  "absent_condition = \<lparr>ac_Generation = [], ac_ModRevision = 0, ac_Exists = False\<rparr>"

text \<open>Staging one target's bundle: an existing one must hold the same bytes.\<close>

definition stage_target :: "'s kv \<Rightarrow> targetPlan \<Rightarrow> ('s, upgrade_error, unit) io" where
  "stage_target kv target =
     call (kv_StageBundleIfAbsent kv (tp_bundleKey target) (tp_bundleValue target)) (StageV6 (tp_id target)) (\<lambda>created.
     if created then done_with (Inr ())
     else
       call (kv_Get kv (tp_bundleKey target)) (ReadExistingV6 (tp_id target)) (\<lambda>existing.
       if \<not> val_Exists existing \<or> val_Data existing \<noteq> tp_bundleValue target
       then done_with (Inl (ExistingV6Differs (tp_bundleKey target)))
       else done_with (Inr ())))"

text \<open>Committing its pointer, unless it was migrated before.\<close>

definition commit_target :: "'s kv \<Rightarrow> string \<Rightarrow> targetPlan \<Rightarrow> ('s, upgrade_error, unit) io" where
  "commit_target kv prefix target =
     (if tp_alreadyMigrated target then done_with (Inr ())
      else
        call (kv_Get kv (tp_sourceKey target)) (CaptureV5 (tp_id target)) (\<lambda>source.
        if \<not> val_Exists source \<or> val_Data source \<noteq> tp_sourceGeneration target \<or>
           val_ModRevision source \<noteq> tp_sourceModRevision target
        then done_with (Inl (V5PointerChanged (tp_id target)))
        else
          (let destinationKey = destinationActiveKey prefix (tp_id target) in
           call (kv_Get kv destinationKey) (CaptureV6 (tp_id target)) (\<lambda>destination.
           if val_Exists destination then done_with (Inl (V6PointerAppeared (tp_id target)))
           else
             call (kv_SwapActiveFromSource kv (tp_sourceKey target)
                 \<lparr>ac_Generation = tp_sourceGeneration target, ac_ModRevision = tp_sourceModRevision target,
                  ac_Exists = True\<rparr>
                 destinationKey (tp_resultGeneration target) absent_condition) (CommitV6 (tp_id target)) (\<lambda>updated.
             if \<not> updated then done_with (Inl (PointerChangedAtCommit (tp_id target)))
             else done_with (Inr ()))))))"

definition apply_target :: "'s kv \<Rightarrow> string \<Rightarrow> targetPlan \<Rightarrow> ('s, upgrade_error, unit) io" where
  "apply_target kv prefix target =
     call (stage_target kv target) id (\<lambda>_. commit_target kv prefix target)"

definition applyPlan :: "'s kv \<Rightarrow> migrationPlan \<Rightarrow> ('s, upgrade_error, unit) io" where
  "applyPlan kv plan = each (apply_target kv (mp_prefix plan)) (mp_targets plan)"

definition verify_target ::
  "'s kv \<Rightarrow> PrefixSnapshot \<Rightarrow> PrefixSnapshot \<Rightarrow> targetPlan \<Rightarrow> ('s, upgrade_error, unit) io" where
  "verify_target kv sourceSnapshot destinationSnapshot target =
     (let source = map_of (ps_Active sourceSnapshot) (tp_id target);
          destination = map_of (ps_Active destinationSnapshot) (tp_id target) in
      case source of
        None \<Rightarrow> done_with (Inl (V5ChangedAfterwards (tp_id target)))
      | Some p \<Rightarrow>
          if ap_Generation p \<noteq> tp_sourceGeneration target \<or> ap_ModRevision p \<noteq> tp_sourceModRevision target
          then done_with (Inl (V5ChangedAfterwards (tp_id target)))
          else
            (case destination of
               None \<Rightarrow> done_with (Inl (V6MismatchAfterwards (tp_id target)))
             | Some q \<Rightarrow>
                 if ap_Generation q \<noteq> tp_resultGeneration target
                 then done_with (Inl (V6MismatchAfterwards (tp_id target)))
                 else
                   call (kv_Get kv (tp_bundleKey target)) (PostverifyBundle (tp_id target)) (\<lambda>val.
                   if \<not> val_Exists val \<or> val_Data val \<noteq> tp_bundleValue target
                   then done_with (Inl (V6BundleChanged (tp_bundleKey target)))
                   else done_with (Inr ()))))"

definition verifyPlan :: "'s kv \<Rightarrow> migrationPlan \<Rightarrow> ('s, upgrade_error, unit) io" where
  "verifyPlan kv plan =
     call (kv_SnapshotActivePrefix kv (mp_activePrefix plan)) PostverifyV5 (\<lambda>sourceSnapshot.
     call (kv_SnapshotActivePrefix kv (destinationActivePrefix (mp_prefix plan))) PostverifyV6 (\<lambda>destinationSnapshot.
     if map_len (ps_Active sourceSnapshot) \<noteq> length (mp_targets plan) \<or>
        map_len (ps_Active destinationSnapshot) \<noteq> length (mp_targets plan)
     then done_with (Inl UnexpectedTargetSet)
     else each (verify_target kv sourceSnapshot destinationSnapshot) (mp_targets plan)))"

section \<open>The upgrade\<close>

definition target_result :: "targetPlan \<Rightarrow> TargetResult" where
  "target_result target =
     \<lparr>tr_TargetID = tp_id target, tr_Type = tp_bundleType target,
      tr_SourceGeneration = tp_sourceGeneration target, tr_ResultGeneration = tp_resultGeneration target,
      tr_Status = (if tp_alreadyMigrated target then ''already-migrated'' else ''migrated'')\<rparr>"

definition would_migrate :: "TargetResult \<Rightarrow> TargetResult" where
  "would_migrate t = (if tr_Status t = ''migrated'' then t\<lparr>tr_Status := ''would-migrate''\<rparr> else t)"

text \<open>The calls that follow a plan when it is not a dry run.\<close>

definition run_plan ::
  "'s kv \<Rightarrow> UpgradeOptions \<Rightarrow> migrationPlan \<Rightarrow> UpgradeResult \<Rightarrow>
   ('s, upgrade_error \<times> UpgradeResult, UpgradeResult) io" where
  "run_plan kv options plan result =
     call (applyPlan kv plan) (\<lambda>e. (e, result)) (\<lambda>_.
     call (verifyPlan kv plan) (\<lambda>e. (e, result)) (\<lambda>_.
     if uo_DeleteOld options then
       call (kv_DeletePrefix kv (mp_sourceRoot plan @ ''/'')) (\<lambda>e. (DeleteOldFailed e, result)) (\<lambda>deleted.
       done_with (Inr (result\<lparr>ur_DeletedOld := True, ur_DeletedKeys := deleted\<rparr>)))
     else done_with (Inr result)))"

definition Upgrade ::
  "crypto \<Rightarrow> 's kv \<Rightarrow> UpgradeOptions \<Rightarrow> ('s, upgrade_error \<times> UpgradeResult, UpgradeResult) io" where
  "Upgrade L kv options =
     (if uo_DeleteOld options \<and> \<not> uo_DryRun options \<and> \<not> uo_ConfirmDelete options
      then done_with (Inl (DeleteNeedsYes, zero_upgrade))
      else
        call (done_with (NewKeys (uo_Prefix options))) (\<lambda>e. (UpgradePrefix e, zero_upgrade)) (\<lambda>keys.
        if kv_Prefix kv \<noteq> Keys_Prefix keys
        then done_with (Inl (UpgradeClientPrefix (kv_Prefix kv) (Keys_Prefix keys), zero_upgrade))
        else
          call (buildPlan L kv (Keys_Prefix keys) options) (\<lambda>e. (e, zero_upgrade)) (\<lambda>plan.
          let result = \<lparr>ur_Prefix = Keys_Prefix keys, ur_Source = ''pemcast/v5'', ur_Destination = ''pemcast/v6'',
                ur_DryRun = uo_DryRun options, ur_DeletedOld = False, ur_DeletedKeys = 0,
                ur_Targets = map target_result (mp_targets plan)\<rparr> in
          if uo_DryRun options
          then done_with (Inr (result\<lparr>ur_Targets := map would_migrate (ur_Targets result)\<rparr>))
          else run_plan kv options plan result)))"

section \<open>Target types of the command line\<close>

datatype mapping_error =
    InvalidMapping string
  | InvalidMappingType string string
  | DuplicateMapping string

fun normalize_types :: "(string \<times> string) list \<Rightarrow> string list \<Rightarrow> (mapping_error, (string \<times> string) list) result" where
  "normalize_types targetTypes [] = Inr targetTypes"
| "normalize_types targetTypes (val # vals) =
     (case Cut val (CHR ''='') of
        (targetID, bundleType, found) \<Rightarrow>
          if \<not> found \<or> \<not> SafeName targetID then Inl (InvalidMapping val)
          else if bundleType \<noteq> TypeTLSServer \<and> bundleType \<noteq> TypeTLSClient
          then Inl (InvalidMappingType bundleType targetID)
          else if map_of targetTypes targetID \<noteq> None then Inl (DuplicateMapping targetID)
          else normalize_types ((targetID, bundleType) # targetTypes) vals)"

definition NormalizeTargetTypes :: "string list \<Rightarrow> (mapping_error, (string \<times> string) list) result" where
  "NormalizeTargetTypes values = normalize_types [] values"

end
