(* ===== verification/Upgrade_Facts.thy ===== *)
theory Upgrade_Facts
  imports Upgrade
begin

text \<open>What an upgrade reads, plans, writes and verifies, proved over the store interface.\<close>

section \<open>Reading\<close>

text \<open>The states that a sequence of reads reaches from a view.\<close>

definition reached :: "(view \<Rightarrow> view \<Rightarrow> bool) \<Rightarrow> ('s \<Rightarrow> view) \<Rightarrow> view \<Rightarrow> 's \<Rightarrow> bool" where
  "reached R view u s \<longleftrightarrow> wf_view u \<and> wf_view (view s) \<and> R u (view s)"

text \<open>The states in which an invariant holds of the current version.\<close>

definition holding :: "('s \<Rightarrow> view) \<Rightarrow> (version \<Rightarrow> bool) \<Rightarrow> 's \<Rightarrow> bool" where
  "holding view P s \<longleftrightarrow> wf_view (view s) \<and> P (now (view s))"

lemma reached_holding:
  "stable R P \<Longrightarrow> P (now u) \<Longrightarrow> reached R view u s \<Longrightarrow> holding view P s"
  unfolding reached_def holding_def using stableD by blast

context upgrade_store begin

lemma reached_self: "promises R c view \<Longrightarrow> wf_view (view s) \<Longrightarrow> reached R view (view s) s"
  unfolding reached_def using others_refl [OF others] by blast

lemma reached_step:
  "promises R c view \<Longrightarrow> reached R view u s \<Longrightarrow> R (view s) (view s') \<Longrightarrow> reached R view u s'"
  unfolding reached_def using others_wf others_trans [OF others] by blast

lemma get_reached:
  assumes "promises R c view"
  shows "keeping (reached R view u) (kv_Get (store c) key)"
  by (rule tripleI) (use get [OF assms] reached_step [OF assms] in \<open>unfold reached_def, blast\<close>)

lemma get_at_reached:
  assumes "promises R c view"
  shows "keeping (reached R view u) (kv_GetAt (store c) key n)"
  by (rule tripleI) (use get_at [OF assms] reached_step [OF assms] in \<open>unfold reached_def, blast\<close>)

lemma snapshot_reached:
  assumes "promises R c view"
  shows "keeping (reached R view u) (kv_SnapshotActivePrefix (store c) prefix)"
  by (rule tripleI) (use snapshot [OF assms] reached_step [OF assms] in \<open>unfold reached_def, blast\<close>)

text \<open>An invariant that the others leave true survives reads, and writes that keep it.\<close>

lemma holding_step:
  "promises R c view \<Longrightarrow> stable R P \<Longrightarrow> holding view P s \<Longrightarrow> R (view s) (view s') \<Longrightarrow> holding view P s'"
  unfolding holding_def using others_wf stableD by blast

lemma get_holding:
  assumes "promises R c view" "stable R P"
  shows "keeping (holding view P) (kv_Get (store c) key)"
  by (rule tripleI) (use get [OF assms(1)] holding_step [OF assms] in \<open>unfold holding_def, blast\<close>)

lemma snapshot_holding:
  assumes "promises R c view" "stable R P"
  shows "keeping (holding view P) (kv_SnapshotActivePrefix (store c) prefix)"
  by (rule tripleI) (use snapshot [OF assms(1)] holding_step [OF assms] in \<open>unfold holding_def, blast\<close>)

lemma conditional_holding:
  assumes ok: "promises R c view" and P: "stable R P" and h: "holding view P s"
    and c: "conditional R cond (put key val) (view s) r (view s')"
    and step: "\<And>v. wf_version v \<Longrightarrow> cond v \<Longrightarrow> P v \<Longrightarrow> P (put key val v)"
  shows "holding view P s'"
  using conditional_wf [OF ok _ c] conditional_invariant [OF ok _ c P _ step] h
  unfolding holding_def by blast

end

section \<open>Planning\<close>

context upgrade_store begin

lemma plan_target_reached:
  assumes ok: "promises R c view"
  shows "keeping (reached R view u) (plan_target L (store c) k A B src dst options t)"
  unfolding plan_target_def Let_def
  by (auto intro!: keeping_call get_at_reached [OF ok])

lemma plan_targets_keeping:
  "(\<And>t. keeping I (plan t)) \<Longrightarrow> keeping I (plan_targets plan ids errs targets)"
  by (induction ids arbitrary: errs targets) (auto intro!: keeping_call split: sum.split)

lemma buildPlan_reached:
  assumes ok: "promises R c view"
  shows "keeping (reached R view u) (buildPlan L (store c) prefix options)"
  unfolding buildPlan_def Let_def
  by (auto intro!: keeping_call snapshot_reached [OF ok] plan_targets_keeping plan_target_reached [OF ok])

end

text \<open>
  A plan of a target that is faithful to the version \<open>v\<close> of the snapshot: its pointer, the bundle
  the pointer names, and the conversion of this bundle.
\<close>

definition planned ::
  "crypto \<Rightarrow> Keys \<Rightarrow> string \<Rightarrow> string \<Rightarrow> UpgradeOptions \<Rightarrow> version \<Rightarrow> targetPlan \<Rightarrow> bool" where
  "planned L k activePrefix bundlePrefix options v target \<longleftrightarrow>
     SafeName (tp_id target) \<and> tp_sourceKey target = activePrefix @ tp_id target \<and>
     tp_bundleType target = destination_type options (tp_id target) \<and>
     (\<exists>e. lookup v (tp_sourceKey target) = Some e \<and> tp_sourceGeneration target = TrimSpace (kv_Value e) \<and>
        tp_sourceModRevision target = kv_ModRevision e) \<and>
     (\<exists>old mat digest.
        value_of v (bundlePrefix @ tp_id target @ ''/'' @ tp_sourceGeneration target) = Some old \<and>
        Legacy_Decode L (tp_id target) (tp_sourceGeneration target) old = Inr mat \<and>
        converted L mat (tp_bundleType target) (tp_bundleValue target) digest \<and>
        tp_resultGeneration target = Generation digest) \<and>
     tp_bundleKey target = Keys_BundleKey k (tp_id target) (tp_resultGeneration target)"

lemma snapshot_ofD:
  assumes "snapshot_of v prefix snap" "t \<in> fst ` set (ps_Active snap)"
  shows "SafeName t" and "\<exists>e. lookup v (prefix @ t) = Some e \<and>
    pointer_get (ps_Active snap) t = \<lparr>ap_Generation = TrimSpace (kv_Value e), ap_ModRevision = kv_ModRevision e\<rparr>"
proof -
  show "SafeName t" using assms by (auto simp: snapshot_of_def)
  obtain p where p: "map_of (ps_Active snap) t = Some p"
    using assms(2) by (metis map_of_eq_None_iff not_None_eq)
  moreover have "map_of (ps_Active snap) t = map_option pointer_of (lookup v (prefix @ t))"
    using assms(1) by (simp add: snapshot_of_def)
  ultimately show "\<exists>e. lookup v (prefix @ t) = Some e \<and>
      pointer_get (ps_Active snap) t = \<lparr>ap_Generation = TrimSpace (kv_Value e), ap_ModRevision = kv_ModRevision e\<rparr>"
    by (auto simp: pointer_get_def pointer_of_def)
qed

lemma snapshot_of_ids:
  assumes "snapshot_of v prefix snap"
  shows "t \<in> fst ` set (ps_Active snap) \<longleftrightarrow> lookup v (prefix @ t) \<noteq> None"
proof -
  have "map_of (ps_Active snap) t = map_option pointer_of (lookup v (prefix @ t))"
    using assms by (simp add: snapshot_of_def)
  then show ?thesis by (metis map_of_eq_None_iff option.map_disc_iff)
qed

context upgrade_store begin

text \<open>A read at the revision of the snapshot sees the version of the snapshot.\<close>

lemma get_at_snapshot:
  assumes ok: "promises R c view" and s: "reached R view u s"
    and run: "kv_GetAt (store c) key (v_Revision (now u)) s = (Inr val, s')" and e: "lookup (now u) a = Some e"
  shows "val = Value_of (lookup (now u) key)"
proof -
  have u: "wf_view u" using s by (simp add: reached_def)
  have "e \<in> set (v_Kvs (now u))" using lookup_Some [OF e] by blast
  then have pos: "0 < v_Revision (now u)"
    using wf_view_now [OF u] by (fastforce simp: wf_version_def)
  have "R (view s) (view s')" and v: "\<exists>v. version_at (Some (v_Revision (now u))) (view s') = Some v \<and>
      val = Value_of (lookup v key)"
    using get_at [OF ok _ run] s pos unfolding reached_def by blast+
  then have "writes u (view s')"
    using s others_writes [OF others [OF ok]] others_trans [OF others [OF ok]] unfolding reached_def by blast
  from version_at_writes [OF this u] v show ?thesis by simp
qed

lemma plan_target_planned:
  assumes ok: "promises R c view" and src: "snapshot_of (now u) A src" and t: "t \<in> fst ` set (ps_Active src)"
    and s: "reached R view u s"
    and run: "plan_target L (store c) k A B src dst options t s = (Inr (Inr target), s')"
  shows "planned L k A B options (now u) target \<and> tp_id target = t"
proof -
  let ?p = "pointer_get (ps_Active src) t"
  let ?ty = "destination_type options t"
  let ?key = "B @ t @ ''/'' @ ap_Generation ?p"
  obtain e where e: "lookup (now u) (A @ t) = Some e"
    and p: "?p = \<lparr>ap_Generation = TrimSpace (kv_Value e), ap_ModRevision = kv_ModRevision e\<rparr>"
    using snapshot_ofD(2) [OF src t] by blast
  have rev: "ps_Revision src = v_Revision (now u)" using src by (simp add: snapshot_of_def)
  obtain val t1 mat where g: "kv_GetAt (store c) ?key (ps_Revision src) s = (Inr val, t1)"
    and ex: "val_Exists val" and mat: "Legacy_Decode L t (ap_Generation ?p) (val_Data val) = Inr mat"
    and r: "plan_material L k A dst ?p ?ty t mat = Inr (Inr target)"
    using run
    by (auto simp: plan_target_def Let_def call_Inr eq_commute [of "Inr _" "Legacy_Decode _ _ _ _"]
        eq_commute [of "Inr _" "plan_material _ _ _ _ _ _ _ _"] split: if_split_asm)
  obtain m data digest where conv: "ConvertTLS L (Some mat) ?ty = Inr (m, data, digest)"
    using r by (auto simp: plan_material_def split: sum.split_asm)
  then have target: "tp_id target = t" "tp_bundleType target = ?ty" "tp_sourceKey target = A @ t"
      "tp_sourceGeneration target = ap_Generation ?p" "tp_sourceModRevision target = ap_ModRevision ?p"
      "tp_bundleKey target = Keys_BundleKey k t (Generation digest)" "tp_bundleValue target = data"
      "tp_resultGeneration target = Generation digest"
    using r by (auto simp: plan_material_def Let_def split: if_split_asm)
  have "val = Value_of (lookup (now u) ?key)"
    using get_at_snapshot [OF ok s g [unfolded rev] e] .
  then have old: "value_of (now u) ?key = Some (val_Data val)"
    using ex by (auto simp: Value_of_def value_of_def split: option.splits)
  have "converted L mat ?ty data digest"
    using ConvertTLS_converted [OF Legacy_Decode_Inr(6) [OF mat] conv] by blast
  then show ?thesis
    unfolding planned_def using e p old mat target snapshot_ofD(1) [OF src t] by auto
qed

end

text \<open>A plan is faithful to one version, and covers every old pointer of it.\<close>

definition plan_of :: "crypto \<Rightarrow> Keys \<Rightarrow> UpgradeOptions \<Rightarrow> string \<Rightarrow> version \<Rightarrow> migrationPlan \<Rightarrow> bool" where
  "plan_of L k options prefix v plan \<longleftrightarrow>
     mp_prefix plan = prefix \<and> mp_sourceRoot plan = PathJoin [prefix, LegacyProtocolRoot] \<and>
     mp_activePrefix plan = mp_sourceRoot plan @ ''/active/'' \<and>
     distinct (map tp_id (mp_targets plan)) \<and> mp_targets plan \<noteq> [] \<and>
     (\<forall>t. lookup v (mp_activePrefix plan @ t) \<noteq> None \<longleftrightarrow> t \<in> tp_id ` set (mp_targets plan)) \<and>
     (\<forall>target \<in> set (mp_targets plan).
        planned L k (mp_activePrefix plan) (mp_sourceRoot plan @ ''/bundles/'') options v target)"

context upgrade_store begin

lemma plan_targets_planned:
  assumes ok: "promises R c view" and src: "snapshot_of (now u) A src"
  shows "\<forall>t \<in> set ids. t \<in> fst ` set (ps_Active src) \<Longrightarrow> reached R view u s \<Longrightarrow>
    plan_targets (plan_target L (store c) k A B src dst options) ids errs targets s = (Inr (errs', targets'), s') \<Longrightarrow>
    \<exists>new. length errs + length ids \<le> length errs' + length new \<and> targets' = targets @ new \<and>
      (errs' = [] \<longrightarrow> map tp_id new = ids) \<and> (\<forall>target \<in> set new. planned L k A B options (now u) target)"
proof (induction ids arbitrary: s errs targets)
  case (Cons t ids)
  obtain r w where r: "plan_target L (store c) k A B src dst options t s = (Inr r, w)"
    and rest: "(case r of Inl e \<Rightarrow> plan_targets (plan_target L (store c) k A B src dst options) ids (errs @ [e]) targets
      | Inr target \<Rightarrow> plan_targets (plan_target L (store c) k A B src dst options) ids errs (targets @ [target])) w =
      (Inr (errs', targets'), s')"
    using Cons.prems(3) by (auto simp: call_Inr)
  have w: "reached R view u w"
    using tripleD [OF plan_target_reached [OF ok] r Cons.prems(2)] .
  have ids: "\<forall>t \<in> set ids. t \<in> fst ` set (ps_Active src)" using Cons.prems(1) by simp
  show ?case
  proof (cases r)
    case (Inl e)
    then have "plan_targets (plan_target L (store c) k A B src dst options) ids (errs @ [e]) targets w =
      (Inr (errs', targets'), s')" using rest by simp
    from Cons.IH [OF ids w this] obtain new where new: "length (errs @ [e]) + length ids \<le> length errs' + length new"
      "targets' = targets @ new" "errs' = [] \<longrightarrow> map tp_id new = ids"
      "\<forall>target \<in> set new. planned L k A B options (now u) target" by blast
    have "errs' \<noteq> []"
    proof
      assume "errs' = []"
      then have "length new = length ids" using new(3) by (metis length_map)
      then show False using new(1) \<open>errs' = []\<close> by simp
    qed
    with new show ?thesis by auto
  next
    case (Inr target)
    have p: "planned L k A B options (now u) target \<and> tp_id target = t"
      using plan_target_planned [OF ok src _ Cons.prems(2) r [unfolded Inr]] Cons.prems(1) by simp
    have "plan_targets (plan_target L (store c) k A B src dst options) ids errs (targets @ [target]) w =
      (Inr (errs', targets'), s')" using rest Inr by simp
    from Cons.IH [OF ids w this] obtain new where new: "length errs + length ids \<le> length errs' + length new"
      "targets' = targets @ [target] @ new" "errs' = [] \<longrightarrow> map tp_id new = ids"
      "\<forall>target \<in> set new. planned L k A B options (now u) target" by auto
    then show ?thesis
      by (intro exI [of _ "target # new"]) (use p in auto)
  qed
qed simp

lemma buildPlan_plan_of:
  assumes ok: "promises R c view" and wf: "wf_view (view s)"
    and run: "buildPlan L (store c) prefix options s = (Inr plan, s')"
  shows "\<exists>k u. NewKeys prefix = Inr k \<and> R (view s) u \<and> wf_view u \<and> R u (view s') \<and>
    plan_of L k options prefix (now u) plan"
proof -
  let ?root = "PathJoin [prefix, LegacyProtocolRoot]"
  let ?A = "?root @ ''/active/''" and ?B = "?root @ ''/bundles/''"
  obtain k v4 t1 src t2 dst t3 targets where k: "NewKeys prefix = Inr k"
    and g1: "kv_SnapshotActivePrefix (store c) (PathJoin [prefix, ''/v4''] @ ''/active/'') s = (Inr v4, t1)"
    and g2: "kv_SnapshotActivePrefix (store c) ?A t1 = (Inr src, t2)"
    and g3: "kv_SnapshotActivePrefix (store c) (Keys_ActivePrefix k) t2 = (Inr dst, t3)"
    and some: "map_len (ps_Active src) \<noteq> 0"
    and targets: "plan_targets (plan_target L (store c) k ?A ?B src dst options) (sorted_keys (ps_Active src)) [] [] t3 =
      (Inr ([], targets), s')"
    and plan: "plan = \<lparr>mp_prefix = prefix, mp_sourceRoot = ?root, mp_activePrefix = ?A,
      mp_revision = ps_Revision src, mp_targets = targets\<rparr>"
    using run
    by (auto simp: buildPlan_def Let_def call_Inr eq_commute [of "Inr _" "NewKeys _"] split: if_split_asm)
  have r1: "R (view s) (view t1)" using snapshot [OF ok wf g1] by blast
  have wf1: "wf_view (view t1)" using others_wf [OF ok r1 wf] .
  have r2: "R (view t1) (view t2)" and src: "snapshot_of (now (view t2)) ?A src"
    using snapshot [OF ok wf1 g2] by blast+
  have wf2: "wf_view (view t2)" using others_wf [OF ok r2 wf1] .
  have t3: "reached R view (view t2) t3"
    using tripleD [OF snapshot_reached [OF ok] g3 reached_self [OF ok wf2]] .
  have s': "reached R view (view t2) s'"
    using tripleD [OF plan_targets_keeping [OF plan_target_reached [OF ok]] targets t3] .
  have ids: "map tp_id targets = sorted_keys (ps_Active src)"
    and planned: "\<forall>target \<in> set targets. planned L k ?A ?B options (now (view t2)) target"
    using plan_targets_planned [OF ok src _ t3 targets] by auto
  have dom: "tp_id ` set targets = fst ` set (ps_Active src)"
    using arg_cong [OF ids, of set] by simp
  have "fst ` set (ps_Active src) \<noteq> {}" using some by (auto simp: map_len_def)
  then have "targets \<noteq> []" using dom by auto
  then have "plan_of L k options prefix (now (view t2)) plan"
    unfolding plan_of_def
    by (simp add: plan ids distinct_sorted_keys planned dom snapshot_of_ids [OF src, simplified])
  moreover have "R (view s) (view t2)" using r1 r2 others_trans [OF others [OF ok]] by blast
  moreover have "R (view t2) (view s')" using s' by (simp add: reached_def)
  ultimately show ?thesis using k wf2 by blast
qed

end

section \<open>Applying\<close>

definition stored :: "targetPlan \<Rightarrow> version \<Rightarrow> bool" where
  "stored target v \<longleftrightarrow> value_of v (tp_bundleKey target) = Some (tp_bundleValue target)"

lemma Value_of_stored:
  "val = Value_of (lookup v (tp_bundleKey target)) \<Longrightarrow> val_Exists val \<Longrightarrow>
   val_Data val = tp_bundleValue target \<Longrightarrow> stored target v"
  by (auto simp: stored_def value_of_def Value_of_def split: option.splits)

context upgrade_store begin

lemma stage_target_holding:
  assumes ok: "promises R c view" and P: "stable R P"
    and step: "\<And>v. wf_version v \<Longrightarrow> lookup v (tp_bundleKey target) = None \<Longrightarrow> P v \<Longrightarrow>
      P (put (tp_bundleKey target) (tp_bundleValue target) v)"
  shows "triple (holding view P) (stage_target (store c) target)
    (\<lambda>r s. holding view P s \<and> (r = Inr () \<longrightarrow> stored target (now (view s))))"
  unfolding stage_target_def
proof (rule triple_call)
  show "triple (holding view P) (kv_StageBundleIfAbsent (store c) (tp_bundleKey target) (tp_bundleValue target))
    (\<lambda>r s. holding view P s \<and> (r = Inr True \<longrightarrow> stored target (now (view s))))"
  proof (rule tripleI)
    fix s r s' assume s: "holding view P s"
      and run: "kv_StageBundleIfAbsent (store c) (tp_bundleKey target) (tp_bundleValue target) s = (r, s')"
    have wf: "wf_view (view s)" using s by (simp add: holding_def)
    note st = stage [OF ok wf run]
    have "stored target (now (view s'))" if created: "r = Inr True"
    proof -
      obtain vs where vs: "R (view s) vs" "view s' = advance (put (tp_bundleKey target) (tp_bundleValue target)) vs"
        using conditional_done st created by fast
      have "wf_version (now vs)" using others_wf [OF ok vs(1) wf] wf_view_now by blast
      then show ?thesis by (simp add: vs(2) stored_def value_of_put)
    qed
    then show "holding view P s' \<and> (r = Inr True \<longrightarrow> stored target (now (view s')))"
      using conditional_holding [OF ok P s st step] by blast
  qed
  show "triple (\<lambda>s. holding view P s \<and> (Inr created = Inr True \<longrightarrow> stored target (now (view s))))
      (if created then done_with (Inr ())
       else call (kv_Get (store c) (tp_bundleKey target)) (ReadExistingV6 (tp_id target)) (\<lambda>existing.
         if \<not> val_Exists existing \<or> val_Data existing \<noteq> tp_bundleValue target
         then done_with (Inl (ExistingV6Differs (tp_bundleKey target))) else done_with (Inr ())))
      (\<lambda>r s. holding view P s \<and> (r = Inr () \<longrightarrow> stored target (now (view s))))" for created
  proof (cases created)
    case False
    have "triple (holding view P) (kv_Get (store c) (tp_bundleKey target))
        (\<lambda>r s. holding view P s \<and> (\<forall>val. r = Inr val \<longrightarrow> val_Exists val \<longrightarrow>
          val_Data val = tp_bundleValue target \<longrightarrow> stored target (now (view s))))"
    proof (rule tripleI)
      fix s r s' assume s: "holding view P s" and run: "kv_Get (store c) (tp_bundleKey target) s = (r, s')"
      then show "holding view P s' \<and> (\<forall>val. r = Inr val \<longrightarrow> val_Exists val \<longrightarrow>
          val_Data val = tp_bundleValue target \<longrightarrow> stored target (now (view s')))"
        using tripleD [OF get_holding [OF ok P] run s] get [OF ok _ run] Value_of_stored
        unfolding holding_def by blast
    qed
    then have "triple (holding view P) (call (kv_Get (store c) (tp_bundleKey target)) (ReadExistingV6 (tp_id target)) (\<lambda>existing.
         if \<not> val_Exists existing \<or> val_Data existing \<noteq> tp_bundleValue target
         then done_with (Inl (ExistingV6Differs (tp_bundleKey target))) else done_with (Inr ())))
      (\<lambda>r s. holding view P s \<and> (r = Inr () \<longrightarrow> stored target (now (view s))))"
      by (rule triple_call) simp_all
    then show ?thesis using False by simp
  qed simp
qed simp

lemma commit_target_holding:
  assumes ok: "promises R c view" and P: "stable R P"
    and step: "\<And>v. wf_version v \<Longrightarrow> lookup v (destinationActiveKey prefix (tp_id target)) = None \<Longrightarrow> P v \<Longrightarrow>
      P (put (destinationActiveKey prefix (tp_id target)) (tp_resultGeneration target) v)"
  shows "keeping (holding view P) (commit_target (store c) prefix target)"
proof -
  let ?key = "destinationActiveKey prefix (tp_id target)"
  let ?src = "\<lparr>ac_Generation = tp_sourceGeneration target, ac_ModRevision = tp_sourceModRevision target, ac_Exists = True\<rparr>"
  have swap: "keeping (holding view P) (kv_SwapActiveFromSource (store c) (tp_sourceKey target) ?src ?key
      (tp_resultGeneration target) absent_condition)"
  proof (rule tripleI)
    fix s r s' assume s: "holding view P s"
      and run: "kv_SwapActiveFromSource (store c) (tp_sourceKey target) ?src ?key
      (tp_resultGeneration target) absent_condition s = (r, s')"
    have "wf_view (view s)" using s by (simp add: holding_def)
    from swap_from [OF ok this run] have "conditional R
        (\<lambda>v. condition_holds v (tp_sourceKey target) ?src \<and> condition_holds v ?key absent_condition)
        (put ?key (tp_resultGeneration target)) (view s) r (view s')" by simp
    from conditional_holding [OF ok P s this] step show "holding view P s'"
      by (simp add: condition_holds_def absent_condition_def)
  qed
  show ?thesis
    unfolding commit_target_def Let_def
    by (auto intro!: keeping_call get_holding [OF ok P] swap)
qed

text \<open>An invariant of the application of a whole plan.\<close>

lemma applyPlan_holding:
  assumes ok: "promises R c view" and P: "stable R P"
    and stable_stored: "\<And>target. target \<in> set (mp_targets plan) \<Longrightarrow> needs \<Longrightarrow> stable R (stored target)"
    and put_bundle: "\<And>target v. target \<in> set (mp_targets plan) \<Longrightarrow> wf_version v \<Longrightarrow>
      lookup v (tp_bundleKey target) = None \<Longrightarrow> P v \<Longrightarrow> P (put (tp_bundleKey target) (tp_bundleValue target) v)"
    and put_active: "\<And>target v. target \<in> set (mp_targets plan) \<Longrightarrow> wf_version v \<Longrightarrow>
      lookup v (destinationActiveKey (mp_prefix plan) (tp_id target)) = None \<Longrightarrow> P v \<Longrightarrow>
      (needs \<Longrightarrow> stored target v) \<Longrightarrow>
      P (put (destinationActiveKey (mp_prefix plan) (tp_id target)) (tp_resultGeneration target) v)"
    and keys: "\<And>target. target \<in> set (mp_targets plan) \<Longrightarrow>
      tp_bundleKey target \<noteq> destinationActiveKey (mp_prefix plan) (tp_id target)"
  shows "keeping (holding view P) (applyPlan (store c) plan)"
proof -
  have one: "keeping (holding view P) (apply_target (store c) (mp_prefix plan) target)"
    if t: "target \<in> set (mp_targets plan)" for target
    unfolding apply_target_def
  proof (rule triple_call)
    show "triple (holding view P) (stage_target (store c) target)
      (\<lambda>r s. holding view P s \<and> (r = Inr () \<longrightarrow> stored target (now (view s))))"
      by (rule stage_target_holding [OF ok P]) (rule put_bundle [OF t])
    let ?Q = "\<lambda>v. P v \<and> (needs \<longrightarrow> stored target v)"
    have Q: "stable R ?Q"
    proof (cases needs)
      case True
      then show ?thesis using P stable_stored [OF t True] by (simp add: stable_def)
    qed (use P in simp)
    have "keeping (holding view ?Q) (commit_target (store c) (mp_prefix plan) target)"
    proof (rule commit_target_holding [OF ok Q])
      fix v assume v: "wf_version v" "lookup v (destinationActiveKey (mp_prefix plan) (tp_id target)) = None" "?Q v"
      then have "P (put (destinationActiveKey (mp_prefix plan) (tp_id target)) (tp_resultGeneration target) v)"
        by (intro put_active [OF t]) simp_all
      moreover have "needs \<Longrightarrow> stored target (put (destinationActiveKey (mp_prefix plan) (tp_id target)) (tp_resultGeneration target) v)"
        using v keys [OF t] by (simp add: stored_def value_of_put)
      ultimately show "?Q (put (destinationActiveKey (mp_prefix plan) (tp_id target)) (tp_resultGeneration target) v)"
        by blast
    qed
    then show "triple (\<lambda>s. holding view P s \<and> (Inr x = Inr () \<longrightarrow> stored target (now (view s))))
        (commit_target (store c) (mp_prefix plan) target) (\<lambda>_. holding view P)" for x :: unit
      by (rule triple_pre [OF triple_post]) (simp_all add: holding_def)
  qed simp
  show ?thesis
    unfolding applyPlan_def
  proof (rule tripleI)
    fix s r s' assume s: "holding view P s"
      and run: "each (apply_target (store c) (mp_prefix plan)) (mp_targets plan) s = (r, s')"
    show "holding view P s'"
      by (rule each_invariant [where P = "holding view P", OF _ s run]) (use tripleD [OF one] in blast)
  qed
qed

end

section \<open>The whole upgrade\<close>

definition old_root :: "Keys \<Rightarrow> string" where
  "old_root k = PathJoin [keys_prefix k, LegacyProtocolRoot]"

lemma destinationActiveKey_eq: "destinationActiveKey (Keys_Prefix k) t = Keys_ActiveKey k t"
  and destinationActivePrefix_eq: "destinationActivePrefix (Keys_Prefix k) = Keys_ActivePrefix k"
  by (simp_all add: destinationActiveKey_def destinationActivePrefix_def Keys_ActiveKey_def
      Keys_ActivePrefix_def Keys_Root_def Keys_Prefix_def ProtocolRoot_def)

text \<open>The old keys of a namespace and its new ones are apart.\<close>

lemma old_root_apart:
  assumes "wf_keys k"
  shows "\<not> HasPrefix (Keys_Root k @ x) (old_root k @ ''/'')"
proof -
  obtain ws where ws: "keys_prefix k = abs_path ws" "\<forall>w \<in> set ws. plain_component w"
    using wf_keysE [OF assms] .
  define base where "base = (if ws = [] then ''/'' else abs_path ws @ ''/'')"
  have "abs_path (ws @ [v]) = base @ v" for v
    using abs_path_snoc [of ws v] by (auto simp: base_def abs_path_def)
  moreover have "old_root k = abs_path (ws @ [''v5''])"
    using PathJoin_abs_path [OF ws(2) plain_literals(2)] by (simp add: old_root_def LegacyProtocolRoot_def ws(1))
  ultimately have "Keys_Root k = base @ ''v6''" "old_root k = base @ ''v5''"
    using Keys_paths(1) [OF ws] by simp_all
  then show ?thesis by simp
qed

lemma keys_not_old:
  assumes "wf_keys k"
  shows "\<not> HasPrefix (Keys_ActiveKey k t) (old_root k @ ''/'')"
    and "\<not> HasPrefix (Keys_BundleKey k t g) (old_root k @ ''/'')"
  using old_root_apart [OF assms]
  by (simp_all add: Keys_ActiveKey_def Keys_ActivePrefix_def Keys_BundleKey_def Keys_TargetBundlePrefix_def
      Keys_BundlePrefix_def)

text \<open>
  What an invariant of the new namespace has to survive: new bundles, new pointers (with their
  bundle, where the invariant needs it) and, when asked for, the deletion of the old keys.
\<close>

definition survives_upgrade :: "Keys \<Rightarrow> bool \<Rightarrow> bool \<Rightarrow> (version \<Rightarrow> bool) \<Rightarrow> bool" where
  "survives_upgrade k needs deletes P \<longleftrightarrow>
     (\<forall>t g data v. SafeName t \<longrightarrow> wf_version v \<longrightarrow> lookup v (Keys_BundleKey k t g) = None \<longrightarrow> P v \<longrightarrow>
        P (put (Keys_BundleKey k t g) data v)) \<and>
     (\<forall>t g v. SafeName t \<longrightarrow> wf_version v \<longrightarrow> lookup v (Keys_ActiveKey k t) = None \<longrightarrow> P v \<longrightarrow>
        (needs \<longrightarrow> value_of v (Keys_BundleKey k t g) \<noteq> None) \<longrightarrow> P (put (Keys_ActiveKey k t) g v)) \<and>
     (deletes \<longrightarrow> (\<forall>v. P v \<longrightarrow> P (delete_where (\<lambda>key. HasPrefix key (old_root k @ ''/'')) v)))"

context upgrade_store begin

lemma buildPlan_holding:
  assumes ok: "promises R c view" and P: "stable R P"
  shows "triple (holding view P) (buildPlan L (store c) prefix options)
    (\<lambda>r s. holding view P s \<and> (\<forall>plan. r = Inr plan \<longrightarrow>
      (\<exists>k v. NewKeys prefix = Inr k \<and> plan_of L k options prefix v plan)))"
proof (rule tripleI)
  fix s r s' assume s: "holding view P s" and run: "buildPlan L (store c) prefix options s = (r, s')"
  have wf: "wf_view (view s)" and Ps: "P (now (view s))" using s by (simp_all add: holding_def)
  have "reached R view (view s) s'"
    using tripleD [OF buildPlan_reached [OF ok] run reached_self [OF ok wf]] .
  then have "holding view P s'" by (rule reached_holding [OF P Ps])
  moreover have "\<exists>k v. NewKeys prefix = Inr k \<and> plan_of L k options prefix v plan" if plan: "r = Inr plan" for plan
    using buildPlan_plan_of [OF ok wf] run plan by blast
  ultimately show "holding view P s' \<and> (\<forall>plan. r = Inr plan \<longrightarrow>
      (\<exists>k v. NewKeys prefix = Inr k \<and> plan_of L k options prefix v plan))" by blast
qed

lemma verify_targets_holding:
  assumes ok: "promises R c view" and P: "stable R P"
  shows "keeping (holding view P) (each (verify_target (store c) src dst) targets)"
proof (induction targets)
  case (Cons target targets)
  have "keeping (holding view P) (verify_target (store c) src dst target)"
    unfolding verify_target_def Let_def
    by (auto intro!: keeping_call get_holding [OF ok P] split: option.split)
  then show ?case using Cons by (auto intro!: keeping_call)
qed simp

lemma verifyPlan_holding:
  assumes ok: "promises R c view" and P: "stable R P"
  shows "keeping (holding view P) (verifyPlan (store c) plan)"
  unfolding verifyPlan_def
  by (auto intro!: keeping_call snapshot_holding [OF ok P] verify_targets_holding [OF ok P])

lemma run_plan_holding:
  assumes ok: "promises R c view" and P: "stable R P" and plan: "plan_of L k options (Keys_Prefix k) v plan"
    and keep: "needs \<Longrightarrow> (\<And>t g data. keeps R (Keys_BundleKey k t g) data)"
    and survive: "survives_upgrade k needs (uo_DeleteOld options) P"
  shows "keeping (holding view P) (run_plan (store c) options plan result)"
proof -
  have target: "SafeName (tp_id target) \<and> tp_bundleKey target = Keys_BundleKey k (tp_id target) (tp_resultGeneration target)"
    if "target \<in> set (mp_targets plan)" for target
    using plan that by (auto simp: plan_of_def planned_def)
  have prefix: "mp_prefix plan = Keys_Prefix k" "mp_sourceRoot plan = old_root k"
    using plan by (auto simp: plan_of_def old_root_def Keys_Prefix_def)
  have applied: "keeping (holding view P) (applyPlan (store c) plan)"
  proof (rule applyPlan_holding [OF ok P, where needs = needs])
    fix target assume t: "target \<in> set (mp_targets plan)"
    note tk = target [OF t]
    show "stable R (stored target)" if needs
      using keep [OF that] tk by (simp add: keeps_def stored_def [abs_def])
    show "tp_bundleKey target \<noteq> destinationActiveKey (mp_prefix plan) (tp_id target)"
      using tk ActiveKey_not_BundleKey_any by (metis prefix(1) destinationActiveKey_eq)
    show "P (put (tp_bundleKey target) (tp_bundleValue target) w)"
      if "wf_version w" "lookup w (tp_bundleKey target) = None" "P w" for w
      using survive tk that by (simp add: survives_upgrade_def)
    show "P (put (destinationActiveKey (mp_prefix plan) (tp_id target)) (tp_resultGeneration target) w)"
      if "wf_version w" "lookup w (destinationActiveKey (mp_prefix plan) (tp_id target)) = None" "P w"
        "needs \<Longrightarrow> stored target w" for w
      using survive tk that by (simp add: survives_upgrade_def prefix destinationActiveKey_eq stored_def)
  qed
  have del: "keeping (holding view P) (kv_DeletePrefix (store c) (old_root k @ ''/''))" if d: "uo_DeleteOld options"
  proof (rule tripleI)
    fix s r s' assume s: "holding view P s" and run: "kv_DeletePrefix (store c) (old_root k @ ''/'') s = (r, s')"
    have wf: "wf_view (view s)" using s by (simp add: holding_def)
    let ?del = "delete_where (\<lambda>key. HasPrefix key (old_root k @ ''/''))"
    obtain vs where vs: "R (view s) vs" "view s' = vs \<or> view s' = advance ?del vs"
      using delete_prefix [OF ok wf run] by blast
    have wfs: "wf_view vs" and Pvs: "P (now vs)"
      using others_wf [OF ok vs(1) wf] stableD [OF P wf vs(1)] s by (simp_all add: holding_def)
    have "wf_view (advance ?del vs)" by (rule write_step_wf [OF delete_step wfs])
    moreover have "P (?del (now vs))" using survive d Pvs by (simp add: survives_upgrade_def)
    ultimately show "holding view P s'" using vs(2) wfs Pvs by (auto simp: holding_def)
  qed
  show ?thesis
    unfolding run_plan_def prefix(2)
    by (intro keeping_call applied verifyPlan_holding [OF ok P]) (auto intro!: keeping_call del)
qed

lemma upgrade_invariant:
  assumes ok: "promises R c view" and P: "stable R P"
    and k: "NewKeys (uo_Prefix options) = Inr k" "NewKeys (Keys_Prefix k) = Inr k"
    and keep: "needs \<Longrightarrow> (\<And>t g data. keeps R (Keys_BundleKey k t g) data)"
    and survive: "survives_upgrade k needs (uo_DeleteOld options) P"
  shows "keeping (holding view P) (Upgrade L (store c) options)"
proof -
  have "keeping (holding view P) (call (buildPlan L (store c) (Keys_Prefix k) options) (\<lambda>e. (e, zero_upgrade)) f)"
    if f: "\<And>plan v. plan_of L k options (Keys_Prefix k) v plan \<Longrightarrow> keeping (holding view P) (f plan)" for f
  proof (rule keeping_call_with [OF buildPlan_holding [OF ok P]])
    fix plan assume "\<exists>k' v. NewKeys (Keys_Prefix k) = Inr k' \<and> plan_of L k' options (Keys_Prefix k) v plan"
    then show "keeping (holding view P) (f plan)" using k(2) f by auto
  qed
  note planned = this
  show ?thesis
    unfolding Upgrade_def k(1) Let_def call_ok
    by (auto intro!: planned run_plan_holding [OF ok P _ keep survive])
qed

end

section \<open>A successful upgrade\<close>

text \<open>
  One target is migrated: relative to the version \<open>v\<close> that the plan was read from, the new pointer
  of the version \<open>w\<close> names a stored bundle with the files of the old one.
\<close>

definition migrated :: "crypto \<Rightarrow> Keys \<Rightarrow> UpgradeOptions \<Rightarrow> version \<Rightarrow> version \<Rightarrow> TargetResult \<Rightarrow> bool" where
  "migrated L k options v w tr \<longleftrightarrow>
     (\<exists>e old mat data digest pointer.
        lookup v (old_root k @ ''/active/'' @ tr_TargetID tr) = Some e \<and>
        tr_SourceGeneration tr = TrimSpace (kv_Value e) \<and>
        value_of v (old_root k @ ''/bundles/'' @ tr_TargetID tr @ ''/'' @ tr_SourceGeneration tr) = Some old \<and>
        Legacy_Decode L (tr_TargetID tr) (tr_SourceGeneration tr) old = Inr mat \<and>
        tr_Type tr = destination_type options (tr_TargetID tr) \<and>
        converted L mat (tr_Type tr) data digest \<and> tr_ResultGeneration tr = Generation digest \<and>
        value_of w (Keys_BundleKey k (tr_TargetID tr) (tr_ResultGeneration tr)) = Some data \<and>
        value_of w (Keys_ActiveKey k (tr_TargetID tr)) = Some pointer \<and>
        TrimSpace pointer = tr_ResultGeneration tr)"

text \<open>Others that leave the entries of the new namespace alone.\<close>

definition spares_new :: "(view \<Rightarrow> view \<Rightarrow> bool) \<Rightarrow> Keys \<Rightarrow> bool" where
  "spares_new R k \<longleftrightarrow> (\<forall>t g val. keeps R (Keys_BundleKey k t g) val \<and> keeps R (Keys_ActiveKey k t) val)"

context upgrade_store begin

lemma upgrade_dry_run:
  assumes ok: "promises R c view" and wf: "wf_view (view s)" and dry: "uo_DryRun options"
    and run: "Upgrade L (store c) options s = (r, s')"
  shows "R (view s) (view s')"
proof -
  have "keeping (reached R view (view s)) (Upgrade L (store c) options)"
    unfolding Upgrade_def Let_def using dry
    by (auto intro!: keeping_call buildPlan_reached [OF ok])
  from tripleD [OF this run reached_self [OF ok wf]] show ?thesis by (simp add: reached_def)
qed

lemma verify_targets_stored:
  assumes ok: "promises R c view" and keep: "\<forall>target \<in> set targets. stable R (stored target)"
  shows "wf_view (view s) \<Longrightarrow> each (verify_target (store c) src dst) targets s = (Inr u, s') \<Longrightarrow>
    wf_view (view s') \<and> (\<forall>target \<in> set targets. stored target (now (view s')) \<and>
      (\<exists>q. map_of (ps_Active dst) (tp_id target) = Some q \<and> ap_Generation q = tp_resultGeneration target))"
  using keep
proof (induction targets arbitrary: s)
  case (Cons target targets)
  obtain t where one: "verify_target (store c) src dst target s = (Inr (), t)"
    and rest: "each (verify_target (store c) src dst) targets t = (Inr u, s')"
    using Cons.prems(2) by (auto simp: call_Inr)
  obtain val where q: "\<exists>q. map_of (ps_Active dst) (tp_id target) = Some q \<and> ap_Generation q = tp_resultGeneration target"
    and g: "kv_Get (store c) (tp_bundleKey target) s = (Inr val, t)" "val_Exists val" "val_Data val = tp_bundleValue target"
    using one by (auto simp: verify_target_def Let_def call_Inr split: option.split_asm if_split_asm)
  have st: "stored target (now (view t))"
    using get [OF ok Cons.prems(1) g(1)] g(2,3) Value_of_stored by blast
  have wft: "wf_view (view t)" by (rule get_wf [OF ok Cons.prems(1) g(1)])
  have P: "stable R (stored target)" using Cons.prems(3) by simp
  from tripleD [OF verify_targets_holding [OF ok P] rest] st wft have "stored target (now (view s'))"
    by (simp add: holding_def)
  with Cons.IH [OF wft rest] Cons.prems(3) q show ?case by simp
qed simp

lemma verifyPlan_verified:
  assumes ok: "promises R c view" and wf: "wf_view (view s)"
    and run: "verifyPlan (store c) plan s = (Inr u, s')"
    and keep: "\<forall>target \<in> set (mp_targets plan). stable R (stored target)"
    and pointers: "\<forall>t val. keeps R (destinationActiveKey (mp_prefix plan) t) val"
  shows "wf_view (view s') \<and> (\<forall>target \<in> set (mp_targets plan). stored target (now (view s')) \<and>
    (\<exists>pointer. value_of (now (view s')) (destinationActiveKey (mp_prefix plan) (tp_id target)) = Some pointer \<and>
       TrimSpace pointer = tp_resultGeneration target))"
proof -
  let ?A = "destinationActivePrefix (mp_prefix plan)"
  obtain src t1 dst t2 where g1: "kv_SnapshotActivePrefix (store c) (mp_activePrefix plan) s = (Inr src, t1)"
    and g2: "kv_SnapshotActivePrefix (store c) ?A t1 = (Inr dst, t2)"
    and rest: "each (verify_target (store c) src dst) (mp_targets plan) t2 = (Inr u, s')"
    using run by (auto simp: verifyPlan_def call_Inr split: if_split_asm)
  have wf1: "wf_view (view t1)" using others_wf [OF ok] snapshot [OF ok wf g1] wf by blast
  have dst: "snapshot_of (now (view t2)) ?A dst" and wf2: "wf_view (view t2)"
    using others_wf [OF ok] snapshot [OF ok wf1 g2] wf1 by blast+
  note verified = verify_targets_stored [OF ok keep wf2 rest]
  have "\<exists>pointer. value_of (now (view s')) (destinationActiveKey (mp_prefix plan) (tp_id target)) = Some pointer \<and>
       TrimSpace pointer = tp_resultGeneration target" if t: "target \<in> set (mp_targets plan)" for target
  proof -
    let ?key = "destinationActiveKey (mp_prefix plan) (tp_id target)"
    obtain q where q: "map_of (ps_Active dst) (tp_id target) = Some q" "ap_Generation q = tp_resultGeneration target"
      using verified t by blast
    have "map_of (ps_Active dst) (tp_id target) = map_option pointer_of (lookup (now (view t2)) ?key)"
      using dst by (simp add: snapshot_of_def destinationActiveKey_def)
    with q obtain pointer where e: "value_of (now (view t2)) ?key = Some pointer"
      "TrimSpace pointer = tp_resultGeneration target"
      by (auto simp: pointer_of_def value_of_def)
    have P: "stable R (\<lambda>v. value_of v ?key = Some pointer)"
      using pointers by (simp add: keeps_def)
    from tripleD [OF verify_targets_holding [OF ok P] rest] e wf2 show ?thesis by (auto simp: holding_def)
  qed
  with verified show ?thesis by blast
qed

end

lemma planned_migrated:
  assumes wf: "wf_keys k" and p: "planned L k (old_root k @ ''/active/'') (old_root k @ ''/bundles/'') options v target"
    and st: "stored target w"
    and ptr: "value_of w (Keys_ActiveKey k (tp_id target)) = Some pointer" "TrimSpace pointer = tp_resultGeneration target"
  shows "migrated L k options v w (target_result target)"
  using assms unfolding planned_def migrated_def stored_def target_result_def by auto

context upgrade_store begin

lemma upgrade_steps:
  assumes ok: "promises R c view" and wf: "wf_view (view s)"
    and k: "NewKeys (uo_Prefix options) = Inr k" "NewKeys (Keys_Prefix k) = Inr k"
    and wet: "\<not> uo_DryRun options" and spare: "spares_new R k"
    and run: "Upgrade L (store c) options s = (Inr res, s')"
  obtains u plan t where "R (view s) u" "plan_of L k options (Keys_Prefix k) (now u) plan" "wf_view (view t)"
    "ur_Targets res = map target_result (mp_targets plan)"
    "\<forall>target \<in> set (mp_targets plan). stored target (now (view t)) \<and>
      (\<exists>pointer. value_of (now (view t)) (Keys_ActiveKey k (tp_id target)) = Some pointer \<and>
         TrimSpace pointer = tp_resultGeneration target)"
    "uo_DeleteOld options \<longrightarrow> (\<exists>n. kv_DeletePrefix (store c) (old_root k @ ''/'') t = (Inr n, s'))"
    "\<not> uo_DeleteOld options \<longrightarrow> s' = t"
proof -
  obtain plan t1 t2 t3 where b: "buildPlan L (store c) (Keys_Prefix k) options s = (Inr plan, t1)"
    and a: "applyPlan (store c) plan t1 = (Inr (), t2)" and v: "verifyPlan (store c) plan t2 = (Inr (), t3)"
    and d: "(if uo_DeleteOld options then \<exists>n. kv_DeletePrefix (store c) (mp_sourceRoot plan @ ''/'') t3 = (Inr n, s')
      else s' = t3)"
    and res: "ur_Targets res = map target_result (mp_targets plan)"
    using run wet k(1)
    by (auto simp: Upgrade_def run_plan_def Let_def call_ok call_Inr split: if_split_asm)
  obtain u where u: "R (view s) u" and plan: "plan_of L k options (Keys_Prefix k) (now u) plan"
    using buildPlan_plan_of [OF ok wf b] k(2) by auto
  have target: "SafeName (tp_id target)" "tp_bundleKey target = Keys_BundleKey k (tp_id target) (tp_resultGeneration target)"
    if "target \<in> set (mp_targets plan)" for target
    using plan that by (auto simp: plan_of_def planned_def)
  have prefix: "mp_prefix plan = Keys_Prefix k" "mp_sourceRoot plan = old_root k"
    using plan by (auto simp: plan_of_def old_root_def Keys_Prefix_def)
  have true: "stable R (\<lambda>_. True)" by (simp add: stable_def)
  have wf1: "wf_view (view t1)"
    using tripleD [OF buildPlan_reached [OF ok] b reached_self [OF ok wf]] by (simp add: reached_def)
  have "keeping (holding view (\<lambda>_. True)) (applyPlan (store c) plan)"
    by (rule applyPlan_holding [OF ok true, where needs = False])
      (use target ActiveKey_not_BundleKey_any in \<open>auto simp: prefix destinationActiveKey_eq dest: sym\<close>)
  from tripleD [OF this a] wf1 have wf2: "wf_view (view t2)" by (simp add: holding_def)
  have keep: "\<forall>target \<in> set (mp_targets plan). stable R (stored target)"
    using spare target(2) by (simp add: spares_new_def keeps_def stored_def [abs_def])
  have pointers: "\<forall>t val. keeps R (destinationActiveKey (mp_prefix plan) t) val"
    using spare by (simp add: spares_new_def prefix destinationActiveKey_eq)
  note verified = verifyPlan_verified [OF ok wf2 v keep pointers, unfolded prefix destinationActiveKey_eq]
  show thesis
    by (rule that [where t = t3, OF u plan _ res]) (use verified d [unfolded prefix] in \<open>auto split: if_split_asm\<close>)
qed

lemma upgrade_migrates:
  assumes ok: "promises R c view" and wf: "wf_view (view s)"
    and k: "NewKeys (uo_Prefix options) = Inr k" "NewKeys (Keys_Prefix k) = Inr k"
    and wet: "\<not> uo_DryRun options" and spare: "spares_new R k"
    and run: "Upgrade L (store c) options s = (Inr res, s')"
  shows "\<exists>u. R (view s) u \<and>
    (\<forall>t. lookup (now u) (old_root k @ ''/active/'' @ t) \<noteq> None \<longleftrightarrow> t \<in> tr_TargetID ` set (ur_Targets res)) \<and>
    (\<forall>tr \<in> set (ur_Targets res). migrated L k options (now u) (now (view s')) tr) \<and>
    (uo_DeleteOld options \<longrightarrow> (\<forall>key. HasPrefix key (old_root k @ ''/'') \<longrightarrow> value_of (now (view s')) key = None))"
proof -
  obtain u plan t where u: "R (view s) u" and plan: "plan_of L k options (Keys_Prefix k) (now u) plan"
    and wft: "wf_view (view t)" and res: "ur_Targets res = map target_result (mp_targets plan)"
    and fin: "\<forall>target \<in> set (mp_targets plan). stored target (now (view t)) \<and>
      (\<exists>pointer. value_of (now (view t)) (Keys_ActiveKey k (tp_id target)) = Some pointer \<and>
         TrimSpace pointer = tp_resultGeneration target)"
    and del: "uo_DeleteOld options \<longrightarrow> (\<exists>n. kv_DeletePrefix (store c) (old_root k @ ''/'') t = (Inr n, s'))"
    and stay: "\<not> uo_DeleteOld options \<longrightarrow> s' = t"
    by (rule upgrade_steps [OF assms], rule that)
  have wfk: "wf_keys k" using NewKeys_Inr(1) k(1) by blast
  have root: "mp_sourceRoot plan = old_root k" "mp_activePrefix plan = old_root k @ ''/active/''"
    using plan by (auto simp: plan_of_def old_root_def Keys_Prefix_def)
  have after: "(\<forall>target \<in> set (mp_targets plan). stored target (now (view s')) \<and>
      (\<exists>pointer. value_of (now (view s')) (Keys_ActiveKey k (tp_id target)) = Some pointer \<and>
         TrimSpace pointer = tp_resultGeneration target)) \<and>
    (uo_DeleteOld options \<longrightarrow> (\<forall>key. HasPrefix key (old_root k @ ''/'') \<longrightarrow> value_of (now (view s')) key = None))"
  proof (cases "uo_DeleteOld options")
    case True
    obtain n where "kv_DeletePrefix (store c) (old_root k @ ''/'') t = (Inr n, s')" using del True by blast
    then obtain vs where vs: "R (view t) vs" "view s' = advance (delete_where (\<lambda>key. HasPrefix key (old_root k @ ''/''))) vs"
      using delete_prefix [OF ok wft] by fastforce
    have still: "value_of (now vs) key = Some val" if "keeps R key val" "value_of (now (view t)) key = Some val" for key val
      by (rule stableD [where R = R and P = "\<lambda>v. value_of v key = Some val", OF _ wft vs(1)]) (use that in \<open>simp_all add: keeps_def\<close>)
    have key: "tp_bundleKey target = Keys_BundleKey k (tp_id target) (tp_resultGeneration target)"
      if "target \<in> set (mp_targets plan)" for target
      using plan that by (auto simp: plan_of_def planned_def)
    have "stored target (now (view s')) \<and>
      (\<exists>pointer. value_of (now (view s')) (Keys_ActiveKey k (tp_id target)) = Some pointer \<and>
         TrimSpace pointer = tp_resultGeneration target)" if t: "target \<in> set (mp_targets plan)" for target
    proof -
      obtain pointer where p: "value_of (now (view t)) (Keys_ActiveKey k (tp_id target)) = Some pointer"
        "TrimSpace pointer = tp_resultGeneration target" using fin t by blast
      have keep: "keeps R (tp_bundleKey target) (tp_bundleValue target)"
        "keeps R (Keys_ActiveKey k (tp_id target)) pointer"
        using spare by (simp_all add: spares_new_def key [OF t])
      have "stored target (now (view t))" using fin t by blast
      then have "value_of (now vs) (tp_bundleKey target) = Some (tp_bundleValue target)"
        "value_of (now vs) (Keys_ActiveKey k (tp_id target)) = Some pointer"
        using still [OF keep(1)] still [OF keep(2) p(1)] by (simp_all add: stored_def)
      then show ?thesis
        using p(2) keys_not_old [OF wfk] by (simp add: vs(2) stored_def value_of_delete_where key [OF t])
    qed
    then show ?thesis using vs(2) by (simp add: value_of_delete_where)
  next
    case False
    then show ?thesis using fin stay by simp
  qed
  have ids: "tr_TargetID ` set (ur_Targets res) = tp_id ` set (mp_targets plan)"
    by (simp add: res target_result_def image_image)
  have "lookup (now u) (old_root k @ ''/active/'' @ t) \<noteq> None \<longleftrightarrow> t \<in> tr_TargetID ` set (ur_Targets res)" for t
  proof -
    have "\<forall>t. lookup (now u) (mp_activePrefix plan @ t) \<noteq> None \<longleftrightarrow> t \<in> tp_id ` set (mp_targets plan)"
      using plan unfolding plan_of_def by blast
    then show ?thesis unfolding ids root(2) by simp
  qed
  moreover have "\<forall>tr \<in> set (ur_Targets res). migrated L k options (now u) (now (view s')) tr"
  proof
    fix tr assume "tr \<in> set (ur_Targets res)"
    then obtain target where t: "target \<in> set (mp_targets plan)" and tr: "tr = target_result target" by (auto simp: res)
    have "planned L k (old_root k @ ''/active/'') (old_root k @ ''/bundles/'') options (now u) target"
      using plan t unfolding plan_of_def root by blast
    then show "migrated L k options (now u) (now (view s')) tr"
      unfolding tr using planned_migrated [OF wfk] after t by blast
  qed
  ultimately show ?thesis using u after by blast
qed

end

section \<open>Invariants that survive\<close>

lemma upgrade_survives_no_dangling:
  assumes "wf_keys k"
  shows "survives_upgrade k True deletes (no_dangling k)"
  unfolding survives_upgrade_def
proof (intro conjI allI impI)
  fix v :: version assume v: "no_dangling k v"
  let ?del = "delete_where (\<lambda>key. HasPrefix key (old_root k @ ''/'')) v"
  show "no_dangling k ?del"
    using v keys_not_old [OF assms] unfolding no_dangling_def by (simp add: value_of_delete_where)
qed (use no_dangling_put_bundle no_dangling_put_active in blast)+

lemma upgrade_survives_value:
  assumes "\<not> deletes \<or> \<not> HasPrefix key (old_root k @ ''/'')"
  shows "survives_upgrade k False deletes (\<lambda>v. value_of v key = Some val)"
  using assms
  by (auto simp: survives_upgrade_def value_of_put value_of_delete_where) (auto simp: value_of_def)

end
