(* ===== verification/Upgrade_Properties.thy ===== *)
theory Upgrade_Properties
  imports Upgrade_Facts Prune_Properties
begin

text \<open>The properties of upgrading through the etcd client, with their witnesses.\<close>

section \<open>A sample upgrade\<close>

text \<open>A namespace with one target \<open>web\<close> of the previous protocol.\<close>

definition legacy_manifest :: LegacyManifest where
  "legacy_manifest =
     \<lparr>lm_Schema = LegacySchema,
      lm_Files =
        [\<lparr>lf_Name = CertificateName, lf_Kind = KindCertificate, lf_SHA256 = bundle_hash sample_crypto ''LA'',
           lf_Encoding = LegacyEncodingBase64, lf_Data = b64_encode ''LA''\<rparr>,
         \<lparr>lf_Name = PrivateKeyName, lf_Kind = KindPrivateKey, lf_SHA256 = bundle_hash sample_crypto ''K'',
           lf_Encoding = LegacyEncodingBase64, lf_Data = b64_encode ''K''\<rparr>],
      lm_Pairs = [\<lparr>pair_Certificate = CertificateName, pair_PrivateKey = PrivateKeyName\<rparr>]\<rparr>"

definition legacy_json :: json where
  "legacy_json =
     JObj [(''schema'', JStr (lm_Schema legacy_manifest)),
       (''files'', JArr (map (\<lambda>f. JObj [(''name'', JStr (lf_Name f)), (''kind'', JStr (lf_Kind f)),
         (''sha256'', JStr (lf_SHA256 f)), (''encoding'', JStr (lf_Encoding f)), (''data'', JStr (lf_Data f))])
         (lm_Files legacy_manifest))),
       (''pairs'', JArr (map (\<lambda>p. JObj [(''certificate'', JStr (pair_Certificate p)),
         (''private-key'', JStr (pair_PrivateKey p))]) (lm_Pairs legacy_manifest)))]"

definition legacy_value :: bytes where "legacy_value = json_print legacy_json"

definition legacy_files :: file_map where
  "legacy_files = [(PrivateKeyName, ''K''), (CertificateName, ''LA'')]"

definition legacy_generation :: string where
  "legacy_generation = Generation (ContentDigest sample_crypto legacy_files)"

definition legacy_material :: LegacyMaterial where
  "legacy_material = \<lparr>lmat_TargetID = ''web'', lmat_Generation = legacy_generation, lmat_Manifest = legacy_manifest,
     lmat_Files = legacy_files, lmat_Digest = ContentDigest sample_crypto legacy_files\<rparr>"

lemma legacy_unmarshal: "unmarshal_LegacyManifest legacy_value = Some legacy_manifest"
proof -
  have "json_ok legacy_json" by code_simp
  from json_parse_print [OF this] show ?thesis
    by (simp add: unmarshal_LegacyManifest_def legacy_value_def)
      (simp add: legacy_json_def legacy_manifest_def unmarshal_struct_def known_members_def LegacyManifest_members_def
        json_member_def unmarshal_slice_def unmarshal_LegacyFile_def LegacyFile_members_def unmarshal_Pair_def
        Pair_members_def)
qed

lemma legacy_length: "length legacy_value \<le> MaxEncodedBundleBytes"
  by code_simp

lemma legacy_safe: "SafeName ''web''" "SafeName legacy_generation" "TrimSpace legacy_generation = legacy_generation"
  by code_simp+

lemma legacy_checks:
  "Legacy_Validate legacy_manifest = Inr ()"
  "decode_legacy_files sample_crypto (lm_Files legacy_manifest) [] = Inr legacy_files"
  by code_simp+

lemma legacy_decodes: "Legacy_Decode sample_crypto ''web'' legacy_generation legacy_value = Inr legacy_material"
  using legacy_safe(1,2) legacy_length
  by (simp add: Legacy_Decode_def legacy_unmarshal legacy_checks legacy_material_def legacy_generation_def Let_def)

lemma legacy_converts:
  "ConvertTLS sample_crypto (Some legacy_material) TypeTLSServer =
     Inr (fst sample_manifest, encoded (fst sample_manifest), snd sample_manifest)"
proof -
  have m: "NewTLSManifest sample_crypto TypeTLSServer ''LA'' ''K'' = (fst sample_manifest, snd sample_manifest)"
    by (simp add: sample_manifest_def)
  have "map_of legacy_files CertificateName = Some ''LA''" "map_of legacy_files PrivateKeyName = Some ''K''"
    by (simp_all add: legacy_files_def legacy_names)
  then show ?thesis
    by (simp add: ConvertTLS_def legacy_material_def m sample_Encode case_prod_beta)
qed


definition legacy_pointer :: string where "legacy_pointer = ''/pemcast/v5/active/web''"
definition legacy_key :: string where "legacy_key = ''/pemcast/v5/bundles/web/'' @ legacy_generation"
definition new_generation :: string where "new_generation = Generation (snd sample_manifest)"
definition new_key :: string where "new_key = Keys_BundleKey DefaultKeys ''web'' new_generation"
definition new_pointer :: string where "new_pointer = Keys_ActiveKey DefaultKeys ''web''"

definition legacy_state :: script_state where
  "legacy_state =
     \<lparr>sc_view = advance (put legacy_key legacy_value) (advance (put legacy_pointer legacy_generation) empty_view),
      sc_script = []\<rparr>"

definition upgrade_options :: "bool \<Rightarrow> UpgradeOptions" where
  "upgrade_options dry = \<lparr>uo_Prefix = ''/pemcast'', uo_DefaultType = TypeTLSServer, uo_TargetTypes = [],
     uo_DryRun = dry, uo_DeleteOld = True, uo_ConfirmDelete = True\<rparr>"

lemma new_keys: "new_pointer = ''/pemcast/v6/active/web''" "new_key = ''/pemcast/v6/bundles/web/'' @ new_generation"
  by (simp_all add: new_pointer_def new_key_def Keys_ActiveKey_def Keys_BundleKey_def
      Keys_TargetBundlePrefix_def default_prefixes)

lemma legacy_kvs:
  "sc_view legacy_state = [\<lparr>v_Revision = 3, v_Kvs =
      [\<lparr>kv_Key = legacy_pointer, kv_Value = legacy_generation, kv_CreateRevision = 2, kv_ModRevision = 2\<rparr>,
       \<lparr>kv_Key = legacy_key, kv_Value = legacy_value, kv_CreateRevision = 3, kv_ModRevision = 3\<rparr>]\<rparr>,
     \<lparr>v_Revision = 2, v_Kvs =
      [\<lparr>kv_Key = legacy_pointer, kv_Value = legacy_generation, kv_CreateRevision = 2, kv_ModRevision = 2\<rparr>]\<rparr>,
     \<lparr>v_Revision = 1, v_Kvs = []\<rparr>]"
proof -
  have "legacy_key \<noteq> legacy_pointer" "\<not> legacy_key < legacy_pointer"
    unfolding legacy_key_def legacy_pointer_def by (simp_all add: less_char_def)
  then show ?thesis
    by (simp add: legacy_state_def empty_view_def advance_def put_def now_def lookup_def Let_def)
qed

lemma legacy_wf: "wf_view (sc_view legacy_state)"
  unfolding legacy_state_def script_state.simps
  by (intro write_step_wf [OF put_step] wf_empty_view)

lemma upgrade_roots:
  "PathJoin [''/pemcast'', ''/v4''] = ''/pemcast/v4''" "PathJoin [''/pemcast'', ''/v5''] = ''/pemcast/v5''"
  "PathJoin [''/pemcast'', ''/v6''] = ''/pemcast/v6''" "Clean ''/pemcast/v5'' = ''/pemcast/v5''"
  by code_simp+

lemma legacy_prefixes:
  "HasPrefix legacy_pointer ''/pemcast/v5/active/''" "\<not> HasPrefix legacy_key ''/pemcast/v5/active/''"
  "\<not> HasPrefix legacy_pointer ''/pemcast/v6/active/''" "\<not> HasPrefix legacy_key ''/pemcast/v6/active/''"
  "\<not> HasPrefix legacy_pointer ''/pemcast/v4/active/''" "\<not> HasPrefix legacy_key ''/pemcast/v4/active/''"
  "TrimPrefix legacy_pointer ''/pemcast/v5/active/'' = ''web''"
  by (simp_all add: legacy_pointer_def legacy_key_def TrimPrefix_def)

definition legacy_plan :: targetPlan where
  "legacy_plan = \<lparr>tp_id = ''web'', tp_bundleType = TypeTLSServer, tp_sourceKey = legacy_pointer,
     tp_sourceGeneration = legacy_generation, tp_sourceModRevision = 2, tp_bundleKey = new_key,
     tp_bundleValue = encoded (fst sample_manifest), tp_resultGeneration = new_generation, tp_alreadyMigrated = False\<rparr>"

lemmas legacy_view_eq = legacy_kvs [unfolded legacy_state_def script_state.simps]

lemma legacy_snapshot_calls:
  "kv_SnapshotActivePrefix (Client_kv (script_client allowed)) ''/pemcast/v4/active/'' legacy_state =
     (Inr \<lparr>ps_Revision = 3, ps_Active = []\<rparr>, legacy_state)"
  "kv_SnapshotActivePrefix (Client_kv (script_client allowed)) ''/pemcast/v5/active/'' legacy_state =
     (Inr \<lparr>ps_Revision = 3, ps_Active = [(''web'', \<lparr>ap_Generation = legacy_generation, ap_ModRevision = 2\<rparr>)]\<rparr>, legacy_state)"
  "kv_SnapshotActivePrefix (Client_kv (script_client allowed)) ''/pemcast/v6/active/'' legacy_state =
     (Inr \<lparr>ps_Revision = 3, ps_Active = []\<rparr>, legacy_state)"
  using legacy_prefixes legacy_safe
  by (simp_all add: legacy_view_eq script_calls SnapshotActivePrefix_def prefixSnapshotFromResponse_def legacy_state_def Let_def)

lemma legacy_get_at_call:
  "kv_GetAt (Client_kv (script_client allowed)) legacy_key 3 legacy_state =
     (Inr \<lparr>val_Data = legacy_value, val_ModRevision = 3, val_Exists = True\<rparr>, legacy_state)"
proof -
  have "legacy_key \<noteq> legacy_pointer" by (simp add: legacy_key_def legacy_pointer_def)
  then show ?thesis
    by (simp add: legacy_view_eq script_calls Client_GetAt_def WithRev_def first_value_def legacy_state_def Let_def)
qed

lemma legacy_buildPlan:
  "buildPlan sample_crypto (Client_kv (script_client allowed)) ''/pemcast'' (upgrade_options dry) legacy_state =
     (Inr \<lparr>mp_prefix = ''/pemcast'', mp_sourceRoot = ''/pemcast/v5'', mp_activePrefix = ''/pemcast/v5/active/'',
           mp_revision = 3, mp_targets = [legacy_plan]\<rparr>, legacy_state)"
proof -
  let ?src = "\<lparr>ps_Revision = 3, ps_Active = [(''web'', \<lparr>ap_Generation = legacy_generation, ap_ModRevision = 2\<rparr>)]\<rparr>"
  have target: "plan_target sample_crypto (Client_kv (script_client allowed)) DefaultKeys ''/pemcast/v5/active/''
      ''/pemcast/v5/bundles/'' ?src \<lparr>ps_Revision = 3, ps_Active = []\<rparr> (upgrade_options dry) ''web'' legacy_state =
    (Inr (Inr legacy_plan), legacy_state)"
    using legacy_get_at_call [unfolded legacy_key_def]
    by (simp add: plan_target_def plan_material_def pointer_get_def destination_type_def upgrade_options_def call_def
        done_with_def legacy_decodes legacy_converts legacy_plan_def legacy_pointer_def new_generation_def new_key_def Let_def)
  have "uo_TargetTypes (upgrade_options dry) = []" by (simp add: upgrade_options_def)
  then show ?thesis
    unfolding buildPlan_def LegacyProtocolRoot_def upgrade_roots
    by (simp add: NewKeys_default default_prefixes legacy_snapshot_calls target call_def done_with_def map_len_def
        sorted_keys_def Let_def upgrade_roots(4))
qed

text \<open>The writes of the upgrade, on the sample.\<close>

definition staged_state :: script_state where
  "staged_state = \<lparr>sc_view = advance (put new_key (encoded (fst sample_manifest))) (sc_view legacy_state), sc_script = []\<rparr>"

definition committed_state :: script_state where
  "committed_state = \<lparr>sc_view = advance (put new_pointer new_generation) (sc_view staged_state), sc_script = []\<rparr>"

lemma sample_keys_distinct:
  "new_key \<noteq> new_pointer" "new_key \<noteq> legacy_key" "new_key \<noteq> legacy_pointer"
  "new_pointer \<noteq> legacy_key" "new_pointer \<noteq> legacy_pointer" "legacy_key \<noteq> legacy_pointer"
  by (simp_all add: new_keys legacy_key_def legacy_pointer_def)

lemma sample_keys_order:
  "legacy_pointer < new_key" "legacy_key < new_key" "legacy_pointer < new_pointer" "legacy_key < new_pointer"
  "new_pointer < new_key" "\<not> new_key < legacy_pointer" "\<not> new_key < legacy_key" "\<not> new_pointer < legacy_pointer"
  "\<not> new_pointer < legacy_key" "\<not> new_key < new_pointer"
  unfolding new_keys legacy_key_def legacy_pointer_def by (simp_all add: less_char_def)

lemma staged_kvs:
  "sc_view staged_state = \<lparr>v_Revision = 4, v_Kvs =
      [\<lparr>kv_Key = legacy_pointer, kv_Value = legacy_generation, kv_CreateRevision = 2, kv_ModRevision = 2\<rparr>,
       \<lparr>kv_Key = legacy_key, kv_Value = legacy_value, kv_CreateRevision = 3, kv_ModRevision = 3\<rparr>,
       \<lparr>kv_Key = new_key, kv_Value = encoded (fst sample_manifest), kv_CreateRevision = 4, kv_ModRevision = 4\<rparr>]\<rparr> #
     sc_view legacy_state"
  using sample_keys_distinct sample_keys_order
  by (simp add: staged_state_def legacy_kvs advance_def put_def now_def lookup_def Let_def)

lemma committed_kvs:
  "sc_view committed_state = \<lparr>v_Revision = 5, v_Kvs =
      [\<lparr>kv_Key = legacy_pointer, kv_Value = legacy_generation, kv_CreateRevision = 2, kv_ModRevision = 2\<rparr>,
       \<lparr>kv_Key = legacy_key, kv_Value = legacy_value, kv_CreateRevision = 3, kv_ModRevision = 3\<rparr>,
       \<lparr>kv_Key = new_pointer, kv_Value = new_generation, kv_CreateRevision = 5, kv_ModRevision = 5\<rparr>,
       \<lparr>kv_Key = new_key, kv_Value = encoded (fst sample_manifest), kv_CreateRevision = 4, kv_ModRevision = 4\<rparr>]\<rparr> #
     sc_view staged_state"
  using sample_keys_distinct sample_keys_order
  by (simp add: committed_state_def staged_kvs advance_def put_def now_def lookup_def Let_def)

lemma staged_state_script [simp]:
  "staged_state\<lparr>sc_script := []\<rparr> = staged_state" "committed_state\<lparr>sc_script := []\<rparr> = committed_state"
  by (simp_all add: staged_state_def committed_state_def)

lemma state_eta: "\<lparr>sc_view = sc_view staged_state, sc_script = []\<rparr> = staged_state"
  "\<lparr>sc_view = sc_view committed_state, sc_script = []\<rparr> = committed_state"
  "\<lparr>sc_view = sc_view legacy_state, sc_script = []\<rparr> = legacy_state"
  "sc_script staged_state = []" "sc_script committed_state = []" "sc_script legacy_state = []"
  by (simp_all add: staged_state_def committed_state_def legacy_state_def)

lemma legacy_apply:
  "applyPlan (Client_kv (script_client allowed)) \<lparr>mp_prefix = ''/pemcast'', mp_sourceRoot = ''/pemcast/v5'',
      mp_activePrefix = ''/pemcast/v5/active/'', mp_revision = 3, mp_targets = [legacy_plan]\<rparr> legacy_state =
    (Inr (), committed_state)"
proof -
  let ?c = "script_client allowed"
  have stage: "kv_StageBundleIfAbsent (Client_kv ?c) new_key (encoded (fst sample_manifest)) legacy_state = (Inr True, staged_state)"
    using sample_keys_distinct
    by (simp add: script_calls Client_StageBundleIfAbsent_def txn_def apply_op_eqs state_eta staged_state_def
        cmp_holds_def lookup_def legacy_kvs)
  have get5: "kv_Get (Client_kv ?c) legacy_pointer staged_state =
      (Inr \<lparr>val_Data = legacy_generation, val_ModRevision = 2, val_Exists = True\<rparr>, staged_state)"
    using sample_keys_distinct
    by (simp add: script_calls Client_Get_def first_value_def state_eta staged_kvs)
  have get6: "kv_Get (Client_kv ?c) new_pointer staged_state =
      (Inr \<lparr>val_Data = [], val_ModRevision = 0, val_Exists = False\<rparr>, staged_state)"
    using sample_keys_distinct
    by (simp add: script_calls Client_Get_def first_value_def state_eta staged_kvs)
  have swap: "kv_SwapActiveFromSource (Client_kv ?c) legacy_pointer
      \<lparr>ac_Generation = legacy_generation, ac_ModRevision = 2, ac_Exists = True\<rparr> new_pointer new_generation
      absent_condition staged_state = (Inr True, committed_state)"
    using sample_keys_distinct
    by (simp add: script_calls Client_SwapActiveFromSource_def activeComparison_def absent_condition_def txn_def
        apply_op_eqs state_eta committed_state_def cmp_holds_def value_of_def lookup_def staged_kvs)
  have key: "destinationActiveKey ''/pemcast'' ''web'' = new_pointer"
    by (simp add: destinationActiveKey_def destinationActivePrefix_def upgrade_roots new_keys)
  show ?thesis
    by (simp add: applyPlan_def apply_target_def stage_target_def commit_target_def legacy_plan_def key stage get5 get6 swap
        call_def done_with_def Let_def)
qed

lemma new_safe: "SafeName new_generation" "TrimSpace new_generation = new_generation"
  by code_simp+

lemma new_prefixes:
  "HasPrefix new_pointer ''/pemcast/v6/active/''" "\<not> HasPrefix new_key ''/pemcast/v6/active/''"
  "\<not> HasPrefix new_pointer ''/pemcast/v5/active/''" "\<not> HasPrefix new_key ''/pemcast/v5/active/''"
  "TrimPrefix new_pointer ''/pemcast/v6/active/'' = ''web''"
  by (simp_all add: new_keys TrimPrefix_def)

lemma legacy_verify:
  "verifyPlan (Client_kv (script_client allowed)) \<lparr>mp_prefix = ''/pemcast'', mp_sourceRoot = ''/pemcast/v5'',
      mp_activePrefix = ''/pemcast/v5/active/'', mp_revision = 3, mp_targets = [legacy_plan]\<rparr> committed_state =
    (Inr (), committed_state)"
proof -
  let ?c = "script_client allowed"
  have snap5: "kv_SnapshotActivePrefix (Client_kv ?c) ''/pemcast/v5/active/'' committed_state =
     (Inr \<lparr>ps_Revision = 5, ps_Active = [(''web'', \<lparr>ap_Generation = legacy_generation, ap_ModRevision = 2\<rparr>)]\<rparr>, committed_state)"
    and snap6: "kv_SnapshotActivePrefix (Client_kv ?c) ''/pemcast/v6/active/'' committed_state =
     (Inr \<lparr>ps_Revision = 5, ps_Active = [(''web'', \<lparr>ap_Generation = new_generation, ap_ModRevision = 5\<rparr>)]\<rparr>, committed_state)"
    using legacy_prefixes legacy_safe new_prefixes new_safe
    by (simp_all add: script_calls SnapshotActivePrefix_def prefixSnapshotFromResponse_def state_eta committed_kvs Let_def)
  have get: "kv_Get (Client_kv ?c) new_key committed_state =
      (Inr \<lparr>val_Data = encoded (fst sample_manifest), val_ModRevision = 4, val_Exists = True\<rparr>, committed_state)"
    using sample_keys_distinct
    by (simp add: script_calls Client_Get_def first_value_def state_eta committed_kvs)
  have prefix: "destinationActivePrefix ''/pemcast'' = ''/pemcast/v6/active/''"
    by (simp add: destinationActivePrefix_def upgrade_roots)
  show ?thesis
    by (simp add: verifyPlan_def verify_target_def legacy_plan_def prefix snap5 snap6 get call_def done_with_def map_len_def Let_def)
qed

definition web_result :: "string \<Rightarrow> TargetResult" where
  "web_result status = \<lparr>tr_TargetID = ''web'', tr_Type = TypeTLSServer, tr_SourceGeneration = legacy_generation,
     tr_ResultGeneration = new_generation, tr_Status = status\<rparr>"

lemma legacy_result: "target_result legacy_plan = web_result ''migrated''"
  by (simp add: target_result_def legacy_plan_def web_result_def)

lemma legacy_upgrade:
  "\<exists>s'. Upgrade sample_crypto (Client_kv (script_client allowed)) (upgrade_options False) legacy_state =
    (Inr \<lparr>ur_Prefix = ''/pemcast'', ur_Source = ''pemcast/v5'', ur_Destination = ''pemcast/v6'', ur_DryRun = False,
          ur_DeletedOld = True, ur_DeletedKeys = 2, ur_Targets = [web_result ''migrated'']\<rparr>, s')"
proof -
  let ?kv = "Client_kv (script_client allowed)"
  have del: "\<exists>s'. kv_DeletePrefix ?kv ''/pemcast/v5/'' committed_state = (Inr 2, s')"
    by (simp add: script_calls Client_DeletePrefix_def script_Delete_def state_eta committed_kvs)
      (simp add: new_keys legacy_key_def legacy_pointer_def)
  have o: "uo_Prefix (upgrade_options False) = ''/pemcast''" "uo_DeleteOld (upgrade_options False)"
    "uo_ConfirmDelete (upgrade_options False)" "\<not> uo_DryRun (upgrade_options False)"
    by (simp_all add: upgrade_options_def)
  have p: "kv_Prefix ?kv = ''/pemcast''" "Keys_Prefix DefaultKeys = ''/pemcast''"
    by (simp_all add: Client_kv_def script_client_def Keys_Prefix_def DefaultKeys_def DefaultPrefix_def)
  from del show ?thesis
    by (auto simp: Upgrade_def run_plan_def o p NewKeys_default call_def [where m = "buildPlan _ _ _ _"]
        call_def [where m = "applyPlan _ _"] call_def [where m = "verifyPlan _ _"]
        call_def [where m = "kv_DeletePrefix _ _"] call_ok legacy_buildPlan legacy_apply legacy_verify done_with_def
        legacy_result Let_def)
qed

lemma legacy_dry_run:
  "Upgrade sample_crypto (Client_kv (script_client allowed)) (upgrade_options True) legacy_state =
    (Inr \<lparr>ur_Prefix = ''/pemcast'', ur_Source = ''pemcast/v5'', ur_Destination = ''pemcast/v6'', ur_DryRun = True,
          ur_DeletedOld = False, ur_DeletedKeys = 0, ur_Targets = [web_result ''would-migrate'']\<rparr>, legacy_state)"
proof -
  let ?kv = "Client_kv (script_client allowed)"
  have o: "uo_Prefix (upgrade_options True) = ''/pemcast''" "uo_DryRun (upgrade_options True)"
    by (simp_all add: upgrade_options_def)
  have p: "kv_Prefix ?kv = ''/pemcast''" "Keys_Prefix DefaultKeys = ''/pemcast''"
    by (simp_all add: Client_kv_def script_client_def Keys_Prefix_def DefaultKeys_def DefaultPrefix_def)
  show ?thesis
    by (simp add: Upgrade_def o p NewKeys_default call_def [where m = "buildPlan _ _ _ _"] call_ok legacy_buildPlan
        done_with_def target_result_def would_migrate_def legacy_plan_def web_result_def Let_def)
qed

section \<open>Properties\<close>

text \<open>C10: a successful upgrade has migrated everything. There is a moment between the start and the
  end of the run (version \<open>now u\<close>) such that the reported targets are exactly the old pointers of
  that version; for each of them the bundle that its old pointer named there decodes under the old
  protocol, the new pointer names the reported generation, and under that generation the store holds
  a bundle of the requested type that decodes to the same certificate and key. When deletion was
  asked for, no old key is left. The other clients may do anything but change the new namespace.\<close>

theorem Upgrade_migrates:
  assumes "client_ok R c view" "wf_view (view s)"
    and "NewKeys (uo_Prefix options) = Inr k" "NewKeys (Keys_Prefix k) = Inr k"
    and "\<not> uo_DryRun options" "spares_new R k"
    and "Upgrade L (Client_kv c) options s = (Inr res, s')"
  shows "\<exists>u. R (view s) u \<and>
    (\<forall>t. lookup (now u) (old_root k @ ''/active/'' @ t) \<noteq> None \<longleftrightarrow> t \<in> tr_TargetID ` set (ur_Targets res)) \<and>
    (\<forall>tr \<in> set (ur_Targets res). migrated L k options (now u) (now (view s')) tr) \<and>
    (uo_DeleteOld options \<longrightarrow> (\<forall>key. HasPrefix key (old_root k @ ''/'') \<longrightarrow> value_of (now (view s')) key = None))"
  by (rule etcd_upgrade.upgrade_migrates [OF assms])

lemma sample_upgrade_keys:
  "NewKeys (uo_Prefix (upgrade_options dry)) = Inr DefaultKeys" "NewKeys (Keys_Prefix DefaultKeys) = Inr DefaultKeys"
  using NewKeys_default
  by (simp_all add: upgrade_options_def Keys_Prefix_def DefaultKeys_def DefaultPrefix_def)

lemma Upgrade_migrates_witness:
  "\<exists>res s' v. Upgrade sample_crypto (Client_kv (script_client quiet)) (upgrade_options False) legacy_state = (Inr res, s') \<and>
    ur_Targets res = [web_result ''migrated''] \<and>
    migrated sample_crypto DefaultKeys (upgrade_options False) v (now (sc_view s')) (web_result ''migrated'')"
proof -
  obtain res s' where run: "Upgrade sample_crypto (Client_kv (script_client quiet)) (upgrade_options False) legacy_state = (Inr res, s')"
    and t: "ur_Targets res = [web_result ''migrated'']"
    using legacy_upgrade by fastforce
  have "\<not> uo_DryRun (upgrade_options False)" by (simp add: upgrade_options_def)
  moreover have "spares_new (allowed_writes quiet) DefaultKeys"
    by (simp add: spares_new_def keeps_def quiet_stable)
  ultimately have "\<exists>v. migrated sample_crypto DefaultKeys (upgrade_options False) v (now (sc_view s')) (web_result ''migrated'')"
    using Upgrade_migrates [OF script_client_ok legacy_wf sample_upgrade_keys _ _ run] t by auto
  with run t show ?thesis by blast
qed

text \<open>C11: upgrading never damages the namespace. Whatever \<open>Upgrade\<close> returns, every pointer of the
  current protocol has its bundle afterwards if every one had it before, as long as the other
  clients keep it that way and leave stored bundles in place.\<close>

theorem Upgrade_no_dangling:
  assumes "client_ok R c view" "wf_view (view s)"
    and "Upgrade L (Client_kv c) options s = (r, s')"
    and "NewKeys (uo_Prefix options) = Inr k" "NewKeys (Keys_Prefix k) = Inr k"
    and "\<forall>t g data. keeps R (Keys_BundleKey k t g) data"
    and "stable R (no_dangling k)" "no_dangling k (now (view s))"
  shows "no_dangling k (now (view s'))"
proof -
  have "wf_keys k" using NewKeys_Inr(1) assms(4) by blast
  then have "keeping (holding view (no_dangling k)) (Upgrade L (Client_kv c) options)"
    using assms(6) by (intro etcd_upgrade.upgrade_invariant [OF assms(1,7,4,5), where needs = True] upgrade_survives_no_dangling) blast
  from tripleD [OF this assms(3)] assms(2,8) show ?thesis by (simp add: holding_def)
qed

lemma Upgrade_no_dangling_witness:
  "\<exists>r s'. Upgrade sample_crypto (Client_kv (script_client quiet)) (upgrade_options False) legacy_state = (r, s') \<and>
    no_dangling DefaultKeys (now (sc_view s'))"
proof -
  obtain r s' where run: "Upgrade sample_crypto (Client_kv (script_client quiet)) (upgrade_options False) legacy_state = (r, s')"
    by fastforce
  have keep: "\<forall>t g data. keeps (allowed_writes quiet) (Keys_BundleKey DefaultKeys t g) data"
    by (simp add: keeps_def quiet_stable)
  have ne: "Keys_ActiveKey DefaultKeys t \<noteq> legacy_pointer" "Keys_ActiveKey DefaultKeys t \<noteq> legacy_key" for t
    by (simp_all add: Keys_ActiveKey_def default_prefixes legacy_pointer_def legacy_key_def)
  have "no_dangling DefaultKeys (now (sc_view legacy_state))"
    using ne [symmetric] by (simp add: no_dangling_def value_of_def lookup_def now_def legacy_kvs)
  with Upgrade_no_dangling [OF script_client_ok legacy_wf run sample_upgrade_keys keep quiet_stable] run
  show ?thesis by blast
qed

text \<open>C12: upgrading overwrites nothing. Whatever \<open>Upgrade\<close> returns, every key that existed keeps its
  value, unless it is an old key and the deletion of the old keys was asked for.\<close>

theorem Upgrade_keeps:
  assumes "client_ok R c view" "wf_view (view s)"
    and "Upgrade L (Client_kv c) options s = (r, s')"
    and "NewKeys (uo_Prefix options) = Inr k" "NewKeys (Keys_Prefix k) = Inr k"
    and "keeps R key val" "value_of (now (view s)) key = Some val"
    and "uo_DeleteOld options \<Longrightarrow> \<not> HasPrefix key (old_root k @ ''/'')"
  shows "value_of (now (view s')) key = Some val"
proof -
  have "keeping (holding view (\<lambda>v. value_of v key = Some val)) (Upgrade L (Client_kv c) options)"
    using assms(8)
    by (intro etcd_upgrade.upgrade_invariant [OF assms(1) assms(6) [unfolded keeps_def] assms(4,5), where needs = False]
        upgrade_survives_value) blast+
  from tripleD [OF this assms(3)] assms(2,7) show ?thesis by (simp add: holding_def)
qed

lemma Upgrade_keeps_witness:
  "\<exists>r s'. Upgrade sample_crypto (Client_kv (script_client quiet)) ((upgrade_options False)\<lparr>uo_DeleteOld := False\<rparr>)
      legacy_state = (r, s') \<and> value_of (now (sc_view s')) legacy_key = Some legacy_value"
proof -
  let ?o = "(upgrade_options False)\<lparr>uo_DeleteOld := False\<rparr>"
  obtain r s' where run: "Upgrade sample_crypto (Client_kv (script_client quiet)) ?o legacy_state = (r, s')"
    by fastforce
  have k: "NewKeys (uo_Prefix ?o) = Inr DefaultKeys" using sample_upgrade_keys(1) by simp
  have keep: "keeps (allowed_writes quiet) legacy_key legacy_value"
    by (simp add: keeps_def quiet_stable)
  have "value_of (now (sc_view legacy_state)) legacy_key = Some legacy_value"
    using sample_keys_distinct by (simp add: value_of_def lookup_def now_def legacy_kvs)
  from Upgrade_keeps [OF script_client_ok legacy_wf run k sample_upgrade_keys(2) keep this] run
  show ?thesis by simp
qed

text \<open>C13: a dry run writes nothing: what happens to the store during it is the others' doing.\<close>

theorem Upgrade_dry_run:
  assumes "client_ok R c view" "wf_view (view s)" "uo_DryRun options"
    and "Upgrade L (Client_kv c) options s = (r, s')"
  shows "R (view s) (view s')"
  by (rule etcd_upgrade.upgrade_dry_run [OF assms])

lemma Upgrade_dry_run_witness:
  "\<exists>res s'. Upgrade sample_crypto (Client_kv (script_client quiet)) (upgrade_options True) legacy_state = (Inr res, s') \<and>
     ur_Targets res = [web_result ''would-migrate''] \<and> sc_view s' = sc_view legacy_state"
proof -
  obtain res s' where run: "Upgrade sample_crypto (Client_kv (script_client quiet)) (upgrade_options True) legacy_state = (Inr res, s')"
    and res: "ur_Targets res = [web_result ''would-migrate'']"
    using legacy_dry_run by force
  have "uo_DryRun (upgrade_options True)" by (simp add: upgrade_options_def)
  from Upgrade_dry_run [OF script_client_ok legacy_wf this run]
  have "allowed_writes quiet (sc_view legacy_state) (sc_view s')" .
  then have "sc_view s' = sc_view legacy_state" by (rule quiet_same)
  then show ?thesis using run res by blast
qed

text \<open>C14: converting a bundle keeps its content. What decodes under the old protocol and converts is
  a value that decodes under the current one as the returned manifest, with the requested type, the
  returned digest and exactly the old certificate and key.\<close>

theorem ConvertTLS_keeps_content:
  assumes "Legacy_Decode L t g old = Inr mat" "ConvertTLS L (Some mat) ty = Inr (m, data, digest)"
  shows "(ty = TypeTLSServer \<or> ty = TypeTLSClient) \<and> g = Generation (ContentDigest L (lmat_Files mat)) \<and>
    (\<exists>m' files. Decode L data = Inr (m', files, digest) \<and> m_Type m' = ty \<and>
       map_of files = map_of (lmat_Files mat))"
  using ConvertTLS_converted [OF Legacy_Decode_Inr(6) [OF assms(1)] assms(2)] Legacy_Decode_Inr(5) [OF assms(1)]
  by (simp add: converted_def)

lemma ConvertTLS_keeps_content_witness:
  "\<exists>m files. Decode sample_crypto (encoded (fst sample_manifest)) = Inr (m, files, snd sample_manifest) \<and>
     map_of files = map_of legacy_files"
proof -
  have "lmat_Files legacy_material = legacy_files" by (simp add: legacy_material_def)
  with ConvertTLS_keeps_content [OF legacy_decodes legacy_converts] show ?thesis by auto
qed

end
