(* ===== verification/Configuration.thy ===== *)
theory Configuration
  imports Complex_Main Go_Paths Go_Strconv Bundle "HOL-Library.Word"
begin

unbundle bit_operations_syntax

text \<open>
  \<open>internal/config\<close>: the configuration records, file modes, and the checks of the agent settings
  and of the local targets. Durations are nanoseconds. Loading files, environment and flags is the
  work of a third-party package and is not modelled.
\<close>

section \<open>File modes\<close>

text \<open>\<open>fs.FileMode\<close> is a 32-bit word; \<open>ModePerm\<close> is \<open>0777\<close>.\<close>

type_synonym file_mode = "32 word"

definition ModePerm :: file_mode where "ModePerm = 511"

datatype mode_error = EmptyMode | MalformedMode string | NonPermissionBits string

definition mode_digits :: "string \<Rightarrow> string" where
  "mode_digits val = TrimPrefix (TrimSpace val) ''0o''"

definition parseFileMode :: "string \<Rightarrow> (mode_error, file_mode) result" where
  "parseFileMode val =
     (let trimmed = mode_digits val in
      if trimmed = [] then Inl EmptyMode
      else case ParseUint8 trimmed of
        None \<Rightarrow> Inl (MalformedMode val)
      | Some parsed \<Rightarrow>
          (let mode = word_of_nat parsed :: file_mode in
           if mode AND NOT ModePerm \<noteq> 0 then Inl (NonPermissionBits val) else Inr mode))"

text \<open>A parse error leaves Go's \<open>parsed\<close> at zero.\<close>

definition normalizeFileMode :: "string \<Rightarrow> string" where
  "normalizeFileMode val =
     (let parsed = (case ParseUint8 (mode_digits val) of None \<Rightarrow> 0 | Some n \<Rightarrow> n) in
      pad_left 4 (format_nat 8 (unat ((word_of_nat parsed :: file_mode) AND ModePerm))))"

definition ParseFileMode :: "string \<Rightarrow> (mode_error, string) result" where
  "ParseFileMode val = and_then (parseFileMode val) id (\<lambda>_. Inr (normalizeFileMode val))"

definition FileMode_Perm :: "string \<Rightarrow> file_mode" where
  "FileMode_Perm m = (case parseFileMode m of Inl _ \<Rightarrow> 0 | Inr mode \<Rightarrow> mode AND ModePerm)"

definition FileMode_validate :: "string \<Rightarrow> (mode_error, unit) result" where
  "FileMode_validate m = and_then (parseFileMode m) id (\<lambda>_. Inr ())"

section \<open>Records\<close>

record FileMapping =
  fm_Remote :: string
  fm_Local :: string
  fm_Mode :: string

record Output =
  out_Root :: string
  out_CurrentLink :: string
  out_RetainReleases :: int
  out_DirectoryMode :: string
  out_Mappings :: "FileMapping list"

record Validation =
  va_RejectExpired :: bool
  va_MinimumValidity :: int
  va_ServerNames :: "string list"

record HookConfig =
  hk_Path :: string
  hk_Args :: "string list"
  hk_Timeout :: int
  hk_PassEnvironment :: "string list"

record Target =
  tg_ID :: string
  tg_Type :: string
  tg_DeletePolicy :: string
  tg_Output :: Output
  tg_Validation :: Validation
  tg_Hook :: HookConfig

record EtcdTLS =
  et_CAFile :: string
  et_CertFile :: string
  et_KeyFile :: string
  et_ServerName :: string
  et_InsecureSkipVerify :: bool

record EtcdConfig =
  ec_Prefix :: string
  ec_Endpoints :: "string list"
  ec_User :: string
  ec_DialTimeout :: int
  ec_RequestTimeout :: int
  ec_TLS :: EtcdTLS

text \<open>A \<open>float64\<close>, as far as comparisons go: a rational number or one of the special values.\<close>

datatype float64 = Finite rat | NaN | PosInf | NegInf

definition float_less :: "float64 \<Rightarrow> rat \<Rightarrow> bool" where
  "float_less x r = (case x of Finite q \<Rightarrow> q < r | NaN \<Rightarrow> False | PosInf \<Rightarrow> False | NegInf \<Rightarrow> True)"

definition float_at_least :: "float64 \<Rightarrow> rat \<Rightarrow> bool" where
  "float_at_least x r = (case x of Finite q \<Rightarrow> r \<le> q | NaN \<Rightarrow> False | PosInf \<Rightarrow> True | NegInf \<Rightarrow> False)"

record WatchConfig =
  wc_ResyncInterval :: int
  wc_RetryMin :: int
  wc_RetryMax :: int
  wc_JitterRatio :: float64

record Agent =
  ag_Once :: bool
  ag_DryRun :: bool
  ag_StateDir :: string
  ag_MaxConcurrent :: int
  ag_Etcd :: EtcdConfig
  ag_Watch :: WatchConfig
  ag_Targets :: "Target list"

record PackConfig =
  pc_Type :: string
  pc_TargetID :: string
  pc_CertificatePath :: string
  pc_PrivateKeyPath :: string
  pc_CAPath :: string
  pc_EtcdPrefix :: string
  pc_OutputDir :: string

record SeedConfig =
  sd_TargetID :: string
  sd_PackDir :: string
  sd_Force :: bool

record Tools =
  to_Pack :: PackConfig
  to_Seed :: SeedConfig

record Config =
  cf_Agent :: Agent
  cf_Tools :: Tools

section \<open>Targets\<close>

datatype target_check =
    BadID
  | BadType
  | BadDeletePolicy
  | RootNotAbsolute
  | RootNotClean
  | UnsafeCurrentLink
  | BadDirectoryMode mode_error
  | ZeroDirectoryMode
  | NegativeRetain
  | NoMappings
  | UnsafeRemote nat
  | UnsafeLocal nat
  | BadMappingMode nat mode_error
  | ZeroMappingMode nat
  | DuplicateRemote string
  | DuplicateLocal string
  | WrongRemoteCount string nat
  | MissingRemote string
  | NegativeMinimumValidity
  | ServerNamesNotAllowed
  | EmptyServerName nat
  | DuplicateServerName string
  | NegativeHookTimeout
  | BadEnvironmentName nat

definition safeBundleName :: "string \<Rightarrow> bool" where
  "safeBundleName val \<longleftrightarrow>
     val \<noteq> [] \<and> val \<noteq> ''.'' \<and> val \<noteq> ''..'' \<and> Base val = val \<and> \<not> ContainsAny val (byte_seq [47, 92, 92])"

definition safeRelativePath :: "string \<Rightarrow> bool" where
  "safeRelativePath val =
     (if val = [] \<or> IsAbs val \<or> Clean val \<noteq> val then False
      else val \<noteq> ''.'' \<and> val \<noteq> ''..'' \<and> \<not> HasPrefix val (''..'' @ ''/''))"

definition validBundleType :: "string \<Rightarrow> bool" where
  "validBundleType val \<longleftrightarrow> val = TypeTLSServer \<or> val = TypeTLSClient \<or> val = TypeTrust"

definition expectedRemoteFiles :: "string \<Rightarrow> string list" where
  "expectedRemoteFiles bundleType =
     (if bundleType = TypeTLSServer \<or> bundleType = TypeTLSClient then [NameCertificateChain, NamePrivateKey]
      else if bundleType = TypeTrust then [NameCABundle]
      else [])"

text \<open>
  Go ranges over runes here; a byte of a longer rune is above 127, and such a rune is not valid
  either, so the check is by byte.
\<close>

definition environment_char :: "nat \<Rightarrow> char \<Rightarrow> bool" where
  "environment_char index c \<longleftrightarrow>
     c = CHR ''_'' \<or> (97 \<le> byte_val c \<and> byte_val c \<le> 122) \<or> (65 \<le> byte_val c \<and> byte_val c \<le> 90) \<or>
     (0 < index \<and> 48 \<le> byte_val c \<and> byte_val c \<le> 57)"

fun environment_chars :: "nat \<Rightarrow> string \<Rightarrow> bool" where
  "environment_chars index [] = True"
| "environment_chars index (c # cs) = (environment_char index c \<and> environment_chars (Suc index) cs)"

definition validEnvironmentName :: "string \<Rightarrow> bool" where
  "validEnvironmentName name = (if name = [] then False else environment_chars 0 name)"

text \<open>The loops of \<open>Target.Validate\<close>; \<open>remote\<close> and \<open>local\<close> are the names met so far.\<close>

fun check_mappings :: "nat \<Rightarrow> string list \<Rightarrow> string list \<Rightarrow> FileMapping list \<Rightarrow> (target_check, string list) result" where
  "check_mappings index remote local [] = Inr remote"
| "check_mappings index remote local (mapping # ms) =
     (if \<not> safeBundleName (fm_Remote mapping) then Inl (UnsafeRemote index)
      else if \<not> safeRelativePath (fm_Local mapping) then Inl (UnsafeLocal index)
      else and_then (FileMode_validate (fm_Mode mapping)) (BadMappingMode index) (\<lambda>_.
        if FileMode_Perm (fm_Mode mapping) = 0 then Inl (ZeroMappingMode index)
        else if fm_Remote mapping \<in> set remote then Inl (DuplicateRemote (fm_Remote mapping))
        else if fm_Local mapping \<in> set local then Inl (DuplicateLocal (fm_Local mapping))
        else check_mappings (Suc index) (fm_Remote mapping # remote) (fm_Local mapping # local) ms))"

fun check_names :: "nat \<Rightarrow> string list \<Rightarrow> string list \<Rightarrow> (target_check, unit) result" where
  "check_names index seen [] = Inr ()"
| "check_names index seen (name # names) =
     (if TrimSpace name = [] then Inl (EmptyServerName index)
      else if name \<in> set seen then Inl (DuplicateServerName name)
      else check_names (Suc index) (name # seen) names)"

fun check_environment :: "nat \<Rightarrow> string list \<Rightarrow> (target_check, unit) result" where
  "check_environment index [] = Inr ()"
| "check_environment index (name # names) =
     (if \<not> validEnvironmentName name then Inl (BadEnvironmentName index)
      else check_environment (Suc index) names)"

text \<open>The error for a missing remote file does not name the file: Go ranges over a map.\<close>

definition Target_Validate :: "Target \<Rightarrow> (target_check, unit) result" where
  "Target_Validate t =
     (let output = tg_Output t in
      if TrimSpace (tg_ID t) = [] \<or> CHR ''/'' \<in> set (tg_ID t) then Inl BadID
      else if \<not> validBundleType (tg_Type t) then Inl BadType
      else if tg_DeletePolicy t \<noteq> ''retain'' \<and> tg_DeletePolicy t \<noteq> ''fail'' then Inl BadDeletePolicy
      else if \<not> IsAbs (out_Root output) then Inl RootNotAbsolute
      else if Clean (out_Root output) \<noteq> out_Root output \<or> out_Root output = ''/'' then Inl RootNotClean
      else if \<not> safeBundleName (out_CurrentLink output) then Inl UnsafeCurrentLink
      else and_then (FileMode_validate (out_DirectoryMode output)) BadDirectoryMode (\<lambda>_.
        if FileMode_Perm (out_DirectoryMode output) = 0 then Inl ZeroDirectoryMode
        else if out_RetainReleases output < 0 then Inl NegativeRetain
        else if out_Mappings output = [] then Inl NoMappings
        else and_then (check_mappings 0 [] [] (out_Mappings output)) id (\<lambda>remote.
          let expected = expectedRemoteFiles (tg_Type t) in
          if length remote \<noteq> length expected then Inl (WrongRemoteCount (tg_Type t) (length expected))
          else if \<not> list_all (\<lambda>name. name \<in> set remote) expected then Inl (MissingRemote (tg_Type t))
          else if va_MinimumValidity (tg_Validation t) < 0 then Inl NegativeMinimumValidity
          else if tg_Type t \<noteq> TypeTLSServer \<and> 0 < length (va_ServerNames (tg_Validation t))
          then Inl ServerNamesNotAllowed
          else and_then (check_names 0 [] (va_ServerNames (tg_Validation t))) id (\<lambda>_.
            if hk_Timeout (tg_Hook t) < 0 then Inl NegativeHookTimeout
            else check_environment 0 (hk_PassEnvironment (tg_Hook t))))))"

section \<open>The agent\<close>

datatype config_error =
    StateDirNotAbsolute
  | NoEndpoints
  | ConfigPrefix keys_error
  | EmptyEndpoint nat
  | MalformedUser
  | NonPositiveTimeout
  | UnpairedClientCertificate
  | InvalidWatchDurations
  | InvalidJitter
  | NonPositiveConcurrency
  | NoTargets
  | InvalidTarget nat target_check
  | DuplicateTarget string
  | CompareRoots string string rel_error
  | RootsOverlap string string

definition SplitEtcdUser :: "string \<Rightarrow> (config_error, string \<times> string) result" where
  "SplitEtcdUser val =
     (if val = [] then Inr ([], [])
      else case Cut val (CHR '':'') of
        (username, password, found) \<Rightarrow>
          if \<not> found \<or> username = [] \<or> password = [] then Inl MalformedUser
          else Inr (username, password))"

fun check_endpoints :: "nat \<Rightarrow> string list \<Rightarrow> (config_error, unit) result" where
  "check_endpoints index [] = Inr ()"
| "check_endpoints index (endpoint # es) =
     (if TrimSpace endpoint = [] then Inl (EmptyEndpoint index) else check_endpoints (Suc index) es)"

definition ValidateCommon :: "Agent \<Rightarrow> (config_error, unit) result" where
  "ValidateCommon a =
     (let etcd = ag_Etcd a; watch = ag_Watch a in
      if \<not> IsAbs (ag_StateDir a) then Inl StateDirNotAbsolute
      else if ec_Endpoints etcd = [] then Inl NoEndpoints
      else and_then (NewKeys (ec_Prefix etcd)) ConfigPrefix (\<lambda>_.
        and_then (check_endpoints 0 (ec_Endpoints etcd)) id (\<lambda>_.
        and_then (SplitEtcdUser (ec_User etcd)) id (\<lambda>_.
        if ec_DialTimeout etcd \<le> 0 \<or> ec_RequestTimeout etcd \<le> 0 then Inl NonPositiveTimeout
        else if (et_CertFile (ec_TLS etcd) = []) \<noteq> (et_KeyFile (ec_TLS etcd) = []) then Inl UnpairedClientCertificate
        else if wc_ResyncInterval watch < 0 \<or> wc_RetryMin watch \<le> 0 \<or> wc_RetryMax watch < wc_RetryMin watch
        then Inl InvalidWatchDurations
        else if float_less (wc_JitterRatio watch) 0 \<or> float_at_least (wc_JitterRatio watch) 1 then Inl InvalidJitter
        else if ag_MaxConcurrent a \<le> 0 then Inl NonPositiveConcurrency
        else Inr ()))))"

text \<open>The two loops of \<open>validateOutputRoots\<close>: each root against every later one.\<close>

fun compare_roots :: "string \<Rightarrow> string list \<Rightarrow> (config_error, unit) result" where
  "compare_roots left [] = Inr ()"
| "compare_roots left (right # rs) =
     and_then (Rel left right) (CompareRoots left right) (\<lambda>relation.
     if relation = ''.'' \<or> \<not> HasPrefix relation ''..'' then Inl (RootsOverlap left right)
     else compare_roots left rs)"

fun validateOutputRoots :: "string list \<Rightarrow> (config_error, unit) result" where
  "validateOutputRoots [] = Inr ()"
| "validateOutputRoots (left # rs) = and_then (compare_roots left rs) id (\<lambda>_. validateOutputRoots rs)"

fun check_targets :: "nat \<Rightarrow> string list \<Rightarrow> string list \<Rightarrow> Target list \<Rightarrow> (config_error, string list) result" where
  "check_targets i seen roots [] = Inr roots"
| "check_targets i seen roots (target # ts) =
     and_then (Target_Validate target) (InvalidTarget i) (\<lambda>_.
     if tg_ID target \<in> set seen then Inl (DuplicateTarget (tg_ID target))
     else check_targets (Suc i) (tg_ID target # seen) (roots @ [out_Root (tg_Output target)]) ts)"

definition ValidateTargets :: "Agent \<Rightarrow> (config_error, unit) result" where
  "ValidateTargets a =
     (if ag_Targets a = [] then Inl NoTargets
      else and_then (check_targets 0 [] [] (ag_Targets a)) id (\<lambda>roots.
        and_then (validateOutputRoots roots) id (\<lambda>_. Inr ())))"

definition Config_Validate :: "Config \<Rightarrow> (config_error, unit) result" where
  "Config_Validate c = and_then (ValidateCommon (cf_Agent c)) id (\<lambda>_. ValidateTargets (cf_Agent c))"

section \<open>Defaults\<close>

definition DefaultEtcdPrefix :: string where "DefaultEtcdPrefix = ''/pemcast''"

abbreviation (input) seconds :: "int \<Rightarrow> int" where "seconds n \<equiv> n * 1000000000"

definition DefaultConfig :: Config where
  "DefaultConfig =
     \<lparr>cf_Agent =
        \<lparr>ag_Once = False, ag_DryRun = False, ag_StateDir = ''/var/lib/pemcast'', ag_MaxConcurrent = 4,
         ag_Etcd =
           \<lparr>ec_Prefix = DefaultEtcdPrefix, ec_Endpoints = [''http://127.0.0.1:2379''], ec_User = [],
            ec_DialTimeout = seconds 5, ec_RequestTimeout = seconds 10,
            ec_TLS = \<lparr>et_CAFile = [], et_CertFile = [], et_KeyFile = [], et_ServerName = [],
              et_InsecureSkipVerify = False\<rparr>\<rparr>,
         ag_Watch =
           \<lparr>wc_ResyncInterval = seconds 600, wc_RetryMin = seconds 1, wc_RetryMax = seconds 30,
            wc_JitterRatio = Finite (1 / 5)\<rparr>,
         ag_Targets = []\<rparr>,
      cf_Tools =
        \<lparr>to_Pack = \<lparr>pc_Type = TypeTLSServer, pc_TargetID = [], pc_CertificatePath = [], pc_PrivateKeyPath = [],
           pc_CAPath = [], pc_EtcdPrefix = DefaultEtcdPrefix, pc_OutputDir = []\<rparr>,
         to_Seed = \<lparr>sd_TargetID = [], sd_PackDir = [], sd_Force = False\<rparr>\<rparr>\<rparr>"

definition example_target :: Target where
  "example_target =
     \<lparr>tg_ID = ''nginx'', tg_Type = TypeTLSServer, tg_DeletePolicy = ''retain'',
      tg_Output =
        \<lparr>out_Root = ''/etc/nginx/tls'', out_CurrentLink = ''current'', out_RetainReleases = 3,
         out_DirectoryMode = ''0700'',
         out_Mappings =
           [\<lparr>fm_Remote = ''fullchain.pem'', fm_Local = ''fullchain.pem'', fm_Mode = ''0644''\<rparr>,
            \<lparr>fm_Remote = ''privkey.pem'', fm_Local = ''privkey.pem'', fm_Mode = ''0600''\<rparr>]\<rparr>,
      tg_Validation = \<lparr>va_RejectExpired = True, va_MinimumValidity = seconds 3600, va_ServerNames = []\<rparr>,
      tg_Hook = \<lparr>hk_Path = ''/etc/pemcast/hooks/reload-nginx'', hk_Args = [], hk_Timeout = seconds 30,
        hk_PassEnvironment = []\<rparr>\<rparr>"

definition ExampleConfig :: Config where
  "ExampleConfig =
     (let cfg = DefaultConfig in cfg\<lparr>cf_Agent := (cf_Agent cfg)\<lparr>ag_Targets := [example_target]\<rparr>\<rparr>)"

section \<open>Facts about modes\<close>

lemma mode_bits: "mode AND NOT ModePerm = 0 \<longleftrightarrow> unat mode \<le> 511" for mode :: file_mode
proof -
  have "mode AND NOT m = 0 \<longleftrightarrow> mode AND m = mode" for m
  proof
    assume "mode AND NOT m = 0"
    then have "\<not> bit (mode AND NOT m) i" for i by simp
    then show "mode AND m = mode"
      by (intro bit_word_eqI) (auto simp: bit_and_iff bit_not_iff)
  next
    assume "mode AND m = mode"
    then have "bit (mode AND m) i = bit mode i" for i by simp
    then have "bit mode i \<Longrightarrow> bit m i" for i unfolding bit_and_iff by blast
    then show "mode AND NOT m = 0"
      by (intro bit_word_eqI) (auto simp: bit_and_iff bit_not_iff)
  qed
  moreover have "(ModePerm :: file_mode) = mask 9" by (simp add: ModePerm_def mask_eq_exp_minus_1)
  ultimately have "mode AND NOT ModePerm = 0 \<longleftrightarrow> mode AND mask 9 = mode" by simp
  also have "\<dots> \<longleftrightarrow> uint mode < 512" unfolding mask_eq_iff by simp
  finally have "mode AND NOT ModePerm = 0 \<longleftrightarrow> uint mode < 512" .
  moreover have "uint mode = int (unat mode)" by simp
  ultimately show ?thesis by linarith
qed

lemma parseFileMode_Inr:
  "parseFileMode val = Inr mode \<longleftrightarrow> mode_digits val \<noteq> [] \<and>
     (\<exists>n. ParseUint8 (mode_digits val) = Some n \<and> n \<le> 511 \<and> mode = word_of_nat n)"
proof -
  have "unat (word_of_nat n :: file_mode) \<le> 511 \<longleftrightarrow> n \<le> 511" if "ParseUint8 s = Some n" for s n
  proof -
    have "n < 2 ^ 32"
      using that by (auto simp: ParseUint8_def split: if_split_asm option.split_asm)
    then show ?thesis by (simp add: unat_of_nat)
  qed
  then show ?thesis
    by (auto simp: parseFileMode_def Let_def mode_bits split: option.split)
qed

lemma parse_mode_bound: "parseFileMode val = Inr mode \<Longrightarrow> unat mode \<le> 511"
  by (auto simp: parseFileMode_Inr unat_of_nat)

lemma octal_value_append:
  "octal_value acc (xs @ ys) = (case octal_value acc xs of None \<Rightarrow> None | Some a \<Rightarrow> octal_value a ys)"
  by (induction xs arbitrary: acc) auto

lemma octal_digit: "n < 8 \<Longrightarrow> byte_val (hex_digit n) = 48 + n"
  by (simp add: hex_digit_def)

lemma octal_value_digits:
  "n < fuel \<Longrightarrow> octal_value acc (digits_of 8 fuel n) = Some (acc * 8 ^ length (digits_of 8 fuel n) + n)"
proof (induction fuel arbitrary: n)
  case (Suc fuel)
  show ?case
  proof (cases "n < 8")
    case True
    then show ?thesis by (simp add: octal_digit)
  next
    case False
    then have "n div 8 < fuel" using Suc.prems by simp
    from Suc.IH [OF this] False show ?thesis
      by (simp add: octal_value_append octal_digit algebra_simps)
  qed
qed simp

lemma octal_value_zeros: "octal_value 0 (replicate k (CHR ''0'') @ s) = octal_value 0 s"
  by (induction k) auto

lemma octal_value_format: "octal_value 0 (pad_left w (format_nat 8 n)) = Some n"
  using octal_value_digits [of n "Suc n" 0]
  by (simp add: pad_left_def octal_value_zeros format_nat_def)

text \<open>Octal digits have no white space to trim and no prefix to drop.\<close>

definition octal_char :: "char \<Rightarrow> bool" where
  "octal_char c \<longleftrightarrow> 48 \<le> byte_val c \<and> byte_val c \<le> 55"

lemma octal_value_chars: "octal_value acc s = Some n \<Longrightarrow> \<forall>c \<in> set s. octal_char c"
  by (induction s arbitrary: acc) (auto simp: octal_char_def split: if_split_asm)

lemma strip_one_None:
  assumes "s \<noteq> []" "\<forall>p \<in> set ps. p \<noteq> [] \<and> hd p \<noteq> hd s"
  shows "strip_one ps s = None"
  using assms by (induction ps) (auto simp: HasPrefix_iff hd_append)

lemma space_not_octal:
  "\<forall>p \<in> set space_seqs. p \<noteq> [] \<and> \<not> octal_char (hd p)"
  "\<forall>p \<in> set (map rev space_seqs). p \<noteq> [] \<and> \<not> octal_char (hd p)"
proof -
  have "list_all (\<lambda>p. p \<noteq> [] \<and> \<not> octal_char (hd p)) space_seqs"
    "list_all (\<lambda>p. p \<noteq> [] \<and> \<not> octal_char (hd p)) (map rev space_seqs)"
    by code_simp+
  then show "\<forall>p \<in> set space_seqs. p \<noteq> [] \<and> \<not> octal_char (hd p)"
    "\<forall>p \<in> set (map rev space_seqs). p \<noteq> [] \<and> \<not> octal_char (hd p)"
    unfolding list_all_iff by blast+
qed

lemma TrimSpace_octal:
  assumes "s \<noteq> []" "\<forall>c \<in> set s. octal_char c"
  shows "TrimSpace s = s"
proof -
  have "octal_char (hd s)" "octal_char (hd (rev s))"
    using assms by (simp_all add: hd_rev)
  then have "strip_one space_seqs s = None" "strip_one (map rev space_seqs) (rev s) = None"
    using space_not_octal assms(1) by (metis rev_is_Nil_conv strip_one_None)+
  then show ?thesis
    by (simp add: TrimSpace_def strip_left.simps)
qed

lemma mode_digits_octal:
  assumes "s \<noteq> []" "\<forall>c \<in> set s. octal_char c"
  shows "mode_digits s = s"
proof -
  have "\<not> octal_char (CHR ''o'')" by code_simp
  then have "\<not> HasPrefix s ''0o''" using assms(2) by (auto simp: HasPrefix_iff)
  then show ?thesis by (simp add: mode_digits_def TrimSpace_octal [OF assms] TrimPrefix_def)
qed

lemma parse_normalized:
  assumes "n \<le> 511"
  shows "parseFileMode (pad_left 4 (format_nat 8 n)) = Inr (word_of_nat n)"
proof -
  let ?s = "pad_left 4 (format_nat 8 n)"
  have v: "octal_value 0 ?s = Some n" by (rule octal_value_format)
  have "?s \<noteq> []" by (simp add: pad_left_def format_nat_def)
  moreover from this have "mode_digits ?s = ?s" using mode_digits_octal octal_value_chars [OF v] by blast
  ultimately show ?thesis
    using v assms by (auto simp: parseFileMode_Inr ParseUint8_def)
qed

lemma normalizeFileMode_eq:
  assumes "parseFileMode val = Inr mode"
  shows "\<exists>n. n \<le> 511 \<and> mode = word_of_nat n \<and> normalizeFileMode val = pad_left 4 (format_nat 8 n)"
proof -
  obtain n where n: "ParseUint8 (mode_digits val) = Some n" "n \<le> 511" "mode = word_of_nat n"
    using assms by (auto simp: parseFileMode_Inr)
  have "(word_of_nat n :: file_mode) AND ModePerm = word_of_nat n"
  proof -
    have "(ModePerm :: file_mode) = mask 9" by (simp add: ModePerm_def mask_eq_exp_minus_1)
    moreover have "uint (word_of_nat n :: file_mode) < 2 ^ 9"
    proof -
      have u: "unat (word_of_nat n :: file_mode) = n" using n(2) by (simp add: unat_of_nat)
      show ?thesis unfolding uint_nat u using n(2) by simp
    qed
    ultimately show ?thesis by (metis mask_eq_iff)
  qed
  then show ?thesis using n by (intro exI [of _ n]) (simp add: normalizeFileMode_def unat_of_nat)
qed

lemma format_length: "length (digits_of 8 fuel n) \<le> d" if "n < 8 ^ d" "0 < d"
  using that
proof (induction d arbitrary: fuel n)
  case (Suc d)
  show ?case
  proof (cases fuel)
    case (Suc f)
    show ?thesis
    proof (cases "n < 8")
      case False
      then have "n div 8 < 8 ^ d" "0 < d"
        using Suc.prems by (auto simp: less_mult_imp_div_less mult.commute intro: Nat.gr0I)
      with Suc.IH show ?thesis by (simp add: Suc False)
    qed (simp add: Suc)
  qed simp
qed simp

section \<open>What target validation accepts\<close>

definition mode_ok :: "string \<Rightarrow> bool" where
  "mode_ok m \<longleftrightarrow> (\<exists>mode. parseFileMode m = Inr mode \<and> mode \<noteq> 0)"

lemma perm_bits:
  assumes "parseFileMode m = Inr mode"
  shows "mode AND ModePerm = mode"
proof -
  have p: "(ModePerm :: file_mode) = mask 9" by (simp add: ModePerm_def mask_eq_exp_minus_1)
  have "int (unat mode) < 512" using parse_mode_bound [OF assms] by linarith
  then have "uint mode < 2 ^ 9" by simp
  then show ?thesis unfolding p mask_eq_iff .
qed

lemma mode_checks: "is_ok (FileMode_validate m) \<and> FileMode_Perm m \<noteq> 0 \<longleftrightarrow> mode_ok m"
proof (cases "parseFileMode m")
  case (Inr mode)
  then show ?thesis using perm_bits [OF Inr] by (simp add: FileMode_validate_def FileMode_Perm_def mode_ok_def)
qed (simp add: FileMode_validate_def mode_ok_def)

definition mapping_ok :: "FileMapping \<Rightarrow> bool" where
  "mapping_ok m \<longleftrightarrow> safeBundleName (fm_Remote m) \<and> safeRelativePath (fm_Local m) \<and> mode_ok (fm_Mode m)"

lemma check_mappings_Inr:
  "check_mappings index remote local ms = Inr result \<longleftrightarrow>
     (\<forall>m \<in> set ms. mapping_ok m \<and> fm_Remote m \<notin> set remote \<and> fm_Local m \<notin> set local) \<and>
     distinct (map fm_Remote ms) \<and> distinct (map fm_Local ms) \<and>
     result = rev (map fm_Remote ms) @ remote"
proof (induction ms arbitrary: index remote local)
  case (Cons m ms)
  show ?case
  proof (cases "mapping_ok m \<and> fm_Remote m \<notin> set remote \<and> fm_Local m \<notin> set local")
    case True
    then have "is_ok (FileMode_validate (fm_Mode m))" "FileMode_Perm (fm_Mode m) \<noteq> 0"
      using mode_checks by (auto simp: mapping_ok_def)
    with True have step: "check_mappings index remote local (m # ms) =
        check_mappings (Suc index) (fm_Remote m # remote) (fm_Local m # local) ms"
      by (auto simp: mapping_ok_def is_ok_iff)
    show ?thesis unfolding step Cons.IH using True by auto (metis imageI)+
  next
    case False
    then have "check_mappings index remote local (m # ms) \<noteq> Inr result"
      using mode_checks [of "fm_Mode m"]
      by (cases "FileMode_validate (fm_Mode m)") (auto simp: mapping_ok_def)
    with False show ?thesis by auto
  qed
qed auto

lemma check_names_ok:
  "is_ok (check_names index seen names) \<longleftrightarrow>
     (\<forall>n \<in> set names. TrimSpace n \<noteq> [] \<and> n \<notin> set seen) \<and> distinct names"
  by (induction names arbitrary: index seen) auto

lemma check_environment_ok: "is_ok (check_environment index names) \<longleftrightarrow> (\<forall>n \<in> set names. validEnvironmentName n)"
  by (induction names arbitrary: index) auto

text \<open>A target that can be deployed: everything the loader checks, without order or error codes.\<close>

definition valid_target :: "Target \<Rightarrow> bool" where
  "valid_target t \<longleftrightarrow>
     TrimSpace (tg_ID t) \<noteq> [] \<and> CHR ''/'' \<notin> set (tg_ID t) \<and> validBundleType (tg_Type t) \<and>
     (tg_DeletePolicy t = ''retain'' \<or> tg_DeletePolicy t = ''fail'') \<and>
     IsAbs (out_Root (tg_Output t)) \<and> Clean (out_Root (tg_Output t)) = out_Root (tg_Output t) \<and>
     out_Root (tg_Output t) \<noteq> ''/'' \<and> safeBundleName (out_CurrentLink (tg_Output t)) \<and>
     mode_ok (out_DirectoryMode (tg_Output t)) \<and> 0 \<le> out_RetainReleases (tg_Output t) \<and>
     (\<forall>m \<in> set (out_Mappings (tg_Output t)). mapping_ok m) \<and>
     distinct (map fm_Remote (out_Mappings (tg_Output t))) \<and>
     distinct (map fm_Local (out_Mappings (tg_Output t))) \<and>
     fm_Remote ` set (out_Mappings (tg_Output t)) = set (expectedRemoteFiles (tg_Type t)) \<and>
     0 \<le> va_MinimumValidity (tg_Validation t) \<and>
     (tg_Type t \<noteq> TypeTLSServer \<longrightarrow> va_ServerNames (tg_Validation t) = []) \<and>
     (\<forall>n \<in> set (va_ServerNames (tg_Validation t)). TrimSpace n \<noteq> []) \<and>
     distinct (va_ServerNames (tg_Validation t)) \<and> 0 \<le> hk_Timeout (tg_Hook t) \<and>
     (\<forall>n \<in> set (hk_PassEnvironment (tg_Hook t)). validEnvironmentName n)"

lemma expectedRemoteFiles_distinct: "distinct (expectedRemoteFiles ty)"
  by (simp add: expectedRemoteFiles_def name_defs)

lemma remote_set:
  assumes "distinct xs" "distinct ys"
  shows "length xs = length ys \<and> set ys \<subseteq> set xs \<longleftrightarrow> set xs = set ys"
  by (metis assms card_subset_eq distinct_card finite_set set_eq_subset)

lemma Target_Validate_ok: "is_ok (Target_Validate t) \<longleftrightarrow> valid_target t"
proof (cases "check_mappings 0 [] [] (out_Mappings (tg_Output t))")
  case (Inl e)
  then have "\<not> valid_target t"
    using check_mappings_Inr [of 0 "[]" "[]" "out_Mappings (tg_Output t)"]
    by (auto simp: valid_target_def)
  moreover have "\<not> is_ok (Target_Validate t)"
    using Inl by (auto simp: Target_Validate_def Let_def and_then_is_ok)
  ultimately show ?thesis by blast
next
  case (Inr remote)
  have m: "(\<forall>m \<in> set (out_Mappings (tg_Output t)). mapping_ok m)"
    "distinct (map fm_Remote (out_Mappings (tg_Output t)))" "distinct (map fm_Local (out_Mappings (tg_Output t)))"
    "remote = rev (map fm_Remote (out_Mappings (tg_Output t)))"
    using Inr by (simp_all add: check_mappings_Inr)
  have r: "length remote = length (expectedRemoteFiles (tg_Type t)) \<and>
      list_all (\<lambda>name. name \<in> set remote) (expectedRemoteFiles (tg_Type t)) \<longleftrightarrow>
      fm_Remote ` set (out_Mappings (tg_Output t)) = set (expectedRemoteFiles (tg_Type t))"
    using remote_set [OF m(2) expectedRemoteFiles_distinct, of "tg_Type t"]
    by (simp add: m(4) list_all_iff subset_eq)
  have e: "validBundleType (tg_Type t) \<Longrightarrow> expectedRemoteFiles (tg_Type t) \<noteq> []"
    by (auto simp: validBundleType_def expectedRemoteFiles_def)
  show ?thesis
    using m(1-3) r e mode_checks [of "out_DirectoryMode (tg_Output t)"]
    unfolding Target_Validate_def Let_def valid_target_def Inr
    by (auto simp: and_then_is_ok check_names_ok check_environment_ok unit_ok split: if_split_asm)
qed

section \<open>Output roots\<close>

lemma components_abs_path:
  assumes "\<forall>w \<in> set ws. plain_component w"
  shows "components (abs_path ws) = ws"
proof (cases "ws = []")
  case True
  then show ?thesis by (simp add: components_def abs_path_def)
next
  case False
  then obtain w ws' where ws: "ws = w # ws'" by (cases ws) auto
  have "w \<noteq> []" using assms ws by (simp add: plain_component_def)
  then have "abs_path ws \<noteq> ''/''" by (simp add: abs_path_def ws Join_Cons)
  moreover have "Split slash (Join ws ''/'') = ws"
    using False assms by (intro Split_Join) (auto simp: plain_component_def)
  ultimately show ?thesis by (simp add: components_def abs_path_def)
qed

lemma drop_common_split:
  "drop_common as bs = (a, b) \<Longrightarrow> \<exists>c. as = c @ a \<and> bs = c @ b \<and> (a = [] \<or> b = [] \<or> hd a \<noteq> hd b)"
proof (induction as bs rule: drop_common.induct)
  case (1 x as y bs)
  show ?case
  proof (cases "x = y")
    case True
    then obtain c where "as = c @ a" "bs = c @ b" "a = [] \<or> b = [] \<or> hd a \<noteq> hd b"
      using 1 by auto
    with True show ?thesis by (intro exI [of _ "x # c"]) simp
  next
    case False
    with 1(2) show ?thesis by auto
  qed
qed auto

lemma HasPrefix_Join_dots:
  assumes "t \<noteq> []" "hd t \<noteq> []"
  shows "HasPrefix (Join t ''/'') ''..'' \<longleftrightarrow> HasPrefix (hd t) ''..''"
proof -
  obtain w ws where t: "t = w # ws" and w: "w \<noteq> []" using assms by (cases t) auto
  obtain c cs where wc: "w = c # cs" using w by (cases w) auto
  show ?thesis by (cases cs) (auto simp: t wc Join_Cons)
qed

text \<open>What one comparison rejects: the later root is the earlier one or lies below it.\<close>

definition below_root :: "string list \<Rightarrow> string list \<Rightarrow> bool" where
  "below_root left right \<longleftrightarrow> (\<exists>t. right = left @ t \<and> (t = [] \<or> \<not> HasPrefix (hd t) ''..''))"

lemma Rel_roots:
  assumes ls: "\<forall>w \<in> set ls. plain_component w" and rs: "\<forall>w \<in> set rs. plain_component w"
  shows "\<exists>relation. Rel (abs_path ls) (abs_path rs) = Inr relation \<and>
    (relation = ''.'' \<or> \<not> HasPrefix relation ''..'' \<longleftrightarrow> below_root ls rs)"
proof (cases "ls = rs")
  case True
  then show ?thesis by (auto simp: Rel_def Let_def below_root_def)
next
  case False
  then have ne: "abs_path rs \<noteq> abs_path ls" using abs_path_inj [OF _ rs ls] by auto
  obtain b t where bt: "drop_common ls rs = (b, t)" by fastforce
  then obtain c where c: "ls = c @ b" "rs = c @ t" "b = [] \<or> t = [] \<or> hd b \<noteq> hd t"
    using drop_common_split by blast
  have b: "b = [] \<or> hd b \<noteq> ''..''" using ls c(1) by (cases b) (auto simp: plain_component_def)
  have rel: "Rel (abs_path ls) (abs_path rs) = Inr (Join (replicate (length b) ''..'' @ t) ''/'')"
    using ne b by (simp add: Rel_def Let_def Clean_abs_path ls rs components_abs_path bt)
  show ?thesis
  proof (cases b)
    case Nil
    then have t: "t \<noteq> []" "hd t \<noteq> []"
      using False c rs by (auto simp: plain_component_def)
    have "below_root ls rs \<longleftrightarrow> \<not> HasPrefix (hd t) ''..''"
      using t c Nil by (auto simp: below_root_def)
    moreover have "relation = ''.'' \<Longrightarrow> \<not> HasPrefix relation ''..''" for relation by simp
    ultimately show ?thesis using rel HasPrefix_Join_dots [OF t] by (auto simp: Nil)
  next
    case (Cons x xs)
    let ?r = "Join (replicate (length b) ''..'' @ t) ''/''"
    have "HasPrefix ?r ''..''"
      by (subst HasPrefix_Join_dots) (simp_all add: Cons)
    moreover have "?r \<noteq> ''.''" using calculation by auto
    moreover have "\<not> below_root ls rs"
    proof
      assume "below_root ls rs"
      then obtain u where "rs = ls @ u" by (auto simp: below_root_def)
      then have "t = b @ u" using c by simp
      then show False using c(3) Cons by simp
    qed
    ultimately show ?thesis using rel by blast
  qed
qed

lemma validateOutputRoots_paths:
  assumes "\<forall>ws \<in> set wss. \<forall>w \<in> set ws. plain_component w"
  shows "is_ok (validateOutputRoots (map abs_path wss)) \<longleftrightarrow> sorted_wrt (\<lambda>ls rs. \<not> below_root ls rs) wss"
  using assms
proof (induction wss)
  case (Cons ls wss)
  have "is_ok (compare_roots (abs_path ls) (map abs_path rss)) \<longleftrightarrow> (\<forall>rs \<in> set rss. \<not> below_root ls rs)"
    if "\<forall>ws \<in> set rss. \<forall>w \<in> set ws. plain_component w" for rss
    using that
  proof (induction rss)
    case (Cons rs rss)
    obtain relation where "Rel (abs_path ls) (abs_path rs) = Inr relation"
      "relation = ''.'' \<or> \<not> HasPrefix relation ''..'' \<longleftrightarrow> below_root ls rs"
      using Rel_roots [of ls rs] Cons.prems \<open>\<forall>ws \<in> set (ls # wss). \<forall>w \<in> set ws. plain_component w\<close> by auto
    with Cons show ?case by auto
  qed simp
  with Cons show ?case by (simp add: and_then_is_ok unit_ok)
qed simp

end
