(* ===== verification/Configuration_Properties.thy ===== *)
theory Configuration_Properties
  imports Configuration
begin

text \<open>The properties of the configuration checks, with their witnesses.\<close>

text \<open>Target validation is exact. \<open>Target.Validate\<close> accepts just the targets of \<open>valid_target\<close>:
  clean absolute output roots, safe link and file names, distinct mappings for exactly the files of
  the bundle type, permission bits that are not zero, non-negative durations and counts, server
  names only for servers, and well-formed environment names.\<close>

theorem Target_Validate_accepts: "Target_Validate t = Inr () \<longleftrightarrow> valid_target t"
  using Target_Validate_ok by (simp add: unit_ok)

text \<open>C29: file modes have a normal form. What \<open>ParseFileMode\<close> returns has four octal digits or is
  parsed again as itself, denotes the same permission bits as the original text, and never any
  other bit.\<close>

theorem ParseFileMode_roundtrip:
  assumes "ParseFileMode val = Inr m"
  shows "parseFileMode m = parseFileMode val \<and> ParseFileMode m = Inr m \<and>
    parseFileMode m = Inr (FileMode_Perm m) \<and> unat (FileMode_Perm m) \<le> 511"
proof -
  obtain mode where mode: "parseFileMode val = Inr mode" and m: "m = normalizeFileMode val"
    using assms by (auto simp: ParseFileMode_def and_then_Inr)
  obtain n where n: "n \<le> 511" "mode = word_of_nat n" "m = pad_left 4 (format_nat 8 n)"
    using normalizeFileMode_eq [OF mode] m by blast
  have p: "parseFileMode m = Inr mode" unfolding n(2,3) by (rule parse_normalized [OF n(1)])
  obtain n' where n': "n' \<le> 511" "mode = word_of_nat n'" "normalizeFileMode m = pad_left 4 (format_nat 8 n')"
    using normalizeFileMode_eq [OF p] by blast
  have "n' = n"
  proof -
    have small: "unat (word_of_nat k :: file_mode) = k" if "k \<le> 511" for k
      using that by (simp add: unat_of_nat)
    show ?thesis using small [OF n(1)] small [OF n'(1)] n(2) n'(2) by metis
  qed
  then have "ParseFileMode m = Inr m" using p n(3) n'(3) by (simp add: ParseFileMode_def)
  moreover have "FileMode_Perm m = mode" using p perm_bits [OF p] by (simp add: FileMode_Perm_def)
  ultimately show ?thesis using p mode parse_mode_bound [OF p] by simp
qed

lemma ParseFileMode_roundtrip_witness: "parseFileMode ''0640'' = parseFileMode '' 0o640 ''"
proof -
  have "ParseFileMode '' 0o640 '' = Inr ''0640''" by code_simp
  from ParseFileMode_roundtrip [OF this] show ?thesis by blast
qed

text \<open>C28: what the overlap check of output roots decides. On clean absolute roots it accepts a list
  exactly when no root equals an earlier one or lies below an earlier one, and even a root below an
  earlier one passes when its first component there begins with two dots.\<close>

theorem validateOutputRoots_decides:
  assumes "\<forall>ws \<in> set wss. \<forall>w \<in> set ws. plain_component w"
  shows "validateOutputRoots (map abs_path wss) = Inr () \<longleftrightarrow>
    sorted_wrt (\<lambda>left right. \<not> (\<exists>t. right = left @ t \<and> (t = [] \<or> \<not> HasPrefix (hd t) ''..''))) wss"
  using validateOutputRoots_paths [OF assms] by (simp add: unit_ok below_root_def)

lemma validateOutputRoots_decides_witness:
  "validateOutputRoots (map abs_path [[''srv'', ''tls''], [''srv'', ''web'']]) = Inr ()"
proof -
  have "\<forall>ws \<in> set [[''srv'', ''tls''], [''srv'', ''web'']]. \<forall>w \<in> set ws. plain_component w"
    by (simp add: plain_component_def)
  from validateOutputRoots_decides [OF this] show ?thesis by simp
qed

text \<open>The overlap check depends on the order. A root and its own subdirectory are refused in one
  order and accepted in the other, so two targets can share a directory tree.\<close>

theorem nested_roots_accepted:
  "validateOutputRoots [''/srv/tls/web'', ''/srv/tls''] = Inr () \<and>
   validateOutputRoots [''/srv/tls'', ''/srv/tls/web''] = Inl (RootsOverlap ''/srv/tls'' ''/srv/tls/web'') \<and>
   validateOutputRoots [''/srv'', ''/srv/..tls''] = Inr ()"
  by code_simp

lemma example_modes: "mode_ok ''0644''" "mode_ok ''0600''" "mode_ok ''0700''" "mode_ok ''0755''"
proof -
  have "parseFileMode ''0644'' = Inr 420" "parseFileMode ''0600'' = Inr 384"
    "parseFileMode ''0700'' = Inr 448" "parseFileMode ''0755'' = Inr 493" by code_simp+
  then show "mode_ok ''0644''" "mode_ok ''0600''" "mode_ok ''0700''" "mode_ok ''0755''"
    by (simp_all add: mode_ok_def)
qed

lemma example_names:
  "safeBundleName ''fullchain.pem''" "safeBundleName ''privkey.pem''" "safeBundleName ''current''"
  "safeRelativePath ''fullchain.pem''" "safeRelativePath ''privkey.pem''"
  "Clean ''/etc/nginx/tls'' = ''/etc/nginx/tls''" "IsAbs ''/etc/nginx/tls''"
  "TrimSpace ''nginx'' \<noteq> []"
  by code_simp+

lemma example_target_valid: "valid_target example_target"
  by (simp add: valid_target_def example_target_def mapping_ok_def example_modes example_names
      validBundleType_def expectedRemoteFiles_def name_defs TypeTLSServer_def)

text \<open>the shipped configurations. The example validates; the default only lacks targets.\<close>

theorem ExampleConfig_valid:
  "Config_Validate ExampleConfig = Inr () \<and> Config_Validate DefaultConfig = Inl NoTargets"
proof -
  have common: "ValidateCommon (cf_Agent DefaultConfig) = Inr ()"
    unfolding DefaultConfig_def Config.simps by code_simp
  have "ValidateCommon (cf_Agent ExampleConfig) = ValidateCommon (cf_Agent DefaultConfig)"
    by (simp add: ExampleConfig_def ValidateCommon_def Let_def)
  moreover have "Target_Validate example_target = Inr ()"
    using example_target_valid Target_Validate_ok by (simp add: unit_ok)
  ultimately show ?thesis
    using common
    by (simp add: Config_Validate_def ValidateTargets_def ExampleConfig_def DefaultConfig_def)
qed

text \<open>splitting the user setting is exact: the empty setting, or a non-empty name without colon,
  a colon, and a non-empty password that may hold more colons.\<close>

theorem SplitEtcdUser_decides:
  "SplitEtcdUser val = Inr (username, password) \<longleftrightarrow>
     val = [] \<and> username = [] \<and> password = [] \<or>
     val = username @ '':'' @ password \<and> username \<noteq> [] \<and> password \<noteq> [] \<and> CHR '':'' \<notin> set username"
proof (cases "Cut val (CHR '':'')")
  case (fields before rest found)
  show ?thesis
  proof (cases found)
    case True
    then have val: "val = before @ '':'' @ rest" and free: "CHR '':'' \<notin> set before"
      using fields Cut_found [of val "CHR '':''"] by simp_all
    have "val = username @ '':'' @ password \<and> CHR '':'' \<notin> set username \<longleftrightarrow>
        before = username \<and> rest = password" (is "?l \<longleftrightarrow> ?r")
    proof
      assume ?l
      then have "Cut val (CHR '':'') = (username, password, True)" using Cut_append by simp
      then show ?r using fields by simp
    next
      assume ?r
      then show ?l using val free by simp
    qed
    moreover have "val \<noteq> []" using val by simp
    moreover have "SplitEtcdUser val = (if before = [] \<or> rest = [] then Inl MalformedUser else Inr (before, rest))"
      using \<open>val \<noteq> []\<close> fields True by (simp add: SplitEtcdUser_def)
    ultimately show ?thesis by (cases "before = []"; cases "rest = []") auto
  next
    case False
    then have "CHR '':'' \<notin> set val" using fields Cut_not_found by metis
    moreover have "SplitEtcdUser val = (if val = [] then Inr ([], []) else Inl MalformedUser)"
      using fields False by (simp add: SplitEtcdUser_def)
    ultimately show ?thesis by (cases "val = []") auto
  qed
qed

end
