(* ===== verification/Go_Os.thy ===== *)
theory Go_Os
  imports Go_Paths Go_Strconv "HOL-Library.Word" "HOL-Library.Sublist"
begin

unbundle bit_operations_syntax

text \<open>
  The part of package \<open>os\<close> (with \<open>path/filepath\<close> and \<open>syscall.Flock\<close>) that the agent uses, on a file
  system that is a tree. A node keeps its permission bits, a directory also its modification time. A
  path is resolved the way the kernel does, through symbolic links, at most forty of them.

  Every call takes one tick of the world, and the world may make any call fail (\<open>w_fault\<close>): the
  failure \<open>EIO\<close> stands for every reason that the tree does not show (device, space, permission). A
  failing write leaves a part of the data behind. Every tree the world went through is kept in
  \<open>w_past\<close>, newest first: these are the states that a concurrent reader, or a restart after the
  process is killed, can see. Data that the system loses in a crash of the machine because it was not
  synced is not modelled; \<open>Sync\<close> only may fail.
\<close>

section \<open>The tree\<close>

type_synonym perm = "32 word"
type_synonym path = "string list"

datatype node =
  File bytes perm
| Symlink string
| Directory perm int "(string \<times> node) list"

text \<open>Of \<open>fs.FileInfo\<close>. A symbolic link has mode 0777 on Linux.\<close>

fun is_dir :: "node \<Rightarrow> bool" where
  "is_dir (File b m) = False"
| "is_dir (Symlink t) = False"
| "is_dir (Directory m s es) = True"

fun is_symlink :: "node \<Rightarrow> bool" where
  "is_symlink (File b m) = False"
| "is_symlink (Symlink t) = True"
| "is_symlink (Directory m s es) = False"

fun is_regular :: "node \<Rightarrow> bool" where
  "is_regular (File b m) = True"
| "is_regular (Symlink t) = False"
| "is_regular (Directory m s es) = False"

fun node_perm :: "node \<Rightarrow> perm" where
  "node_perm (File b m) = m"
| "node_perm (Symlink t) = 511"
| "node_perm (Directory m s es) = m"

fun mod_time :: "node \<Rightarrow> int" where
  "mod_time (File b m) = 0"
| "mod_time (Symlink t) = 0"
| "mod_time (Directory m s es) = s"

fun lookup :: "path \<Rightarrow> node \<Rightarrow> node option" where
  "lookup [] n = Some n"
| "lookup (c # cs) (File b m) = None"
| "lookup (c # cs) (Symlink t) = None"
| "lookup (c # cs) (Directory m s es) =
     (case map_of es c of None \<Rightarrow> None | Some n \<Rightarrow> lookup cs n)"

text \<open>Changing the node at a path, when there is one.\<close>

fun change_entry :: "string \<Rightarrow> (node \<Rightarrow> node) \<Rightarrow> (string \<times> node) list \<Rightarrow> (string \<times> node) list" where
  "change_entry c f [] = []"
| "change_entry c f ((k, n) # es) = (if k = c then (k, f n) # es else (k, n) # change_entry c f es)"

fun amend :: "(node \<Rightarrow> node) \<Rightarrow> path \<Rightarrow> node \<Rightarrow> node" where
  "amend f [] n = f n"
| "amend f (c # cs) (File b m) = File b m"
| "amend f (c # cs) (Symlink t) = Symlink t"
| "amend f (c # cs) (Directory m s es) = Directory m s (change_entry c (amend f cs) es)"

text \<open>Setting or removing one entry of a directory, which moves its modification time.\<close>

fun set_entry :: "string \<Rightarrow> node option \<Rightarrow> int \<Rightarrow> node \<Rightarrow> node" where
  "set_entry c new now (File b m) = File b m"
| "set_entry c new now (Symlink t) = Symlink t"
| "set_entry c new now (Directory m s es) =
     Directory m now ((case new of None \<Rightarrow> [] | Some n \<Rightarrow> [(c, n)]) @ filter (\<lambda>e. fst e \<noteq> c) es)"

section \<open>Resolving a path\<close>

datatype errno = ENOENT | EEXIST | ENOTDIR | EISDIR | ELOOP | EINVAL | ENOTEMPTY | EWOULDBLOCK | EIO

text \<open>The components of a path in the kernel's reading: empty ones and dots are skipped.\<close>

definition path_steps :: "string \<Rightarrow> path" where
  "path_steps p = filter (\<lambda>w. w \<noteq> [] \<and> w \<noteq> ''.'') (Split slash p)"

text \<open>
  From the directory \<open>cur\<close>, whose path holds no link: the link-free path of the remaining steps. The
  last component may be absent; whether a link there is followed is the last argument.
\<close>

function resolve :: "nat \<Rightarrow> node \<Rightarrow> path \<Rightarrow> path \<Rightarrow> bool \<Rightarrow> (errno, path) result" where
  "resolve links t cur [] follow = Inr cur"
| "resolve links t cur (c # rest) follow =
     (if c = ''..'' then resolve links t (butlast cur) rest follow
      else case lookup (cur @ [c]) t of
        None \<Rightarrow> if rest = [] then Inr (cur @ [c]) else Inl ENOENT
      | Some (File b m) \<Rightarrow> if rest = [] then Inr (cur @ [c]) else Inl ENOTDIR
      | Some (Directory m s es) \<Rightarrow> resolve links t (cur @ [c]) rest follow
      | Some (Symlink target) \<Rightarrow>
          if rest = [] \<and> \<not> follow then Inr (cur @ [c])
          else if links = 0 then Inl ELOOP
          else resolve (links - 1) t (if IsAbs target then [] else cur) (path_steps target @ rest) follow)"
  by pat_completeness auto
termination
  by (relation "measures [\<lambda>(links, t, cur, rest, follow). links, \<lambda>(links, t, cur, rest, follow). length rest]")
    auto

definition MaxLinks :: nat where "MaxLinks = 40"

definition resolve_path :: "node \<Rightarrow> path \<Rightarrow> bool \<Rightarrow> (errno, path) result" where
  "resolve_path t ws follow = resolve MaxLinks t [] ws follow"

definition node_at :: "node \<Rightarrow> path \<Rightarrow> bool \<Rightarrow> (errno, node) result" where
  "node_at t ws follow =
     and_then (resolve_path t ws follow) id (\<lambda>p.
       case lookup p t of None \<Rightarrow> Inl ENOENT | Some n \<Rightarrow> Inr n)"

section \<open>The world\<close>

record world =
  w_tree :: node
  w_past :: "node list"
  w_umask :: perm
  w_tick :: nat
  w_fault :: "nat \<Rightarrow> nat option"
  w_clock :: "nat \<Rightarrow> int"
  w_random :: "nat \<Rightarrow> nat"
  w_locks :: "path list"

abbreviation tick :: "world \<Rightarrow> world" where
  "tick w \<equiv> w\<lparr>w_tick := Suc (w_tick w)\<rparr>"

definition now_of :: "world \<Rightarrow> int" where "now_of w = w_clock w (w_tick w)"

definition masked :: "world \<Rightarrow> perm \<Rightarrow> perm" where "masked w mode = mode AND NOT (w_umask w)"

text \<open>A call that reads the tree, and one that replaces it.\<close>

definition reading :: "(node \<Rightarrow> (errno, 'a) result) \<Rightarrow> (world, errno, 'a) io" where
  "reading f w =
     (case w_fault w (w_tick w) of Some k \<Rightarrow> (Inl EIO, tick w) | None \<Rightarrow> (f (w_tree w), tick w))"

definition store :: "node \<Rightarrow> world \<Rightarrow> world" where
  "store t w = w\<lparr>w_tree := t, w_past := w_tree w # w_past w\<rparr>"

definition writing :: "(world \<Rightarrow> (errno, 'a \<times> node) result) \<Rightarrow> (world, errno, 'a) io" where
  "writing f w =
     (case w_fault w (w_tick w) of
        Some k \<Rightarrow> (Inl EIO, tick w)
      | None \<Rightarrow> (case f w of Inl e \<Rightarrow> (Inl e, tick w) | Inr (x, t) \<Rightarrow> (Inr x, tick (store t w))))"

text \<open>Giving the directory at \<open>butlast p\<close> a new entry, or none, under the last component of \<open>p\<close>.\<close>

definition set_at :: "path \<Rightarrow> node option \<Rightarrow> int \<Rightarrow> node \<Rightarrow> node" where
  "set_at p new now t = (if p = [] then t else amend (set_entry (last p) new now) (butlast p) t)"

section \<open>Calls that read\<close>

definition Lstat :: "path \<Rightarrow> (world, errno, node) io" where
  "Lstat ws = reading (\<lambda>t. node_at t ws False)"

definition Stat :: "path \<Rightarrow> (world, errno, node) io" where
  "Stat ws = reading (\<lambda>t. node_at t ws True)"

definition Readlink :: "path \<Rightarrow> (world, errno, string) io" where
  "Readlink ws = reading (\<lambda>t. and_then (node_at t ws False) id (\<lambda>n.
     case n of Symlink target \<Rightarrow> Inr target | File b m \<Rightarrow> Inl EINVAL | Directory m s es \<Rightarrow> Inl EINVAL))"

definition ReadFile :: "path \<Rightarrow> (world, errno, bytes) io" where
  "ReadFile ws = reading (\<lambda>t. and_then (node_at t ws True) id (\<lambda>n.
     case n of File b m \<Rightarrow> Inr b | Symlink target \<Rightarrow> Inl ELOOP | Directory m s es \<Rightarrow> Inl EISDIR))"

text \<open>The entries of a directory in the order of their names.\<close>

fun entries :: "node \<Rightarrow> (string \<times> node) list" where
  "entries (File b m) = []"
| "entries (Symlink t) = []"
| "entries (Directory m s es) = map (\<lambda>k. (k, the (map_of es k))) (sorted_keys es)"

definition ReadDir :: "path \<Rightarrow> (world, errno, (string \<times> node) list) io" where
  "ReadDir ws = reading (\<lambda>t. and_then (node_at t ws True) id (\<lambda>n.
     if is_dir n then Inr (entries n) else Inl ENOTDIR))"

text \<open>
  \<open>filepath.WalkDir\<close> visits a tree in lexical order, each directory before its entries. Its visits only
  read, so the model visits the list of relative paths and nodes.
\<close>

lemma entries_smaller:
  assumes "e \<in> set (entries n)"
  shows "size (snd e) < size n"
proof (cases n)
  case (Directory m s es)
  have small: "v \<in> snd ` set es \<Longrightarrow> size v < size n" for v
    unfolding Directory
  proof (induction es)
    case (Cons e es)
    then consider "v = snd e" | "v \<in> snd ` set es" by auto
    then show ?case
    proof cases
      case 1
      then show ?thesis by (cases e) simp
    next
      case 2
      then show ?thesis using Cons.IH by (cases e) simp
    qed
  qed simp
  obtain k where k: "k \<in> fst ` set es" "e = (k, the (map_of es k))"
    using assms unfolding Directory by (auto simp: sorted_keys_def)
  then obtain v where "map_of es k = Some v" by (metis domD dom_map_of_conv_image_fst)
  then show ?thesis using small k(2) by (force dest: map_of_SomeD)
qed (use assms in auto)

function walk_nodes :: "path \<Rightarrow> node \<Rightarrow> (path \<times> node) list" where
  "walk_nodes here n =
     (here, n) # concat (map (\<lambda>e. walk_nodes (here @ [fst e]) (snd e)) (entries n))"
  by pat_completeness auto
termination
  by (relation "measure (\<lambda>(here, n). size n)") (auto dest: entries_smaller)

declare walk_nodes.simps [simp del]

text \<open>An equation that evaluation unfolds only after the entries are known.\<close>

lemma walk_nodes_code [code]:
  "walk_nodes here n = (here, n) # (case entries n of [] \<Rightarrow> []
     | e # es \<Rightarrow> concat (map (\<lambda>e. walk_nodes (here @ [fst e]) (snd e)) (e # es)))"
  by (subst walk_nodes.simps) (simp split: list.split)

definition WalkDir :: "path \<Rightarrow> (world, errno, (path \<times> node) list) io" where
  "WalkDir ws = reading (\<lambda>t. and_then (node_at t ws False) id (\<lambda>n. Inr (walk_nodes [] n)))"

section \<open>Calls that write\<close>

text \<open>A new entry at a free path; the link-free path is the handle of a file opened there.\<close>

definition create_node :: "path \<Rightarrow> (world \<Rightarrow> node) \<Rightarrow> (world, errno, path) io" where
  "create_node ws new = writing (\<lambda>w.
     and_then (resolve_path (w_tree w) ws False) id (\<lambda>p.
     if lookup p (w_tree w) \<noteq> None then Inl EEXIST
     else Inr (p, set_at p (Some (new w)) (now_of w) (w_tree w))))"

definition Mkdir :: "path \<Rightarrow> perm \<Rightarrow> (world, errno, path) io" where
  "Mkdir ws mode = create_node ws (\<lambda>w. Directory (masked w mode) (now_of w) [])"

text \<open>\<open>os.MkdirAll\<close>: the path in reverse, because Go makes the parent first.\<close>

fun mkdir_parents :: "perm \<Rightarrow> path \<Rightarrow> (world, errno, unit) io" where
  "mkdir_parents mode [] = done_with (Inr ())"
| "mkdir_parents mode (c # parent) =
     attempt (Stat (rev (c # parent))) (\<lambda>r. case r of
       Inr n \<Rightarrow> done_with (if is_dir n then Inr () else Inl ENOTDIR)
     | Inl e \<Rightarrow>
         call (mkdir_parents mode parent) id (\<lambda>_.
         attempt (Mkdir (rev (c # parent)) mode) (\<lambda>made. case made of
           Inr _ \<Rightarrow> done_with (Inr ())
         | Inl e' \<Rightarrow>
             attempt (Lstat (rev (c # parent))) (\<lambda>found. case found of
               Inl _ \<Rightarrow> done_with (Inl e')
             | Inr n \<Rightarrow> done_with (if is_dir n then Inr () else Inl e')))))"

definition MkdirAll :: "path \<Rightarrow> perm \<Rightarrow> (world, errno, unit) io" where
  "MkdirAll ws mode = mkdir_parents mode (rev ws)"

text \<open>
  \<open>os.MkdirTemp\<close> tries names with a random number until one is free, at most ten thousand. The world
  supplies the number at each tick.
\<close>

fun mkdir_temp :: "nat \<Rightarrow> string \<Rightarrow> (world, errno, string) io" where
  "mkdir_temp 0 stem w = (Inl EEXIST, w)"
| "mkdir_temp (Suc tries) stem w =
     (let name = stem @ format_nat 10 (w_random w (w_tick w)) in
      attempt (Mkdir (path_steps name) 448) (\<lambda>r. case r of
        Inr _ \<Rightarrow> done_with (Inr name)
      | Inl e \<Rightarrow> if e = EEXIST then mkdir_temp tries stem else done_with (Inl e)) w)"

definition MkdirTemp :: "string \<Rightarrow> string \<Rightarrow> (world, errno, string) io" where
  "MkdirTemp dir stem =
     mkdir_temp 10000 (dir @ (if dir \<noteq> [] \<and> last dir = slash then [] else ''/'') @ stem)"

definition Chmod :: "path \<Rightarrow> perm \<Rightarrow> (world, errno, unit) io" where
  "Chmod ws mode = writing (\<lambda>w.
     and_then (resolve_path (w_tree w) ws True) id (\<lambda>p.
     case lookup p (w_tree w) of
       None \<Rightarrow> Inl ENOENT
     | Some n \<Rightarrow> Inr ((), amend (\<lambda>n. case n of File b m \<Rightarrow> File b mode | Symlink t \<Rightarrow> Symlink t
                           | Directory m s es \<Rightarrow> Directory mode s es) p (w_tree w))))"

text \<open>
  \<open>os.OpenFile\<close> with \<open>O_CREATE|O_EXCL\<close>. The program never renames a file that it holds open.
\<close>

definition OpenNew :: "path \<Rightarrow> perm \<Rightarrow> (world, errno, path) io" where
  "OpenNew ws mode = create_node ws (\<lambda>w. File [] (masked w mode))"

text \<open>
  \<open>os.CreateTemp\<close> for a clean directory other than the root and a name without a slash: the handle and
  the name.
\<close>

fun create_temp :: "nat \<Rightarrow> string \<Rightarrow> (world, errno, path \<times> string) io" where
  "create_temp 0 stem w = (Inl EEXIST, w)"
| "create_temp (Suc tries) stem w =
     (let name = stem @ format_nat 10 (w_random w (w_tick w)) in
      attempt (OpenNew (path_steps name) 384) (\<lambda>r. case r of
        Inr p \<Rightarrow> done_with (Inr (p, name))
      | Inl e \<Rightarrow> if e = EEXIST then create_temp tries stem else done_with (Inl e)) w)"

definition CreateTemp :: "string \<Rightarrow> string \<Rightarrow> (world, errno, path \<times> string) io" where
  "CreateTemp dir stem =
     create_temp 10000 (dir @ (if dir \<noteq> [] \<and> last dir = slash then [] else ''/'') @ stem)"

definition File_Chmod :: "path \<Rightarrow> perm \<Rightarrow> (world, errno, unit) io" where
  "File_Chmod p mode = writing (\<lambda>w. Inr ((), amend (\<lambda>n. case n of File b m \<Rightarrow> File b mode | Symlink t \<Rightarrow> Symlink t
     | Directory m s es \<Rightarrow> Directory mode s es) p (w_tree w)))"

definition append_data :: "bytes \<Rightarrow> node \<Rightarrow> node" where
  "append_data data n =
     (case n of File b m \<Rightarrow> File (b @ data) m | Symlink t \<Rightarrow> Symlink t | Directory m s es \<Rightarrow> Directory m s es)"

text \<open>\<open>file.Write\<close> at the end of the file: a failing one has written a prefix of the data.\<close>

definition File_Write :: "path \<Rightarrow> bytes \<Rightarrow> (world, errno, unit) io" where
  "File_Write p data w =
     (case w_fault w (w_tick w) of
        Some k \<Rightarrow> (Inl EIO, tick (store (amend (append_data (take k data)) p (w_tree w)) w))
      | None \<Rightarrow> (Inr (), tick (store (amend (append_data data) p (w_tree w)) w)))"

definition File_Sync :: "path \<Rightarrow> (world, errno, unit) io" where
  "File_Sync p = reading (\<lambda>_. Inr ())"

definition File_Close :: "path \<Rightarrow> (world, errno, unit) io" where
  "File_Close p = reading (\<lambda>_. Inr ())"

text \<open>\<open>os.Open\<close> of a directory, as the sync of a directory does.\<close>

definition OpenDir :: "path \<Rightarrow> (world, errno, path) io" where
  "OpenDir ws = reading (\<lambda>t.
     and_then (resolve_path t ws True) id (\<lambda>p. if lookup p t = None then Inl ENOENT else Inr p))"

text \<open>
  \<open>os.Rename\<close>: Go refuses an existing directory as the new name; the kernel replaces a file or link
  by a file or link, and moves a directory only to a free name outside itself.
\<close>

definition Rename :: "path \<Rightarrow> path \<Rightarrow> (world, errno, unit) io" where
  "Rename old new = writing (\<lambda>w.
     let t = w_tree w in
     and_then (resolve_path t old False) id (\<lambda>p.
     and_then (resolve_path t new False) id (\<lambda>q.
     case lookup p t of
       None \<Rightarrow> Inl ENOENT
     | Some n \<Rightarrow>
         (let moved = set_at q (Some n) (now_of w) (set_at p None (now_of w) t) in
          case lookup q t of
            None \<Rightarrow> if strict_prefix p q then Inl EINVAL else Inr ((), moved)
          | Some m \<Rightarrow>
              if is_dir m then Inl EEXIST
              else if strict_prefix p q then Inl EINVAL
              else if is_dir n then Inl ENOTDIR
              else if p = q then Inr ((), t)
              else Inr ((), moved)))))"

definition Symlink_call :: "string \<Rightarrow> path \<Rightarrow> (world, errno, path) io" where
  "Symlink_call target ws = create_node ws (\<lambda>w. Symlink target)"

text \<open>\<open>os.Remove\<close>: a file, a link or an empty directory.\<close>

definition Remove :: "path \<Rightarrow> (world, errno, unit) io" where
  "Remove ws = writing (\<lambda>w.
     and_then (resolve_path (w_tree w) ws False) id (\<lambda>p.
     case lookup p (w_tree w) of
       None \<Rightarrow> Inl ENOENT
     | Some n \<Rightarrow>
         if entries n \<noteq> [] then Inl ENOTEMPTY
         else Inr ((), set_at p None (now_of w) (w_tree w))))"

text \<open>
  \<open>os.RemoveAll\<close> removes the entries of a directory before the directory, goes on after a failure and
  reports one of the failures. Nothing to remove is no failure. Below its path it works with directory
  handles and follows no link.
\<close>

definition Unlink :: "path \<Rightarrow> (world, errno, unit) io" where
  "Unlink p = writing (\<lambda>w.
     case lookup p (w_tree w) of
       None \<Rightarrow> Inl ENOENT
     | Some n \<Rightarrow>
         if entries n \<noteq> [] then Inl ENOTEMPTY
         else Inr ((), set_at p None (now_of w) (w_tree w)))"

fun remove_each :: "path list \<Rightarrow> (errno, unit) result \<Rightarrow> (world, errno, unit) io" where
  "remove_each [] r = done_with r"
| "remove_each (p # ps) r =
     attempt (Unlink p) (\<lambda>q. remove_each ps (case q of Inr _ \<Rightarrow> r | Inl e \<Rightarrow> if e = ENOENT then r else Inl e))"

definition RemoveAll :: "path \<Rightarrow> (world, errno, unit) io" where
  "RemoveAll ws =
     attempt (reading (\<lambda>t. and_then (resolve_path t ws False) id (\<lambda>p.
         case lookup p t of None \<Rightarrow> Inl ENOENT | Some n \<Rightarrow> Inr (p, n)))) (\<lambda>r. case r of
       Inl e \<Rightarrow> done_with (if e = ENOENT then Inr () else Inl e)
     | Inr (p, n) \<Rightarrow> remove_each (map (\<lambda>e. p @ fst e) (rev (walk_nodes [] n))) (Inr ()))"

end
