(* ===== verification/Path_Facts.thy ===== *)
theory Path_Facts
  imports Go_Os
begin

text \<open>The paths that the code builds from strings, as the components that the kernel walks.\<close>

lemma Split_append: "Split sep (a @ sep # b) = Split sep a @ Split sep b"
proof (induction a)
  case (Cons c a)
  then show ?case by (cases "Split sep a") auto
qed simp

lemma path_steps_append: "path_steps (a @ slash # b) = path_steps a @ path_steps b"
  by (simp add: path_steps_def Split_append)

lemma path_steps_Nil [simp]: "path_steps [] = []"
  by (simp add: path_steps_def)

lemma path_steps_component: "plain_component w \<Longrightarrow> path_steps w = [w]"
  by (simp add: path_steps_def plain_component_def Split_single)

lemma path_steps_Join: "path_steps (Join es ''/'') = concat (map path_steps es)"
  by (induction es rule: induct_list012) (simp_all add: path_steps_append)

lemma path_steps_slash: "path_steps (slash # s) = path_steps s"
  using path_steps_append [of "[]" s] by simp

lemma concat_steps: "\<forall>w \<in> set ws. plain_component w \<Longrightarrow> concat (map path_steps ws) = ws"
  by (induction ws) (simp_all add: path_steps_component)

lemma path_steps_abs_path: "\<forall>w \<in> set ws. plain_component w \<Longrightarrow> path_steps (abs_path ws) = ws"
  by (simp add: abs_path_def path_steps_slash path_steps_Join concat_steps)

lemma path_steps_plain: "''..'' \<notin> set (path_steps p) \<Longrightarrow> w \<in> set (path_steps p) \<Longrightarrow> plain_component w"
  by (auto simp: path_steps_def plain_component_def dest: Split_no_sep)

lemma clean_components_steps:
  assumes "''..'' \<notin> set us"
  shows "clean_components rooted acc us = rev acc @ filter (\<lambda>w. w \<noteq> [] \<and> w \<noteq> ''.'') us"
  using assms by (induction us arbitrary: acc) auto

lemma Clean_steps:
  assumes "''..'' \<notin> set (path_steps p)"
  shows "Clean p = (if IsAbs p then abs_path (path_steps p)
    else if path_steps p = [] then ''.'' else Join (path_steps p) ''/'')"
proof -
  have "''..'' \<notin> set (Split slash p)" using assms by (auto simp: path_steps_def)
  then have "clean_components (IsAbs p) [] (Split slash p) = path_steps p"
    by (simp add: clean_components_steps path_steps_def)
  moreover have "Join (path_steps p) ''/'' = [] \<longleftrightarrow> path_steps p = []"
  proof -
    have "[] \<notin> set (path_steps p)" by (simp add: path_steps_def)
    then show ?thesis by (cases "path_steps p") (auto simp: Join_Cons)
  qed
  ultimately show ?thesis by (simp add: Clean_def abs_path_def Let_def)
qed

lemma IsAbs_Join: "es \<noteq> [] \<Longrightarrow> hd es \<noteq> [] \<Longrightarrow> IsAbs (Join es ''/'') = IsAbs (hd es)"
proof (cases es)
  case (Cons e rest)
  assume "hd es \<noteq> []"
  then obtain c cs where "e = c # cs" using Cons by (cases e) auto
  then show ?thesis using Cons by (cases rest) (simp_all add: IsAbs_def HasPrefix_iff)
qed simp

lemma steps_nonempty: "concat (map path_steps (filter (\<lambda>e. e \<noteq> []) es)) = concat (map path_steps es)"
  by (induction es) auto

lemma PathJoin_steps:
  assumes "IsAbs e" "''..'' \<notin> set (concat (map path_steps (e # es)))"
  shows "PathJoin (e # es) = abs_path (concat (map path_steps (e # es)))"
proof -
  have e: "e \<noteq> []" using assms(1) by (auto simp: IsAbs_def HasPrefix_iff)
  let ?es = "filter (\<lambda>e. e \<noteq> []) (e # es)"
  have steps: "path_steps (Join ?es ''/'') = concat (map path_steps (e # es))"
    by (simp only: path_steps_Join steps_nonempty)
  have "IsAbs (Join ?es ''/'')" using IsAbs_Join [of ?es] e assms(1) by simp
  moreover have "PathJoin (e # es) = Clean (Join ?es ''/'')" using e by (simp add: PathJoin_def)
  ultimately show ?thesis using Clean_steps [of "Join ?es ''/''"] assms(2) unfolding steps by simp
qed

text \<open>The last component cut off.\<close>

lemma dropWhile_last: "slash \<notin> set c \<Longrightarrow> rev (dropWhile (\<lambda>x. x \<noteq> slash) (rev (a @ slash # c))) = a @ ''/''"
proof -
  assume "slash \<notin> set c"
  then have "dropWhile (\<lambda>x. x \<noteq> slash) (rev c @ slash # rev a) = slash # rev a"
    by (subst dropWhile_append2) auto
  then show ?thesis by simp
qed

lemma Dir_abs_path:
  assumes "\<forall>w \<in> set ws. plain_component w" "plain_component c"
  shows "Dir (abs_path (ws @ [c])) = abs_path ws"
proof -
  have c: "slash \<notin> set c" "c \<noteq> []" using assms(2) by (simp_all add: plain_component_def)
  have "abs_path (ws @ [c]) = (if ws = [] then [] else abs_path ws) @ slash # c"
    by (simp add: abs_path_def Join_append)
  then have "Dir (abs_path (ws @ [c])) = Clean ((if ws = [] then [] else abs_path ws) @ ''/'')"
    unfolding Dir_def by (simp only: dropWhile_last [OF c(1)])
  moreover have "path_steps ((if ws = [] then [] else abs_path ws) @ ''/'') = ws"
    using path_steps_append [of "if ws = [] then [] else abs_path ws" "[]"] path_steps_abs_path [OF assms(1)] by simp
  moreover have "''..'' \<notin> set ws" using assms(1) by (auto simp: plain_component_def)
  moreover have "IsAbs ((if ws = [] then [] else abs_path ws) @ ''/'')"
    by (simp add: IsAbs_def abs_path_def HasPrefix_iff)
  ultimately show ?thesis using Clean_steps [of "(if ws = [] then [] else abs_path ws) @ ''/''"] by simp
qed

lemma Dir_Join:
  assumes "\<forall>w \<in> set ws. plain_component w" "plain_component c"
  shows "Dir (Join (ws @ [c]) ''/'') = (if ws = [] then ''.'' else Join ws ''/'')"
proof (cases "ws = []")
  case True
  have "dropWhile (\<lambda>x. x \<noteq> slash) (rev c) = []"
    using assms(2) by (auto simp: plain_component_def)
  then have "Dir c = Clean []" by (simp only: Dir_def rev.simps)
  moreover have "Clean [] = ''.''" by code_simp
  ultimately show ?thesis using True by simp
next
  case False
  have c: "slash \<notin> set c" using assms(2) by (simp add: plain_component_def)
  have "Join (ws @ [c]) ''/'' = Join ws ''/'' @ slash # c" using False by (simp add: Join_append)
  then have "Dir (Join (ws @ [c]) ''/'') = Clean (Join ws ''/'' @ ''/'')"
    unfolding Dir_def by (simp only: dropWhile_last [OF c])
  moreover have "path_steps (Join ws ''/'' @ ''/'') = ws"
    using path_steps_append [of "Join ws ''/''" "[]"] assms(1) by (simp add: path_steps_Join concat_steps)
  moreover have "''..'' \<notin> set ws" using assms(1) by (auto simp: plain_component_def)
  moreover have "\<not> IsAbs (Join ws ''/'' @ ''/'')"
  proof -
    obtain w ws' where w: "ws = w # ws'" using False by (cases ws) auto
    then obtain x xs where "w = x # xs" "x \<noteq> slash" using assms(1) by (cases w) (auto simp: plain_component_def)
    then show ?thesis using w by (cases ws') (auto simp: IsAbs_def HasPrefix_iff)
  qed
  ultimately show ?thesis using Clean_steps [of "Join ws ''/'' @ ''/''"] False by simp
qed

text \<open>A clean relative path that does not leave its directory has plain components only.\<close>

lemma clean_components_front:
  assumes "\<forall>w \<in> set us. slash \<notin> set w" "acc = as @ replicate k ''..''" "\<forall>w \<in> set as. plain_component w"
  shows "\<exists>j bs. clean_components False acc us = replicate j ''..'' @ bs \<and> (\<forall>w \<in> set bs. plain_component w)"
  using assms
proof (induction us arbitrary: acc as k)
  case Nil
  have "clean_components False acc [] = replicate k ''..'' @ rev as" using Nil(2) by simp
  moreover have "\<forall>w \<in> set (rev as). plain_component w" using Nil(3) by simp
  ultimately show ?case by blast
next
  case (Cons w us)
  have us: "\<forall>w \<in> set us. slash \<notin> set w" using Cons.prems(1) by simp
  show ?case
  proof (cases "w = [] \<or> w = ''.''")
    case True
    then show ?thesis using Cons.IH [OF us Cons.prems(2,3)] by simp
  next
    case no: False
    show ?thesis
    proof (cases "w = ''..''")
      case False
      then have "plain_component w" using no Cons.prems(1) by (simp add: plain_component_def)
      then show ?thesis using no False Cons.IH [OF us, of "w # acc" "w # as" k] Cons.prems(2,3) by simp
    next
      case up: True
      show ?thesis
      proof (cases as)
        case Nil
        then have "clean_components False acc (w # us) = clean_components False (replicate (Suc k) ''..'') us"
          using up Cons.prems(2) by (cases k) simp_all
        then show ?thesis using Cons.IH [OF us, of "replicate (Suc k) ''..''" "[]" "Suc k"] by simp
      next
        case (Cons a as')
        then have "a \<noteq> ''..''" using Cons.prems(3) by (simp add: plain_component_def)
        then show ?thesis using up Cons Cons.IH [OF us, of "as' @ replicate k ''..''" as' k] Cons.prems(2,3)
          by simp
      qed
    qed
  qed
qed

end
