(* ===== verification/Os_Facts.thy ===== *)
theory Os_Facts
  imports Path_Facts
begin

text \<open>What the calls of the file system do to the map that a tree represents.\<close>

section \<open>Looking up after a change\<close>

lemma lookup_cons: "lookup (c # cs) n =
    (case n of Directory m s es \<Rightarrow> (case map_of es c of None \<Rightarrow> None | Some k \<Rightarrow> lookup cs k) | _ \<Rightarrow> None)"
  by (cases n) simp_all

lemma lookup_append: "lookup (p @ q) n = (case lookup p n of None \<Rightarrow> None | Some k \<Rightarrow> lookup q k)"
  by (induction p n rule: lookup.induct) (auto split: option.split)

lemma map_of_change_entry:
  "map_of (change_entry c f es) k = (if k = c then map_option f (map_of es c) else map_of es k)"
proof (induction es)
  case (Cons e es)
  then show ?case by (cases e) auto
qed simp

lemma map_of_set_entry:
  "map_of ((case new of None \<Rightarrow> [] | Some n \<Rightarrow> [(c, n)]) @ filter (\<lambda>e. fst e \<noteq> c) es) k =
     (if k = c then new else map_of es k)"
proof -
  have "map_of (filter (\<lambda>e. fst e \<noteq> c) es) k = (if k = c then None else map_of es k)"
    by (induction es) auto
  then show ?thesis by (cases new) auto
qed

lemma lookup_amend: "lookup p (amend f p n) = map_option f (lookup p n)"
  by (induction f p n rule: amend.induct) (auto simp: map_of_change_entry split: option.split)

lemma lookup_amend_below:
  "lookup (p @ q) (amend f p n) = (case lookup p n of None \<Rightarrow> None | Some k \<Rightarrow> lookup q (f k))"
  by (simp add: lookup_append lookup_amend split: option.split)

lemma lookup_amend_above: "lookup q (amend f (q @ r) n) = map_option (amend f r) (lookup q n)"
  by (induction q n rule: lookup.induct) (auto simp: map_of_change_entry split: option.split)

lemma lookup_amend_other:
  "\<not> prefix p q \<Longrightarrow> \<not> prefix q p \<Longrightarrow> lookup q (amend f p n) = lookup q n"
proof (induction f p n arbitrary: q rule: amend.induct)
  case (4 f c cs m s es)
  then show ?case by (cases q) (auto simp: map_of_change_entry split: option.split)
qed (auto simp: lookup_cons split: node.split)

lemma lookup_set_entry_other: "k \<noteq> c \<Longrightarrow> lookup (k # r) (set_entry c new now n) = lookup (k # r) n"
  by (cases n) (simp_all add: map_of_set_entry del: map_of_append)

lemma lookup_set_entry:
  "is_dir n \<Longrightarrow> lookup (c # r) (set_entry c new now n) = (case new of None \<Rightarrow> None | Some m \<Rightarrow> lookup r m)"
  by (cases n) (simp_all add: map_of_set_entry del: map_of_append)

section \<open>The tree as a map\<close>

text \<open>
  What a tree holds at a path, without times and without the entries of a directory. All that the
  program can observe of a tree, except modification times, is this map.
\<close>

datatype entry = FileE bytes perm | LinkE string | DirE perm

fun entry_of :: "node \<Rightarrow> entry" where
  "entry_of (File b m) = FileE b m"
| "entry_of (Symlink t) = LinkE t"
| "entry_of (Directory m s es) = DirE m"

definition view :: "node \<Rightarrow> path \<Rightarrow> entry option" where
  "view n p = map_option entry_of (lookup p n)"

definition dir_at :: "path \<Rightarrow> node \<Rightarrow> bool" where
  "dir_at p t \<longleftrightarrow> (\<exists>m. view t p = Some (DirE m))"

lemma entry_of_eq:
  "entry_of n = FileE b m \<longleftrightarrow> n = File b m"
  "entry_of n = LinkE x \<longleftrightarrow> n = Symlink x"
  "entry_of n = DirE m \<longleftrightarrow> (\<exists>s es. n = Directory m s es)"
  by (cases n; auto)+

lemma is_dir_entry: "is_dir n \<longleftrightarrow> (\<exists>m. entry_of n = DirE m)"
  by (cases n) auto

lemma dir_at_iff: "dir_at p t \<longleftrightarrow> (\<exists>n. lookup p t = Some n \<and> is_dir n)"
  by (auto simp: dir_at_def view_def is_dir_entry)

lemma view_append: "view t (p @ q) = (case lookup p t of None \<Rightarrow> None | Some n \<Rightarrow> view n q)"
  by (simp add: view_def lookup_append split: option.split)

lemma view_above:
  assumes "view t (p @ q) = Some e" "q \<noteq> []"
  shows "dir_at p t"
proof -
  obtain n where n: "lookup p t = Some n" "view n q = Some e"
    using assms(1) by (auto simp: view_append split: option.splits)
  then have "is_dir n" using assms(2) by (cases n; cases q) (auto simp: view_def)
  then show ?thesis using n(1) by (auto simp: dir_at_iff)
qed

lemma dir_at_prefix: "dir_at p t \<Longrightarrow> prefix q p \<Longrightarrow> dir_at q t"
  by (metis append_Nil2 dir_at_def prefix_def view_above)

lemma entry_of_set_entry [simp]: "entry_of (set_entry c new now n) = entry_of n"
  by (cases n) simp_all

lemma entry_of_amend: "r \<noteq> [] \<Longrightarrow> entry_of (amend f r n) = entry_of n"
  by (cases n; cases r) simp_all

lemma view_amend_beside: "\<not> prefix p q \<Longrightarrow> view (amend f p t) q = view t q"
proof (cases "prefix q p")
  case True
  assume "\<not> prefix p q"
  then obtain r where "p = q @ r" "r \<noteq> []" using True by (auto simp: prefix_def)
  then show ?thesis by (cases "lookup q t") (simp_all add: view_def lookup_amend_above entry_of_amend)
qed (simp add: view_def lookup_amend_other)

lemma view_amend: "view (amend f p t) p = map_option (\<lambda>n. entry_of (f n)) (lookup p t)"
  by (simp add: view_def lookup_amend option.map_comp comp_def)

lemma view_set_at_beside: "\<not> prefix p q \<Longrightarrow> view (set_at p new now t) q = view t q"
proof (cases "p = []")
  case False
  assume q: "\<not> prefix p q"
  define d c where "d = butlast p" "c = last p"
  then have p: "p = d @ [c]" using False by simp
  have set: "set_at p new now t = amend (set_entry c new now) d t" by (simp add: set_at_def p)
  show ?thesis
  proof (cases "prefix d q")
    case True
    then obtain s where s: "q = d @ s" by (auto simp: prefix_def)
    show ?thesis
    proof (cases s)
      case Nil
      then show ?thesis unfolding set s
        by (simp add: view_amend) (simp add: view_def option.map_comp comp_def)
    next
      case (Cons k r)
      then have "k \<noteq> c" using q p s by auto
      then have other: "lookup (k # r) (set_entry c new now n) = lookup (k # r) n" for n
        by (rule lookup_set_entry_other)
      have "lookup (d @ k # r) (amend (set_entry c new now) d t) = lookup (d @ k # r) t"
        by (simp only: lookup_amend_below other) (simp only: lookup_append)
      then show ?thesis unfolding set s Cons view_def by simp
    qed
  next
    case False
    then show ?thesis unfolding set by (rule view_amend_beside)
  qed
qed (simp add: set_at_def)

lemma view_set_at:
  assumes "p \<noteq> []" and "dir_at (butlast p) t"
  shows "view (set_at p new now t) (p @ r) = (case new of None \<Rightarrow> None | Some m \<Rightarrow> view m r)"
proof -
  define d c where "d = butlast p" "c = last p"
  then have p: "p = d @ [c]" using assms by simp
  obtain n where n: "lookup d t = Some n" "is_dir n" using assms(2) p by (auto simp: dir_at_iff)
  have "lookup (d @ c # r) (amend (set_entry c new now) d t) = lookup (c # r) (set_entry c new now n)"
    using n(1) by (simp only: lookup_amend_below option.case)
  then show ?thesis using p lookup_set_entry [OF n(2)] by (simp add: set_at_def view_def split: option.split)
qed

text \<open>Two trees agree outside a path.\<close>

definition frame :: "path \<Rightarrow> node \<Rightarrow> node \<Rightarrow> bool" where
  "frame p t t' \<longleftrightarrow> (\<forall>q. \<not> prefix p q \<longrightarrow> view t' q = view t q)"

lemma frame_refl [simp]: "frame p t t"
  and frame_amend [simp]: "frame p t (amend f p t)"
  and frame_set_at [simp]: "frame p t (set_at p new now t)"
  by (simp_all add: frame_def view_amend_beside view_set_at_beside)

lemma frame_trans: "frame p t t' \<Longrightarrow> frame p t' t'' \<Longrightarrow> frame p t t''"
  by (simp add: frame_def)

lemma frame_mono: "frame p t t' \<Longrightarrow> prefix q p \<Longrightarrow> frame q t t'"
  by (auto simp: frame_def)

lemma frameD: "frame p t t' \<Longrightarrow> \<not> prefix p q \<Longrightarrow> view t' q = view t q"
  by (simp add: frame_def)

section \<open>Resolving without links\<close>

lemma view_Symlink: "lookup p t = Some (Symlink x) \<longleftrightarrow> view t p = Some (LinkE x)"
  and view_Directory: "(\<exists>s es. lookup p t = Some (Directory m s es)) \<longleftrightarrow> view t p = Some (DirE m)"
  and view_File: "lookup p t = Some (File b m) \<longleftrightarrow> view t p = Some (FileE b m)"
  and view_None: "lookup p t = None \<longleftrightarrow> view t p = None"
  by (auto simp: view_def entry_of_eq)

lemma resolve_step:
  "resolve links t cur (c # rest) follow =
     (if c = ''..'' then resolve links t (butlast cur) rest follow
      else case view t (cur @ [c]) of
        None \<Rightarrow> if rest = [] then Inr (cur @ [c]) else Inl ENOENT
      | Some (FileE b m) \<Rightarrow> if rest = [] then Inr (cur @ [c]) else Inl ENOTDIR
      | Some (DirE m) \<Rightarrow> resolve links t (cur @ [c]) rest follow
      | Some (LinkE target) \<Rightarrow>
          if rest = [] \<and> \<not> follow then Inr (cur @ [c])
          else if links = 0 then Inl ELOOP
          else resolve (links - 1) t (if IsAbs target then [] else cur) (path_steps target @ rest) follow)"
  by (auto simp: view_def split: option.split node.split)

lemma resolve_dirs:
  assumes "dir_at (cur @ p) t" and "''..'' \<notin> set p"
  shows "resolve links t cur (p @ rest) follow = resolve links t (cur @ p) rest follow"
  using assms
proof (induction p arbitrary: cur)
  case (Cons c p)
  have "dir_at (cur @ [c]) t" using dir_at_prefix [OF Cons.prems(1)] by simp
  then obtain m where "view t (cur @ [c]) = Some (DirE m)" by (auto simp: dir_at_def)
  then show ?case using Cons.prems Cons.IH [of "cur @ [c]"] by (auto simp: resolve_step simp del: resolve.simps)
qed simp

lemma resolve_dir: "dir_at p t \<Longrightarrow> ''..'' \<notin> set p \<Longrightarrow> resolve_path t p follow = Inr p"
  using resolve_dirs [of "[]" p t _ "[]" follow] by (simp add: resolve_path_def)

lemma resolve_entry:
  assumes "dir_at p t" and "''..'' \<notin> set p" and "c \<noteq> ''..''"
  shows "resolve_path t (p @ [c]) False = Inr (p @ [c])"
  using resolve_dirs [of "[]" p t _ "[c]" False] assms
  by (simp add: resolve_path_def resolve_step split: option.split entry.split del: resolve.simps(2))

text \<open>Inside a directory without links every path stays inside.\<close>

definition linkless :: "path \<Rightarrow> node \<Rightarrow> bool" where
  "linkless p t \<longleftrightarrow> dir_at p t \<and> (\<forall>q x. view t (p @ q) \<noteq> Some (LinkE x))"

lemma resolve_linkless:
  assumes "linkless p t" and "''..'' \<notin> set rest"
  shows "(\<exists>e. resolve links t (p @ q) rest follow = Inl e) \<or> resolve links t (p @ q) rest follow = Inr (p @ q @ rest)"
  using assms(2)
proof (induction rest arbitrary: q)
  case (Cons c rest)
  have "view t ((p @ q) @ [c]) \<noteq> Some (LinkE x)" for x
    using assms(1) by (simp add: linkless_def)
  then show ?case using Cons.IH [of "q @ [c]"] Cons.prems
    by (auto simp: resolve_step split: option.split entry.split simp del: resolve.simps(2))
qed simp

lemma resolve_path_linkless:
  assumes "linkless p t" and "''..'' \<notin> set p" and "''..'' \<notin> set rest"
  shows "(\<exists>e. resolve_path t (p @ rest) follow = Inl e) \<or> resolve_path t (p @ rest) follow = Inr (p @ rest)"
  using resolve_linkless [OF assms(1,3), of MaxLinks "[]" follow]
    resolve_dirs [of "[]" p t MaxLinks rest follow] assms(1,2)
  by (simp add: resolve_path_def linkless_def)

section \<open>What a resolved path is\<close>

lemma resolve_result:
  assumes "resolve links t cur rest follow = Inr p" and "dir_at cur t"
  shows "dir_at p t \<or> p \<noteq> [] \<and> dir_at (butlast p) t"
  using assms
proof (induction links t cur rest follow rule: resolve.induct)
  case (2 links t cur c rest follow)
  show ?case
  proof (cases "c = ''..''")
    case True
    have "dir_at (butlast cur) t" using dir_at_prefix [OF "2.prems"(2)] by (simp add: prefixeq_butlast)
    then show ?thesis using "2.IH" True "2.prems"(1) by simp
  next
    case False
    show ?thesis
    proof (cases "lookup (cur @ [c]) t")
      case None
      then show ?thesis using "2.prems" False by (auto split: if_splits)
    next
      case (Some n)
      show ?thesis
      proof (cases n)
        case (File b m)
        then show ?thesis using "2.prems" False Some by (auto split: if_splits)
      next
        case (Directory m s es)
        then have "dir_at (cur @ [c]) t" using Some by (simp add: dir_at_iff)
        then show ?thesis using "2.IH" "2.prems"(1) False Some Directory by simp
      next
        case (Symlink target)
        show ?thesis
        proof (cases "rest = [] \<and> \<not> follow")
          case True
          then show ?thesis using "2.prems" False Some Symlink by auto
        next
          case no: False
          have "links \<noteq> 0"
          proof
            assume "links = 0"
            then show False using "2.prems"(1) False Some Symlink no by auto
          qed
          have "dir_at (if IsAbs target then [] else cur) t" using "2.prems"(2) dir_at_prefix by auto
          then show ?thesis using "2.IH" "2.prems"(1) False Some Symlink no \<open>links \<noteq> 0\<close> by auto
        qed
      qed
    qed
  qed
qed simp

lemma resolve_path_parent:
  assumes "resolve_path t ws follow = Inr p" and "dir_at [] t" and "view t p = None"
  shows "p \<noteq> []" "dir_at (butlast p) t"
  using resolve_result [of MaxLinks t "[]" ws follow p] assms by (auto simp: resolve_path_def dir_at_def)

definition unlinked :: "path \<Rightarrow> node \<Rightarrow> bool" where
  "unlinked p t \<longleftrightarrow> (\<forall>q x. prefix q p \<longrightarrow> view t q \<noteq> Some (LinkE x))"

lemma unlinked_prefix: "unlinked p t \<Longrightarrow> prefix q p \<Longrightarrow> unlinked q t"
  by (auto simp: unlinked_def intro: prefix_order.trans)

lemma resolve_unlinked:
  assumes "unlinked (cur @ p) t" and "''..'' \<notin> set p"
  shows "(\<exists>e. resolve links t cur p follow = Inl e) \<or> resolve links t cur p follow = Inr (cur @ p)"
  using assms
proof (induction p arbitrary: cur)
  case (Cons c p)
  have "prefix (cur @ [c]) (cur @ c # p)" by simp
  then have "view t (cur @ [c]) \<noteq> Some (LinkE x)" for x using Cons.prems(1) unfolding unlinked_def by blast
  then show ?case using Cons.IH [of "cur @ [c]"] Cons.prems
    by (auto simp: resolve_step split: option.split entry.split simp del: resolve.simps(2))
qed simp

lemma resolve_path_unlinked:
  assumes "unlinked ws t" "''..'' \<notin> set ws" and "resolve_path t ws follow = Inr p"
  shows "p = ws"
  using resolve_unlinked [of "[]" ws t MaxLinks follow] assms by (auto simp: resolve_path_def)

text \<open>Not following, the last component may be a link.\<close>

lemma resolve_path_entry:
  assumes "dir_at d t" "''..'' \<notin> set d" "c \<noteq> ''..''" and "resolve_path t (d @ [c]) False = Inr p"
  shows "p = d @ [c]"
  using resolve_entry [OF assms(1-3)] assms(4) by simp

section \<open>Changes of the map\<close>

lemma view_Nil [simp]: "view n [] = Some (entry_of n)" by (simp add: view_def)

definition leaf :: "node \<Rightarrow> bool" where
  "leaf n \<longleftrightarrow> view n = [[] \<mapsto> entry_of n]"

lemma leafs [simp]: "leaf (File b m)" "leaf (Symlink x)" "leaf (Directory m s [])"
  by (auto simp: leaf_def view_def fun_eq_iff lookup_cons neq_Nil_conv)

lemma fun_upd_prefix:
  assumes "\<And>s. f (p @ s) = (if s = [] then e else None)" "\<And>r. \<not> prefix p r \<Longrightarrow> f r = g r"
    and "\<And>s. s \<noteq> [] \<Longrightarrow> g (p @ s) = None"
  shows "f = g(p := e)"
proof
  fix r
  show "f r = (g(p := e)) r"
  proof (cases "prefix p r")
    case True
    then obtain s where "r = p @ s" by (auto simp: prefix_def)
    then show ?thesis using assms(1) [of s] assms(3) [of s] by auto
  qed (use assms(2) in auto)
qed

lemma view_below_absent: "view t p = None \<Longrightarrow> view t (p @ s) = None"
  by (simp add: view_def lookup_append)

lemma view_put:
  assumes "p \<noteq> []" "dir_at (butlast p) t" "view t p = None" "leaf n"
  shows "view (set_at p (Some n) now t) = (view t)(p \<mapsto> entry_of n)"
proof (rule fun_upd_prefix)
  show "view (set_at p (Some n) now t) (p @ s) = (if s = [] then Some (entry_of n) else None)" for s
    using view_set_at [OF assms(1,2)] assms(4) by (simp add: leaf_def)
qed (simp_all add: view_set_at_beside view_below_absent assms(3))

lemma entries_Nil: "entries n = [] \<longleftrightarrow> leaf n"
proof (cases n)
  case (Directory m s es)
  have "leaf n" if "entries n = []"
  proof -
    have "set (entries n) = {}" using that by simp
    then show ?thesis using Directory by simp
  qed
  moreover have False if "leaf n" "(k, v) \<in> set es" for k v
  proof -
    have "map_of es k \<noteq> None" using that(2) by (auto simp: map_of_eq_None_iff intro: rev_image_eqI)
    then have "view n [k] \<noteq> None" using Directory by (auto simp: view_def)
    then show False using that(1) by (simp add: leaf_def)
  qed
  moreover have "entries n = []" if "es = []" using that Directory by (simp add: sorted_keys_def)
  ultimately show ?thesis by (metis list.set_intros(1) list.exhaust surj_pair)
qed auto

lemma view_unset:
  assumes "p \<noteq> []" "lookup p t = Some n" "leaf n"
  shows "view (set_at p None now t) = (view t)(p := None)"
proof (rule fun_upd_prefix)
  have "butlast p @ [last p] = p" using assms(1) by simp
  then have d: "dir_at (butlast p) t" using view_above [of t "butlast p" "[last p]"] assms(2) by (auto simp: view_def)
  show "view (set_at p None now t) (p @ s) = (if s = [] then None else None)" for s
    using view_set_at [OF assms(1) d] by simp
  show "view t (p @ s) = None" if "s \<noteq> []" for s
    using that assms(2,3) by (simp add: view_append leaf_def)
qed (simp add: view_set_at_beside)

lemma view_change:
  assumes "\<And>n. view (f n) = (view n)([] := Some (g (entry_of n)))"
  shows "view (amend f p t) = (view t)(p := map_option g (view t p))"
proof
  fix r
  show "view (amend f p t) r = ((view t)(p := map_option g (view t p))) r"
  proof (cases "prefix p r")
    case True
    then obtain s where r: "r = p @ s" by (auto simp: prefix_def)
    have "view (amend f p t) (p @ s) = (case lookup p t of None \<Rightarrow> None | Some n \<Rightarrow> view (f n) s)"
      by (simp add: view_append lookup_amend split: option.split)
    moreover have "view t (p @ s) = (case lookup p t of None \<Rightarrow> None | Some n \<Rightarrow> view n s)"
      by (rule view_append)
    moreover have "view t p = map_option entry_of (lookup p t)" by (simp add: view_def)
    ultimately show ?thesis unfolding r by (cases s; cases "lookup p t") (simp_all add: assms)
  qed (auto simp: view_amend_beside)
qed

fun with_perm :: "perm \<Rightarrow> entry \<Rightarrow> entry" where
  "with_perm mode (FileE b m) = FileE b mode"
| "with_perm mode (LinkE x) = LinkE x"
| "with_perm mode (DirE m) = DirE mode"

fun with_data :: "bytes \<Rightarrow> entry \<Rightarrow> entry" where
  "with_data data (FileE b m) = FileE (b @ data) m"
| "with_data data (LinkE x) = LinkE x"
| "with_data data (DirE m) = DirE m"

lemma view_chmod:
  "view (amend (\<lambda>n. case n of File b m \<Rightarrow> File b mode | Symlink x \<Rightarrow> Symlink x
                | Directory m s es \<Rightarrow> Directory mode s es) p t) = (view t)(p := map_option (with_perm mode) (view t p))"
proof (rule view_change)
  fix n show "view (case n of File b m \<Rightarrow> File b mode | Symlink x \<Rightarrow> Symlink x
                | Directory m s es \<Rightarrow> Directory mode s es) = (view n)([] \<mapsto> with_perm mode (entry_of n))"
    by (rule ext, rename_tac q, case_tac q; cases n) (simp_all add: view_def)
qed

lemma view_append_data: "view (amend (append_data data) p t) = (view t)(p := map_option (with_data data) (view t p))"
proof (rule view_change)
  fix n show "view (append_data data n) = (view n)([] \<mapsto> with_data data (entry_of n))"
    by (rule ext, rename_tac q, case_tac q; cases n) (simp_all add: view_def append_data_def)
qed

text \<open>Moving a subtree to a free place beside it.\<close>

lemma view_move:
  assumes "p \<noteq> []" "lookup p t = Some n" "q \<noteq> []" "dir_at (butlast q) t" "\<not> prefix p q" "\<not> prefix q p"
  shows "view (set_at q (Some n) now (set_at p None now t)) r =
    (if prefix q r then view t (p @ drop (length q) r) else if prefix p r then None else view t r)"
proof -
  let ?u = "set_at p None now t"
  have "butlast p @ [last p] = p" using assms(1) by simp
  then have d: "dir_at (butlast p) t" using view_above [of t "butlast p" "[last p]"] assms(2) by (auto simp: view_def)
  have "\<not> prefix p (butlast q)" using assms(5) by (meson prefix_order.trans prefixeq_butlast)
  then have d': "dir_at (butlast q) ?u" using assms(4) by (simp add: dir_at_def view_set_at_beside)
  show ?thesis
  proof (cases "prefix q r")
    case True
    then obtain s where "r = q @ s" by (auto simp: prefix_def)
    then show ?thesis using view_set_at [OF assms(3) d'] assms(2) by (simp add: view_append)
  next
    case no: False
    show ?thesis
    proof (cases "prefix p r")
      case True
      then obtain s where "r = p @ s" by (auto simp: prefix_def)
      then show ?thesis using no view_set_at [OF assms(1) d] by (simp add: view_set_at_beside)
    qed (use no in \<open>simp add: view_set_at_beside\<close>)
  qed
qed

section \<open>Calls that keep an invariant of the trees\<close>

text \<open>
  The present tree satisfies \<open>I\<close>, and every earlier one \<open>J\<close>: \<open>J\<close> is what a reader may see at any moment,
  \<open>I\<close> what the program knows now.
\<close>

definition hist :: "(node \<Rightarrow> bool) \<Rightarrow> (node \<Rightarrow> bool) \<Rightarrow> world \<Rightarrow> bool" where
  "hist J I w \<longleftrightarrow> I (w_tree w) \<and> (\<forall>t \<in> set (w_past w). J t)"

lemma hist_tick [simp]: "hist J I (tick w) \<longleftrightarrow> hist J I w"
  by (simp add: hist_def)

lemma hist_store: "hist J I w \<Longrightarrow> I' t \<Longrightarrow> J (w_tree w) \<Longrightarrow> hist J I' (store t w)"
  by (simp add: hist_def store_def)

lemma hist_mono: "hist J I w \<Longrightarrow> (\<And>t. I t \<Longrightarrow> I' t) \<Longrightarrow> hist J I' w"
  by (auto simp: hist_def)

lemma reading_world: "reading f w = (r, w') \<Longrightarrow> w' = tick w \<and> (r = Inl EIO \<or> r = f (w_tree w))"
  by (auto simp: reading_def split: option.splits)

lemma triple_reading: "triple (hist J I) (reading f) (\<lambda>r. hist J (\<lambda>t. I t \<and> (r = Inl EIO \<or> f t = r)))"
proof (rule tripleI)
  fix w r w' assume "hist J I w" "reading f w = (r, w')"
  then show "hist J (\<lambda>t. I t \<and> (r = Inl EIO \<or> f t = r)) w'" using reading_world [of f w r w'] by (auto simp: hist_def)
qed

lemma keeping_reading [intro!, simp]: "keeping (hist J I) (reading f)"
  by (rule triple_post [OF triple_reading]) (auto elim: hist_mono)

lemma writing_cases:
  assumes "writing f w = (r, w')"
  obtains (failed) e where "r = Inl e" "w' = tick w" "e = EIO \<or> f w = Inl e"
    | (passed) x t where "f w = Inr (x, t)" "r = Inr x" "w' = tick (store t w)"
  using assms by (auto simp: writing_def split: option.splits sum.splits)

lemma triple_writing:
  assumes "\<And>t. I t \<Longrightarrow> J t" and "\<And>w x t. I (w_tree w) \<Longrightarrow> f w = Inr (x, t) \<Longrightarrow> I' x t"
  shows "triple (hist J I) (writing f) (\<lambda>r. case r of Inl e \<Rightarrow> hist J I | Inr x \<Rightarrow> hist J (I' x))"
proof (rule tripleI)
  fix w r w' assume h: "hist J I w" and m: "writing f w = (r, w')"
  from m show "(case r of Inl e \<Rightarrow> hist J I | Inr x \<Rightarrow> hist J (I' x)) w'"
  proof (cases rule: writing_cases)
    case (failed e)
    then show ?thesis using h by simp
  next
    case (passed x t)
    have "I' x t" "J (w_tree w)" using h assms(1) assms(2) [OF _ passed(1)] by (simp_all add: hist_def)
    then show ?thesis using passed hist_store [OF h] by simp
  qed
qed

text \<open>The paths where the calls work, when no link lies on the way.\<close>

definition located :: "(node \<Rightarrow> bool) \<Rightarrow> path \<Rightarrow> bool \<Rightarrow> bool" where
  "located I ws follow \<longleftrightarrow> (\<forall>t p. I t \<longrightarrow> resolve_path t ws follow = Inr p \<longrightarrow> p = ws)"

lemma located_unlinked: "(\<And>t. I t \<Longrightarrow> unlinked ws t) \<Longrightarrow> ''..'' \<notin> set ws \<Longrightarrow> located I ws follow"
  using resolve_path_unlinked by (simp add: located_def) blast

lemma located_entry:
  "(\<And>t. I t \<Longrightarrow> dir_at d t) \<Longrightarrow> ''..'' \<notin> set d \<Longrightarrow> c \<noteq> ''..'' \<Longrightarrow> located I (d @ [c]) False"
  using resolve_path_entry by (simp add: located_def) blast

lemma triple_create:
  assumes J: "\<And>t. I t \<Longrightarrow> J t" and rooted: "\<And>t. I t \<Longrightarrow> dir_at [] t" and at: "located I ws False"
    and leafs: "\<And>w. leaf (new w)"
    and step: "\<And>w t t'. I t \<Longrightarrow> view t ws = None \<Longrightarrow> ws \<noteq> [] \<Longrightarrow> dir_at (butlast ws) t \<Longrightarrow>
      view t' = (view t)(ws \<mapsto> entry_of (new w)) \<Longrightarrow> I' t'"
  shows "triple (hist J I) (create_node ws new)
    (\<lambda>r. case r of Inl e \<Rightarrow> hist J I | Inr p \<Rightarrow> hist J (\<lambda>t. p = ws \<and> I' t))"
  unfolding create_node_def
proof (rule triple_writing [OF J])
  fix w p t
  assume I: "I (w_tree w)" and m: "and_then (resolve_path (w_tree w) ws False) id (\<lambda>p.
     if lookup p (w_tree w) \<noteq> None then Inl EEXIST
     else Inr (p, set_at p (Some (new w)) (now_of w) (w_tree w))) = Inr (p, t)"
  then have p: "resolve_path (w_tree w) ws False = Inr p" "view (w_tree w) p = None"
    and t: "t = set_at p (Some (new w)) (now_of w) (w_tree w)"
    by (auto simp: and_then_Inr view_def split: if_splits)
  have pw: "p = ws" using at I p(1) by (simp add: located_def)
  note parent = resolve_path_parent [OF p(1) rooted [OF I] p(2)]
  show "p = ws \<and> I' t"
    using pw step [OF I, of t w] p(2) parent view_put [OF parent p(2) leafs] t by simp
qed

lemma triple_Remove:
  assumes J: "\<And>t. I t \<Longrightarrow> J t" and at: "located I ws False" and ne: "ws \<noteq> []"
    and step: "\<And>t t'. I t \<Longrightarrow> view t' = (view t)(ws := None) \<Longrightarrow> I' t'"
  shows "triple (hist J I) (Remove ws) (\<lambda>r. case r of Inl e \<Rightarrow> hist J I | Inr u \<Rightarrow> hist J I')"
  unfolding Remove_def
proof (rule triple_writing [OF J])
  fix w and u :: unit and t
  assume I: "I (w_tree w)" and m: "and_then (resolve_path (w_tree w) ws False) id (\<lambda>p.
     case lookup p (w_tree w) of None \<Rightarrow> Inl ENOENT
     | Some n \<Rightarrow> if entries n \<noteq> [] then Inl ENOTEMPTY else Inr ((), set_at p None (now_of w) (w_tree w))) = Inr (u, t)"
  then obtain p n where p: "resolve_path (w_tree w) ws False = Inr p" "lookup p (w_tree w) = Some n" "entries n = []"
    and t: "t = set_at p None (now_of w) (w_tree w)"
    by (auto simp: and_then_Inr split: if_splits option.splits)
  have pw: "p = ws" using at I p(1) by (simp add: located_def)
  show "I' t" using step [OF I] view_unset [of ws "w_tree w" n] p(2,3) ne pw t by (simp add: entries_Nil)
qed

lemma triple_Rename:
  assumes J: "\<And>t. I t \<Longrightarrow> J t" and at: "located I old False" "located I new False"
    and ne: "old \<noteq> []" "new \<noteq> []" "\<not> prefix old new" "\<not> prefix new old"
    and rooted: "\<And>t. I t \<Longrightarrow> dir_at (butlast new) t"
    and step: "\<And>t t'. I t \<Longrightarrow> view t old \<noteq> None \<Longrightarrow> \<not> dir_at new t \<Longrightarrow>
      (\<And>r. view t' r = (if prefix new r then view t (old @ drop (length new) r)
          else if prefix old r then None else view t r)) \<Longrightarrow> I' t'"
  shows "triple (hist J I) (Rename old new) (\<lambda>r. case r of Inl e \<Rightarrow> hist J I | Inr u \<Rightarrow> hist J I')"
  unfolding Rename_def
proof (rule triple_writing [OF J])
  fix w and u :: unit and t
  assume I: "I (w_tree w)" and m: "(let t = w_tree w in
     and_then (resolve_path t old False) id (\<lambda>p.
     and_then (resolve_path t new False) id (\<lambda>q.
     case lookup p t of
       None \<Rightarrow> Inl ENOENT
     | Some n \<Rightarrow>
         (let moved = set_at q (Some n) (now_of w) (set_at p None (now_of w) t) in
          case lookup q t of
            None \<Rightarrow> if strict_prefix p q then Inl EINVAL else Inr ((), moved)
          | Some m \<Rightarrow>
              if is_dir m then Inl EEXIST
              else if strict_prefix p q then Inl EINVAL
              else if is_dir n then Inl ENOTDIR
              else if p = q then Inr ((), t)
              else Inr ((), moved))))) = Inr (u, t)"
  then obtain p q where pq: "resolve_path (w_tree w) old False = Inr p" "resolve_path (w_tree w) new False = Inr q"
    by (auto simp: and_then_Inr Let_def)
  have p: "p = old" "q = new" using at I pq by (simp_all add: located_def)
  have "old \<noteq> new" using ne by auto
  then obtain n where n: "lookup old (w_tree w) = Some n"
    and t: "t = set_at new (Some n) (now_of w) (set_at old None (now_of w) (w_tree w))"
    and nd: "\<not> dir_at new (w_tree w)"
    using m pq unfolding p by (auto simp: dir_at_iff Let_def split: if_splits option.splits)
  show "I' t"
    using step [OF I _ nd] n view_move [OF ne(1) n ne(2) rooted [OF I] ne(3,4)] t by (simp add: view_def)
qed

lemma node_at_located:
  assumes "located I ws follow" "I t" "node_at t ws follow = Inr n"
  shows "lookup ws t = Some n"
  using assms by (auto simp: node_at_def and_then_Inr located_def split: option.splits)

lemma triple_Chmod:
  assumes J: "\<And>t. I t \<Longrightarrow> J t" and at: "located I ws True"
    and step: "\<And>t t'. I t \<Longrightarrow> view t' = (view t)(ws := map_option (with_perm mode) (view t ws)) \<Longrightarrow> I' t'"
  shows "triple (hist J I) (Chmod ws mode) (\<lambda>r. case r of Inl e \<Rightarrow> hist J I | Inr u \<Rightarrow> hist J I')"
  unfolding Chmod_def
proof (rule triple_writing [OF J])
  fix w and u :: unit and t
  assume I: "I (w_tree w)" and m: "and_then (resolve_path (w_tree w) ws True) id (\<lambda>p.
     case lookup p (w_tree w) of
       None \<Rightarrow> Inl ENOENT
     | Some n \<Rightarrow> Inr ((), amend (\<lambda>n. case n of File b m \<Rightarrow> File b mode | Symlink t \<Rightarrow> Symlink t
                           | Directory m s es \<Rightarrow> Directory mode s es) p (w_tree w))) = Inr (u, t)"
  then obtain p where p: "resolve_path (w_tree w) ws True = Inr p"
    and t: "t = amend (\<lambda>n. case n of File b m \<Rightarrow> File b mode | Symlink t \<Rightarrow> Symlink t
                           | Directory m s es \<Rightarrow> Directory mode s es) p (w_tree w)"
    by (auto simp: and_then_Inr split: option.splits)
  have "p = ws" using at I p by (simp add: located_def)
  then show "I' t" using step [OF I] t view_chmod by blast
qed

lemma triple_File_Chmod:
  assumes J: "\<And>t. I t \<Longrightarrow> J t"
    and step: "\<And>t t'. I t \<Longrightarrow> view t' = (view t)(p := map_option (with_perm mode) (view t p)) \<Longrightarrow> I' t'"
  shows "triple (hist J I) (File_Chmod p mode) (\<lambda>r. case r of Inl e \<Rightarrow> hist J I | Inr u \<Rightarrow> hist J I')"
  unfolding File_Chmod_def
proof (rule triple_writing [OF J])
  fix w and u :: unit and t
  assume I: "I (w_tree w)" and m: "Inr ((), amend (\<lambda>n. case n of File b m \<Rightarrow> File b mode | Symlink t \<Rightarrow> Symlink t
     | Directory m s es \<Rightarrow> Directory mode s es) p (w_tree w)) = Inr (u, t)"
  show "I' t" by (rule step [OF I]) (use m view_chmod in auto)
qed

lemma triple_File_Write:
  assumes J: "\<And>t. I t \<Longrightarrow> J t"
    and step: "\<And>t t' k. I t \<Longrightarrow> view t' = (view t)(p := map_option (with_data (take k data)) (view t p)) \<Longrightarrow> A t'"
    and full: "\<And>t t'. I t \<Longrightarrow> view t' = (view t)(p := map_option (with_data data) (view t p)) \<Longrightarrow> I' t'"
  shows "triple (hist J I) (File_Write p data) (\<lambda>r. case r of Inl e \<Rightarrow> hist J A | Inr u \<Rightarrow> hist J I')"
proof (rule tripleI)
  fix w r w' assume h: "hist J I w" and m: "File_Write p data w = (r, w')"
  then have I: "I (w_tree w)" "J (w_tree w)" using J by (simp_all add: hist_def)
  show "(case r of Inl e \<Rightarrow> hist J A | Inr u \<Rightarrow> hist J I') w'"
  proof (cases "w_fault w (w_tick w)")
    case None
    then show ?thesis
      using m h full [OF I(1) view_append_data] I(2) by (auto simp: File_Write_def hist_def store_def)
  next
    case (Some k)
    then show ?thesis
      using m h step [OF I(1) view_append_data] I(2) by (auto simp: File_Write_def hist_def store_def)
  qed
qed

section \<open>Compound calls\<close>

text \<open>
  \<open>MkdirAll\<close> only adds directories on the way to its path, and after a success there is a directory.
\<close>

lemma triple_mkdir_parents:
  assumes J: "\<And>t. I t \<Longrightarrow> J t" and rooted: "\<And>t. I t \<Longrightarrow> dir_at [] t"
    and at: "\<And>p follow. prefix p (rev rws) \<Longrightarrow> p \<noteq> [] \<Longrightarrow> located I p follow"
    and step: "\<And>t t' p m. I t \<Longrightarrow> prefix p (rev rws) \<Longrightarrow> p \<noteq> [] \<Longrightarrow> view t p = None \<Longrightarrow>
      dir_at (butlast p) t \<Longrightarrow> view t' = (view t)(p \<mapsto> DirE m) \<Longrightarrow> I t'"
  shows "triple (hist J I) (mkdir_parents mode rws)
    (\<lambda>r. hist J (\<lambda>t. I t \<and> (\<forall>u. r = Inr u \<longrightarrow> dir_at (rev rws) t)))"
  using at step
proof (induction rws)
  case Nil
  then show ?case using rooted by (auto elim: hist_mono)
next
  case (Cons c parent)
  let ?ws = "rev (c # parent)"
  have at: "located I ?ws follow" for follow by (rule Cons.prems(1)) simp_all
  have IH: "keeping (hist J I) (mkdir_parents mode parent)"
  proof (rule triple_post [OF Cons.IH])
    show "located I p follow" if "prefix p (rev parent)" "p \<noteq> []" for p follow
      by (rule Cons.prems(1)) (use that in auto)
    show "I t'" if "I t" "prefix p (rev parent)" "p \<noteq> []" "view t p = None" "dir_at (butlast p) t"
      "view t' = (view t)(p \<mapsto> DirE m)" for t t' p m
      by (rule Cons.prems(2) [OF that(1) _ that(3-6)]) (use that(2) in simp)
  qed (auto elim: hist_mono)
  let ?Q = "\<lambda>r. hist J (\<lambda>t. I t \<and> (\<forall>u. r = Inr u \<longrightarrow> dir_at ?ws t))"
  have found: "I t \<Longrightarrow> node_at t (rev parent @ [c]) follow = Inr n \<Longrightarrow> is_dir n \<Longrightarrow>
      dir_at (rev parent @ [c]) t" for t follow n
    using node_at_located [OF at] by (auto simp: dir_at_iff)
  have "keeping (hist J I) (Stat ?ws)" "keeping (hist J I) (Lstat ?ws)" by (simp_all add: Stat_def Lstat_def)
  have make: "triple (hist J I) (Mkdir ?ws mode)
      (\<lambda>r. case r of Inl e \<Rightarrow> hist J I | Inr p \<Rightarrow> hist J (\<lambda>t. p = ?ws \<and> I t \<and> dir_at ?ws t))"
    unfolding Mkdir_def
  proof (rule triple_create [OF J rooted at])
    fix w t t' assume t: "I t" "view t ?ws = None" "?ws \<noteq> []" "dir_at (butlast ?ws) t"
      and t': "view t' = (view t)(?ws \<mapsto> entry_of (Directory (masked w mode) (now_of w) []))"
    have "I t'" by (rule Cons.prems(2) [OF t(1) prefix_order.refl t(3,2,4)]) (use t' in simp)
    then show "I t' \<and> dir_at ?ws t'" using t' by (simp add: dir_at_def)
  qed simp_all
  have stat: "triple (hist J I) (Stat ?ws) (\<lambda>r. hist J (\<lambda>t. I t \<and> (r = Inl EIO \<or> node_at t ?ws True = r)))"
    and lstat: "triple (hist J I) (Lstat ?ws) (\<lambda>r. hist J (\<lambda>t. I t \<and> (r = Inl EIO \<or> node_at t ?ws False = r)))"
    unfolding Stat_def Lstat_def by (rule triple_reading)+
  show ?case
    apply (subst mkdir_parents.simps)
    apply (rule triple_attempt [OF stat])
    subgoal for r
    proof (cases r)
      case (Inr n)
      then show ?thesis by (auto elim!: hist_mono dest: found)
    next
      case (Inl e)
      show ?thesis unfolding Inl sum.case
        apply (rule triple_pre [where P = "hist J I"])
         apply (rule triple_call [OF IH])
          apply (simp add: hist_def)
         apply (rule triple_attempt [OF make])
        subgoal for u made
        proof (cases made)
          case (Inl e')
          show ?thesis unfolding Inl sum.case
            apply (rule triple_attempt [OF lstat])
            subgoal for q by (cases q) (auto elim!: hist_mono dest: found)
            done
        qed (auto elim!: hist_mono)
        apply (erule hist_mono, simp)
        done
    qed
    done
qed

lemma digits_no_slash: "2 \<le> base \<Longrightarrow> base \<le> 16 \<Longrightarrow> slash \<notin> set (digits_of base fuel n)"
proof (induction fuel arbitrary: n)
  case (Suc fuel)
  have slash: "hex_digit k \<noteq> slash" if "k < 16" for k
  proof
    assume "hex_digit k = slash"
    then have "byte_val (hex_digit k) = byte_val slash" by simp
    moreover have "byte_val slash = 47" by code_simp
    ultimately show False using that by (auto simp: hex_digit_def split: if_split_asm)
  qed
  have "n mod base < 16" using Suc.prems mod_less_divisor [of base n] by linarith
  then show ?case using Suc slash [of n] slash [of "n mod base"] by auto
qed simp

lemma format_nat_no_slash: "slash \<notin> set (format_nat 10 n)"
  unfolding format_nat_def by (rule digits_no_slash) simp_all

lemma keeping_each: "(\<And>x. x \<in> set xs \<Longrightarrow> keeping P (f x)) \<Longrightarrow> keeping P (each f xs)"
proof (induction xs)
  case (Cons x xs)
  have "keeping P (f x)" by (rule Cons.prems) simp
  moreover have "keeping P (each f xs)" by (rule Cons.IH) (use Cons.prems in simp)
  ultimately show ?case by (simp only: each.simps keeping_call)
qed simp

lemma triple_mkdir_temp:
  assumes J: "\<And>t. I t \<Longrightarrow> J t" and rooted: "\<And>t. I t \<Longrightarrow> dir_at [] t"
    and at: "\<And>n. located I (path_steps (stem @ format_nat 10 n)) False"
    and step: "\<And>t t' m n ws. I t \<Longrightarrow> ws = path_steps (stem @ format_nat 10 n) \<Longrightarrow> view t ws = None \<Longrightarrow> ws \<noteq> [] \<Longrightarrow>
      dir_at (butlast ws) t \<Longrightarrow> view t' = (view t)(ws \<mapsto> DirE m) \<Longrightarrow> I' (stem @ format_nat 10 n) t'"
  shows "triple (hist J I) (mkdir_temp tries stem)
    (\<lambda>r w. case r of Inl e \<Rightarrow> hist J I w | Inr name \<Rightarrow> (\<exists>n. name = stem @ format_nat 10 n) \<and> hist J (I' name) w)"
    (is "triple _ _ ?Q")
proof (induction tries)
  case 0
  then show ?case by (auto simp: triple_def)
next
  case (Suc tries)
  have body: "triple (hist J I)
     (attempt (Mkdir (path_steps (stem @ format_nat 10 n)) 448) (\<lambda>r. case r of
        Inr _ \<Rightarrow> done_with (Inr (stem @ format_nat 10 n))
      | Inl e \<Rightarrow> if e = EEXIST then mkdir_temp tries stem else done_with (Inl e))) ?Q" for n
  proof -
    have mk: "triple (hist J I) (Mkdir (path_steps (stem @ format_nat 10 n)) 448)
      (\<lambda>r. case r of Inl e \<Rightarrow> hist J I | Inr p \<Rightarrow> hist J (\<lambda>t. p = path_steps (stem @ format_nat 10 n) \<and>
         I' (stem @ format_nat 10 n) t))"
      unfolding Mkdir_def by (rule triple_create [OF J rooted at]) (use step in auto)
    show ?thesis
      apply (rule triple_attempt [OF mk])
      subgoal for r using Suc.IH by (cases r) (auto elim: hist_mono)
      done
  qed
  show ?case
  proof (rule tripleI)
    fix w r w' assume "hist J I w" "mkdir_temp (Suc tries) stem w = (r, w')"
    then show "?Q r w'" using tripleD [OF body [of "w_random w (w_tick w)"]] by (simp add: Let_def)
  qed
qed

lemma triple_create_temp:
  assumes J: "\<And>t. I t \<Longrightarrow> J t" and rooted: "\<And>t. I t \<Longrightarrow> dir_at [] t"
    and at: "\<And>n. located I (path_steps (stem @ format_nat 10 n)) False"
    and step: "\<And>t t' m n ws. I t \<Longrightarrow> ws = path_steps (stem @ format_nat 10 n) \<Longrightarrow> view t ws = None \<Longrightarrow> ws \<noteq> [] \<Longrightarrow>
      dir_at (butlast ws) t \<Longrightarrow> view t' = (view t)(ws \<mapsto> FileE [] m) \<Longrightarrow> I' (stem @ format_nat 10 n) t'"
  shows "triple (hist J I) (create_temp tries stem)
    (\<lambda>r w. case r of Inl e \<Rightarrow> hist J I w
       | Inr x \<Rightarrow> (\<exists>n. snd x = stem @ format_nat 10 n \<and> fst x = path_steps (snd x)) \<and> hist J (I' (snd x)) w)"
    (is "triple _ _ ?Q")
proof (induction tries)
  case 0
  then show ?case by (auto simp: triple_def)
next
  case (Suc tries)
  have body: "triple (hist J I)
     (attempt (OpenNew (path_steps (stem @ format_nat 10 n)) 384) (\<lambda>r. case r of
        Inr p \<Rightarrow> done_with (Inr (p, stem @ format_nat 10 n))
      | Inl e \<Rightarrow> if e = EEXIST then create_temp tries stem else done_with (Inl e))) ?Q" for n
  proof -
    have mk: "triple (hist J I) (OpenNew (path_steps (stem @ format_nat 10 n)) 384)
      (\<lambda>r. case r of Inl e \<Rightarrow> hist J I | Inr p \<Rightarrow> hist J (\<lambda>t. p = path_steps (stem @ format_nat 10 n) \<and>
         I' (stem @ format_nat 10 n) t))"
      unfolding OpenNew_def by (rule triple_create [OF J rooted at]) (use step in auto)
    show ?thesis
      apply (rule triple_attempt [OF mk])
      subgoal for r
      proof (cases r)
        case (Inl e)
        then show ?thesis using Suc.IH by auto
      next
        case (Inr p)
        then show ?thesis by (auto simp: hist_def)
      qed
      done
  qed
  show ?case
  proof (rule tripleI)
    fix w r w' assume "hist J I w" "create_temp (Suc tries) stem w = (r, w')"
    then show "?Q r w'" using tripleD [OF body [of "w_random w (w_tick w)"]] by (simp add: Let_def)
  qed
qed

lemma keeping_remove_each:
  assumes J: "\<And>t. I t \<Longrightarrow> J t" and "ws \<noteq> []"
    and step: "\<And>t t' q. I t \<Longrightarrow> view t' = (view t)(ws @ q := None) \<Longrightarrow> I t'"
  shows "keeping (hist J I) (remove_each (map (\<lambda>e. ws @ fst e) es) r)"
proof (induction es arbitrary: r)
  case (Cons e es)
  have "triple (hist J I) (Unlink (ws @ fst e)) (\<lambda>r. case r of Inl e \<Rightarrow> hist J I | Inr u \<Rightarrow> hist J I)"
    unfolding Unlink_def
  proof (rule triple_writing [OF J])
    fix w and u :: unit and t
    assume I: "I (w_tree w)" and m: "(case lookup (ws @ fst e) (w_tree w) of
       None \<Rightarrow> Inl ENOENT
     | Some n \<Rightarrow> if entries n \<noteq> [] then Inl ENOTEMPTY
         else Inr ((), set_at (ws @ fst e) None (now_of w) (w_tree w))) = Inr (u, t)"
    then obtain n where "lookup (ws @ fst e) (w_tree w) = Some n" "leaf n"
      "t = set_at (ws @ fst e) None (now_of w) (w_tree w)"
      by (auto simp: entries_Nil split: option.splits if_splits)
    then show "I t" using step [OF I] view_unset [of "ws @ fst e" "w_tree w" n] assms(2) by simp
  qed
  then have "keeping (hist J I) (Unlink (ws @ fst e))" by (rule triple_post) (auto split: sum.splits)
  then show ?case unfolding list.map remove_each.simps by (rule keeping_attempt) (rule Cons.IH)
qed simp

lemma keeping_RemoveAll:
  assumes J: "\<And>t. I t \<Longrightarrow> J t" and ne: "ws \<noteq> []" and at: "located I ws False"
    and step: "\<And>t t' q. I t \<Longrightarrow> view t' = (view t)(ws @ q := None) \<Longrightarrow> I t'"
  shows "keeping (hist J I) (RemoveAll ws)"
proof -
  have each: "keeping (hist J I) (remove_each (map (\<lambda>e. ws @ fst e) es) q)" for es :: "(path \<times> node) list" and q
    by (rule keeping_remove_each) (use assms in blast)+
  show ?thesis unfolding RemoveAll_def
    apply (rule triple_attempt [OF triple_reading])
    subgoal for r
    proof (cases r)
      case (Inr pn)
      obtain p n where pn: "pn = (p, n)" by (cases pn)
      show ?thesis unfolding Inr pn
        apply (rule tripleI)
        subgoal for w r' w'
        proof -
          assume h: "hist J (\<lambda>t. I t \<and> ((Inr (p, n) :: (errno, path \<times> node) result) = Inl EIO \<or>
               and_then (resolve_path t ws False) id
                (\<lambda>p. case lookup p t of None \<Rightarrow> Inl ENOENT | Some n \<Rightarrow> Inr (p, n)) = Inr (p, n))) w"
            and m: "(case Inr (p, n) of Inl e \<Rightarrow> done_with (if e = ENOENT then Inr () else Inl e)
              | Inr (p, n) \<Rightarrow> remove_each (map (\<lambda>e. p @ fst e) (rev (walk_nodes [] n))) (Inr ())) w = (r', w')"
          have I: "I (w_tree w)" and "resolve_path (w_tree w) ws False = Inr p"
            using h by (auto simp: hist_def and_then_Inr split: option.splits)
          then have "p = ws" using at by (simp add: located_def)
          then show "hist J I w'" using tripleD [OF each, of _ _ w r' w'] m h by (simp add: hist_def)
        qed
        done
    qed (auto elim: hist_mono)
    done
qed

lemma keeping_reads [simp, intro]:
  "keeping (hist J I) (Lstat ws)" "keeping (hist J I) (Stat ws)" "keeping (hist J I) (Readlink ws)"
  "keeping (hist J I) (ReadFile ws)" "keeping (hist J I) (ReadDir ws)" "keeping (hist J I) (WalkDir ws)"
  "keeping (hist J I) (File_Sync p)" "keeping (hist J I) (File_Close p)" "keeping (hist J I) (OpenDir ws)"
  by (simp_all add: Lstat_def Stat_def Readlink_def ReadFile_def ReadDir_def WalkDir_def File_Sync_def
      File_Close_def OpenDir_def)

end
