(* ===== verification/Deploy.thy ===== *)
theory Deploy
  imports Os_Facts Configuration
begin

text \<open>
  \<open>internal/deploy/deployer.go\<close>: releases are directories named after the digest of their content, and
  one symbolic link selects the active release. The calls of package \<open>os\<close> come from \<open>Go_Os\<close>; the paths
  they take are the strings of the code.
\<close>

record DeployResult =
  dr_Changed :: bool
  dr_ReleaseDir :: string
  dr_CurrentDir :: string

datatype deploy_error =
    Os errno
  | CurrentNotSymlink
  | TargetNotClean string
  | TargetOutside string
  | TargetNotRelease string
  | CurrentDigestMismatch string string
  | ReadActiveDigest deploy_error
  | VerifyActive deploy_error
  | CreateReleases errno
  | CreateStaging errno
  | MissingBundleFile string
  | WriteReleaseFile string errno
  | CommitRelease errno
  | ActivateRelease errno
  | PruneReleases deploy_error
  | NegativeRetention
  | ReadReleaseDigest errno
  | ReleaseDigestMismatch string string
  | StatReleaseDigest errno
  | DigestNotPrivate
  | DuplicateLocalMapping string
  | ZeroMode string
  | EndlessParents string
  | StatMapped string errno
  | MappedNotRegular string
  | ReadMapped string errno
  | ContentMismatch string
  | MappedModeMismatch string perm perm
  | ReleaseRootMode perm perm
  | ReleaseDirectoryMode string perm perm
  | UnexpectedDirectory string
  | UnexpectedEntry string
  | VisitedTwice string
  | WrongEntryCount nat nat

definition managedDirectory :: string where "managedDirectory = ''.pemcast''"

section \<open>The current release\<close>

definition managedReleaseTarget :: "string \<Rightarrow> string \<times> bool" where
  "managedReleaseTarget target =
     (let stem = PathJoin [managedDirectory, ''releases''] @ ''/'';
          ok = HasPrefix target stem;
          release = TrimPrefix target stem in
      (release, ok \<and> release \<noteq> ''.'' \<and> release \<noteq> ''..''))"

definition CurrentDigest :: "Output \<Rightarrow> (world, deploy_error, string) io" where
  "CurrentDigest output =
     (let linkPath = PathJoin [out_Root output, out_CurrentLink output] in
      attempt (Lstat (path_steps linkPath)) (\<lambda>found. case found of
        Inl e \<Rightarrow> done_with (if e = ENOENT then Inr [] else Inl (Os e))
      | Inr info \<Rightarrow>
          if \<not> is_symlink info then done_with (Inl CurrentNotSymlink)
          else
            call (Readlink (path_steps linkPath)) Os (\<lambda>target.
            if IsAbs target \<or> Clean target \<noteq> target then done_with (Inl (TargetNotClean target))
            else
              let (release, ok) = managedReleaseTarget target in
              if \<not> ok then done_with (Inl (TargetOutside target))
              else if \<not> HasPrefix release ''sha256-'' \<or> release = ''sha256-'' \<or>
                      ContainsAny release [CHR ''/'', CHR 0x5C]
              then done_with (Inl (TargetNotRelease target))
              else
                let wantDigest = TrimPrefix release ''sha256-'' in
                call (ReadFile (path_steps (PathJoin [linkPath, ''.pemcast-digest'']))) Os (\<lambda>data.
                let digest = TrimSpace data in
                if digest = [] \<or> digest \<noteq> wantDigest
                then done_with (Inl (CurrentDigestMismatch digest wantDigest))
                else done_with (Inr digest)))))"

section \<open>Checking a release\<close>

text \<open>
  The directories above a local path, up to the dot. For an absolute path the loop of the code never
  ends (\<open>filepath.Dir("/")\<close> is \<open>"/"\<close>), which is \<open>None\<close>: each other step shortens the path, so that
  its length bounds the steps.
\<close>

fun parent_dirs :: "nat \<Rightarrow> string \<Rightarrow> string list option" where
  "parent_dirs fuel directory =
     (if directory = ''.'' then Some []
      else if fuel = 0 then None
      else map_option ((#) directory) (parent_dirs (fuel - 1) (Dir directory)))"

declare parent_dirs.simps [simp del]

text \<open>The loop over the mappings: the modes of the expected files and the expected directories.\<close>

fun verify_mappings ::
  "string \<Rightarrow> file_map \<Rightarrow> (string \<times> perm) list \<Rightarrow> string list \<Rightarrow> FileMapping list \<Rightarrow>
   (world, deploy_error, (string \<times> perm) list \<times> string list) io" where
  "verify_mappings releaseDir files expected expectedDirs [] = done_with (Inr (expected, expectedDirs))"
| "verify_mappings releaseDir files expected expectedDirs (mapping # ms) =
     (let relative = fm_Local mapping; mode = FileMode_Perm (fm_Mode mapping) in
      if map_of expected relative \<noteq> None then done_with (Inl (DuplicateLocalMapping relative))
      else if mode = 0 then done_with (Inl (ZeroMode relative))
      else case parent_dirs (Suc (length relative)) (Dir relative) of
        None \<Rightarrow> done_with (Inl (EndlessParents relative))
      | Some parents \<Rightarrow>
          let content = (case map_of files (fm_Remote mapping) of None \<Rightarrow> [] | Some b \<Rightarrow> b);
              file = PathJoin [releaseDir, relative] in
          call (Lstat (path_steps file)) (StatMapped relative) (\<lambda>info.
          if \<not> is_regular info then done_with (Inl (MappedNotRegular relative))
          else
            call (ReadFile (path_steps file)) (ReadMapped relative) (\<lambda>data.
            if data \<noteq> content then done_with (Inl (ContentMismatch relative))
            else if node_perm info \<noteq> mode
            then done_with (Inl (MappedModeMismatch relative (node_perm info) mode))
            else verify_mappings releaseDir files ((relative, mode) # expected) (parents @ expectedDirs) ms)))"

text \<open>One visit of the walk, with the entries seen so far.\<close>

definition visit_entry ::
  "perm \<Rightarrow> (string \<times> perm) list \<Rightarrow> string list \<Rightarrow> string list \<Rightarrow> path \<Rightarrow> node \<Rightarrow>
   (deploy_error, string list) result" where
  "visit_entry mode expected expectedDirs seen p entry =
     (let relative = (if p = [] then ''.'' else Join p ''/'') in
      if relative = ''.'' then
        if \<not> is_dir entry \<or> node_perm entry \<noteq> mode then Inl (ReleaseRootMode (node_perm entry) mode)
        else Inr seen
      else if is_dir entry then
        if node_perm entry \<noteq> mode then Inl (ReleaseDirectoryMode relative (node_perm entry) mode)
        else if relative \<notin> set expectedDirs then Inl (UnexpectedDirectory relative)
        else Inr seen
      else if map_of expected relative = None then Inl (UnexpectedEntry relative)
      else if relative \<in> set seen then Inl (VisitedTwice relative)
      else Inr (relative # seen))"

fun visit_entries ::
  "perm \<Rightarrow> (string \<times> perm) list \<Rightarrow> string list \<Rightarrow> string list \<Rightarrow> (path \<times> node) list \<Rightarrow>
   (deploy_error, string list) result" where
  "visit_entries mode expected expectedDirs seen [] = Inr seen"
| "visit_entries mode expected expectedDirs seen ((p, entry) # es) =
     and_then (visit_entry mode expected expectedDirs seen p entry) id (\<lambda>seen.
     visit_entries mode expected expectedDirs seen es)"

definition verifyRelease :: "string \<Rightarrow> Material \<Rightarrow> Output \<Rightarrow> (world, deploy_error, unit) io" where
  "verifyRelease releaseDir material output =
     (let digestPath = PathJoin [releaseDir, ''.pemcast-digest'']; mode = FileMode_Perm (out_DirectoryMode output) in
      call (ReadFile (path_steps digestPath)) ReadReleaseDigest (\<lambda>digestData.
      if TrimSpace digestData \<noteq> mat_Digest material
      then done_with (Inl (ReleaseDigestMismatch (TrimSpace digestData) (mat_Digest material)))
      else
        call (Lstat (path_steps digestPath)) StatReleaseDigest (\<lambda>digestInfo.
        if \<not> is_regular digestInfo \<or> node_perm digestInfo \<noteq> 384 then done_with (Inl DigestNotPrivate)
        else
          call (verify_mappings releaseDir (mat_Files material) [(''.pemcast-digest'', 384)] []
                  (out_Mappings output)) id (\<lambda>(expected, expectedDirs).
          call (WalkDir (path_steps releaseDir)) Os (\<lambda>visited.
          call (done_with (visit_entries mode expected expectedDirs [] visited)) id (\<lambda>seen.
          if length seen \<noteq> map_len expected
          then done_with (Inl (WrongEntryCount (length seen) (map_len expected)))
          else done_with (Inr ())))))))"

section \<open>Writing a release\<close>

definition syncDirectory :: "string \<Rightarrow> (world, errno, unit) io" where
  "syncDirectory p =
     call (OpenDir (path_steps p)) id (\<lambda>directory.
     attempt (File_Sync directory) (\<lambda>synced.
     attempt (File_Close directory) (\<lambda>closed.
     done_with (case synced of Inl e \<Rightarrow> Inl e | Inr _ \<Rightarrow> closed))))"

definition syncDirectoryTree :: "string \<Rightarrow> (world, errno, unit) io" where
  "syncDirectoryTree base =
     call (WalkDir (path_steps base)) id (\<lambda>visited.
     each (\<lambda>(p, entry). if is_dir entry then syncDirectory (PathJoin (base # p)) else done_with (Inr ())) visited)"

definition writeReleaseFile :: "string \<Rightarrow> bytes \<Rightarrow> perm \<Rightarrow> perm \<Rightarrow> (world, errno, unit) io" where
  "writeReleaseFile p content mode directoryMode =
     call (MkdirAll (path_steps (Dir p)) directoryMode) id (\<lambda>_.
     call (OpenNew (path_steps p) mode) id (\<lambda>file.
     attempt (File_Write file content) (\<lambda>written. case written of
       Inl e \<Rightarrow> attempt (File_Close file) (\<lambda>_. done_with (Inl e))
     | Inr _ \<Rightarrow>
         attempt (File_Sync file) (\<lambda>synced. case synced of
           Inl e \<Rightarrow> attempt (File_Close file) (\<lambda>_. done_with (Inl e))
         | Inr _ \<Rightarrow> File_Close file))))"

definition write_mapping ::
  "string \<Rightarrow> Material \<Rightarrow> Output \<Rightarrow> FileMapping \<Rightarrow> (world, deploy_error, unit) io" where
  "write_mapping temporary material output mapping =
     (case map_of (mat_Files material) (fm_Remote mapping) of
        None \<Rightarrow> done_with (Inl (MissingBundleFile (fm_Remote mapping)))
      | Some content \<Rightarrow>
          call (writeReleaseFile (PathJoin [temporary, fm_Local mapping]) content
                  (FileMode_Perm (fm_Mode mapping)) (FileMode_Perm (out_DirectoryMode output)))
            (WriteReleaseFile (fm_Local mapping)) (\<lambda>_. done_with (Inr ())))"

text \<open>What \<open>ensureRelease\<close> does with its staging directory, before the deferred removal.\<close>

definition fill_release :: "string \<Rightarrow> string \<Rightarrow> Material \<Rightarrow> Output \<Rightarrow> (world, deploy_error, unit) io" where
  "fill_release temporary releaseDir material output =
     (let directoryMode = FileMode_Perm (out_DirectoryMode output) in
      call (Chmod (path_steps temporary) directoryMode) Os (\<lambda>_.
      call (each (write_mapping temporary material output) (out_Mappings output)) id (\<lambda>_.
      call (writeReleaseFile (PathJoin [temporary, ''.pemcast-digest'']) (mat_Digest material @ [CHR 0x0A])
              384 directoryMode) Os (\<lambda>_.
      call (syncDirectoryTree temporary) Os (\<lambda>_.
      attempt (Rename (path_steps temporary) (path_steps releaseDir)) (\<lambda>renamed. case renamed of
        Inl e \<Rightarrow>
          if e = EEXIST \<or> e = ENOTEMPTY then verifyRelease releaseDir material output
          else done_with (Inl (CommitRelease e))
      | Inr _ \<Rightarrow> call (syncDirectory (Dir releaseDir)) Os (\<lambda>_. done_with (Inr ()))))))))"

definition stage_release :: "string \<Rightarrow> Material \<Rightarrow> Output \<Rightarrow> (world, deploy_error, unit) io" where
  "stage_release releaseDir material output =
     call (MkdirTemp (Dir releaseDir) ''.staging-'') CreateStaging (\<lambda>temporary.
     deferring (RemoveAll (path_steps temporary)) (fill_release temporary releaseDir material output))"

definition ensureRelease :: "string \<Rightarrow> Material \<Rightarrow> Output \<Rightarrow> (world, deploy_error, unit) io" where
  "ensureRelease releaseDir material output =
     attempt (Lstat (path_steps releaseDir)) (\<lambda>found. case found of
       Inl e \<Rightarrow> if e = ENOENT then stage_release releaseDir material output else done_with (Inl (Os e))
     | Inr info \<Rightarrow>
         if is_dir info then verifyRelease releaseDir material output
         else stage_release releaseDir material output)"

section \<open>Switching and pruning\<close>

definition switchSymlink :: "string \<Rightarrow> string \<Rightarrow> string \<Rightarrow> (world, errno, unit) io" where
  "switchSymlink base name target =
     (let link = PathJoin [base, name];
          temporary = PathJoin [base, ''.'' @ Base name @ ''.pemcast-new''] in
      call (MkdirAll (path_steps (Dir link)) 493) id (\<lambda>_.
      attempt (Remove (path_steps temporary)) (\<lambda>_.
      call (Symlink_call target (path_steps temporary)) id (\<lambda>_.
      deferring (Remove (path_steps temporary))
        (call (Rename (path_steps temporary) (path_steps link)) id (\<lambda>_.
         syncDirectory (Dir link)))))))"

text \<open>The inactive releases with their modification times; \<open>os.ReadDir\<close> lists them by name.\<close>

fun inactive_releases ::
  "string \<Rightarrow> string \<Rightarrow> (string \<times> node) list \<Rightarrow> (world, deploy_error, (string \<times> int) list) io" where
  "inactive_releases base active [] = done_with (Inr [])"
| "inactive_releases base active ((name, entry) # es) =
     (if \<not> is_dir entry \<or> name = active \<or> \<not> HasPrefix name ''sha256-''
      then inactive_releases base active es
      else
        call (Lstat (path_steps (PathJoin [base, name]))) Os (\<lambda>info.
        call (inactive_releases base active es) id (\<lambda>releases.
        done_with (Inr ((name, mod_time info) # releases)))))"

text \<open>
  \<open>newest_first\<close> is \<open>sort.Slice\<close> by descending modification time, which leaves the order of equal times
  open. A negative count would panic in the slice expression.
\<close>

definition pruneReleases ::
  "((string \<times> int) list \<Rightarrow> (string \<times> int) list) \<Rightarrow> string \<Rightarrow> string \<Rightarrow> int \<Rightarrow> (world, deploy_error, unit) io" where
  "pruneReleases newest_first base active retain =
     call (ReadDir (path_steps base)) Os (\<lambda>found.
     call (inactive_releases base active found) id (\<lambda>releases.
     if retain < 0 then done_with (Inl NegativeRetention)
     else each (\<lambda>release. call (RemoveAll (path_steps (PathJoin [base, fst release]))) Os (\<lambda>_. done_with (Inr ())))
            (drop (nat retain) (newest_first releases))))"

section \<open>Activation\<close>

definition Activate ::
  "((string \<times> int) list \<Rightarrow> (string \<times> int) list) \<Rightarrow> Material \<Rightarrow> Output \<Rightarrow> (world, deploy_error, DeployResult) io" where
  "Activate newest_first material output =
     call (CurrentDigest output) ReadActiveDigest (\<lambda>currentDigest.
     let currentDir = PathJoin [out_Root output, out_CurrentLink output] in
     if currentDigest = mat_Digest material then
       let releaseDir = PathJoin [out_Root output, managedDirectory, ''releases'', ''sha256-'' @ mat_Digest material] in
       call (verifyRelease releaseDir material output) VerifyActive (\<lambda>_.
       done_with (Inr \<lparr>dr_Changed = False, dr_ReleaseDir = [], dr_CurrentDir = currentDir\<rparr>))
     else
       let managedRoot = PathJoin [out_Root output, managedDirectory];
           releasesRoot = PathJoin [managedRoot, ''releases''];
           releaseName = ''sha256-'' @ mat_Digest material;
           releaseDir = PathJoin [releasesRoot, releaseName] in
       call (MkdirAll (path_steps releasesRoot) (FileMode_Perm (out_DirectoryMode output))) CreateReleases (\<lambda>_.
       call (ensureRelease releaseDir material output) id (\<lambda>_.
       call (switchSymlink (out_Root output) (out_CurrentLink output)
               (PathJoin [managedDirectory, ''releases'', releaseName])) ActivateRelease (\<lambda>_.
       call (pruneReleases newest_first releasesRoot releaseName (out_RetainReleases output)) PruneReleases (\<lambda>_.
       done_with (Inr \<lparr>dr_Changed = True, dr_ReleaseDir = releaseDir, dr_CurrentDir = currentDir\<rparr>))))))"

end
