(* ===== verification/Deploy_Facts.thy ===== *)
theory Deploy_Facts
  imports Deploy
begin

text \<open>What the calls of the deployer do, for a root that holds no links on the way to its releases.\<close>

lemma safe_local:
  assumes "safeRelativePath p"
  obtains ws where "ws \<noteq> []" "\<forall>w \<in> set ws. plain_component w" "p = Join ws ''/''" "path_steps p = ws"
proof -
  have p: "\<not> IsAbs p" "Clean p = p" "p \<noteq> ''.''" "p \<noteq> ''..''" "\<not> HasPrefix p ''../''"
    using assms by (auto simp: safeRelativePath_def split: if_split_asm)
  obtain j bs where c: "clean_components False [] (Split slash p) = replicate j ''..'' @ bs"
    and bs: "\<forall>w \<in> set bs. plain_component w"
    using clean_components_front [of "Split slash p" "[]" "[]" 0] Split_no_sep by auto
  let ?body = "Join (replicate j ''..'' @ bs) ''/''"
  have body: "p = (if ?body = [] then ''.'' else ?body)"
    using p(1,2) c by (simp add: Clean_def Let_def)
  then have p': "p = ?body" using p(3) by (metis (full_types))
  have "j = 0"
  proof (rule ccontr)
    assume "j \<noteq> 0"
    then obtain i where "j = Suc i" by (cases j) auto
    then show False using p' p(4,5) by (cases "replicate i ''..'' @ bs") (auto simp: HasPrefix_iff)
  qed
  then have "p = Join bs ''/''" using p' by simp
  moreover have "bs \<noteq> []" using body p(3) \<open>j = 0\<close> by auto
  moreover have "path_steps p = bs" using calculation(1) bs by (simp add: path_steps_Join concat_steps)
  ultimately show ?thesis using that bs by blast
qed

section \<open>The paths of a root\<close>

text \<open>A root is clean and absolute, the link is one name below it, and not the managed directory.\<close>

definition layout :: "Output \<Rightarrow> path \<Rightarrow> bool" where
  "layout output R \<longleftrightarrow>
     out_Root output = abs_path R \<and> (\<forall>w \<in> set R. plain_component w) \<and>
     plain_component (out_CurrentLink output) \<and> out_CurrentLink output \<noteq> managedDirectory \<and>
     (\<forall>m \<in> set (out_Mappings output). safeRelativePath (fm_Local m))"

abbreviation releases :: "path \<Rightarrow> path" where "releases R \<equiv> R @ [''.pemcast'', ''releases'']"

abbreviation release_name :: "string \<Rightarrow> string" where "release_name d \<equiv> ''sha256-'' @ d"

definition release_target :: "string \<Rightarrow> string" where
  "release_target d = ''.pemcast/releases/sha256-'' @ d"

abbreviation digest_name :: string where "digest_name \<equiv> ''.pemcast-digest''"

lemma plain_dotdot: "\<forall>w \<in> set ws. plain_component w \<Longrightarrow> ''..'' \<notin> set ws"
  by (auto simp: plain_component_def)

lemma plain_names [simp]:
  "plain_component ''.pemcast''" "plain_component ''releases''" "plain_component ''.pemcast-digest''"
  "slash \<notin> set d \<Longrightarrow> plain_component (''sha256-'' @ d)"
  "slash \<notin> set d \<Longrightarrow> plain_component (CHR ''s'' # CHR ''h'' # CHR ''a'' # CHR ''2'' # CHR ''5'' # CHR ''6'' # CHR ''-'' # d)"
  by (simp_all add: plain_component_def)

lemma steps_PathJoin:
  assumes "\<forall>w \<in> set R. plain_component w" "\<forall>w \<in> set (concat (map path_steps es)). plain_component w"
  shows "PathJoin (abs_path R # es) = abs_path (R @ concat (map path_steps es))"
  using PathJoin_steps [of "abs_path R" es] assms plain_dotdot [of "R @ concat (map path_steps es)"]
  by (auto simp: path_steps_abs_path)

lemma layout_paths:
  assumes "layout output R"
  shows "PathJoin [out_Root output, out_CurrentLink output] = abs_path (R @ [out_CurrentLink output])"
    "PathJoin [out_Root output, managedDirectory] = abs_path (R @ [''.pemcast''])"
    "PathJoin [abs_path (R @ [''.pemcast'']), ''releases''] = abs_path (releases R)"
    "slash \<notin> set d \<Longrightarrow> PathJoin [out_Root output, managedDirectory, ''releases'', ''sha256-'' @ d] =
       abs_path (releases R @ [release_name d])"
    "slash \<notin> set d \<Longrightarrow> PathJoin [abs_path (releases R), ''sha256-'' @ d] = abs_path (releases R @ [release_name d])"
  using assms by (simp_all add: layout_def managedDirectory_def steps_PathJoin path_steps_component)

lemma release_target_join: "slash \<notin> set d \<Longrightarrow> PathJoin [managedDirectory, ''releases'', ''sha256-'' @ d] = release_target d"
proof -
  assume d: "slash \<notin> set d"
  let ?p = "''.pemcast/releases/sha256-'' @ d"
  have p: "?p = Join [''.pemcast'', ''releases'', ''sha256-'' @ d] ''/''" by simp
  have "path_steps ?p = [''.pemcast'', ''releases'', ''sha256-'' @ d]"
    using d unfolding p path_steps_Join by (simp add: path_steps_component)
  moreover have "\<not> IsAbs ?p" by (simp add: IsAbs_def HasPrefix_iff)
  ultimately have "Clean ?p = ?p" using Clean_steps [of ?p] by simp
  then show ?thesis by (simp add: PathJoin_def managedDirectory_def release_target_def)
qed

lemma steps_release_target:
  "slash \<notin> set d \<Longrightarrow> path_steps (release_target d) = [''.pemcast'', ''releases'', release_name d]"
proof -
  assume d: "slash \<notin> set d"
  have "release_target d = Join [''.pemcast'', ''releases'', ''sha256-'' @ d] ''/''"
    by (simp add: release_target_def)
  then show ?thesis using d by (simp add: path_steps_Join path_steps_component del: Join.simps)
qed

section \<open>Walking a tree\<close>

lemma set_entries: "(k, v) \<in> set (entries n) \<longleftrightarrow> lookup [k] n = Some v"
proof (cases n)
  case (Directory m s es)
  have l: "lookup [k] n = map_of es k" by (simp add: Directory option.case_eq_if)
  have e: "(k, v) \<in> set (entries n) \<longleftrightarrow> k \<in> fst ` set es \<and> v = the (map_of es k)"
    by (auto simp: Directory sorted_keys_def)
  have "k \<in> fst ` set es \<longleftrightarrow> map_of es k \<noteq> None"
    by (metis map_of_eq_None_iff)
  then show ?thesis unfolding l e by auto
qed simp_all

lemma set_walk_nodes: "(p, k) \<in> set (walk_nodes here n) \<longleftrightarrow> (\<exists>q. p = here @ q \<and> lookup q n = Some k)"
proof (induction here n arbitrary: p k rule: walk_nodes.induct)
  case (1 here n)
  have step: "lookup (c # q) n = Some k \<longleftrightarrow> (\<exists>v. (c, v) \<in> set (entries n) \<and> lookup q v = Some k)" for c q
    unfolding set_entries using lookup_append [of "[c]" q n] by (auto split: option.splits)
  have IH: "(p, k) \<in> set (walk_nodes (here @ [c]) v) \<longleftrightarrow> (\<exists>q. p = here @ c # q \<and> lookup q v = Some k)"
    if "(c, v) \<in> set (entries n)" for c v
    using "1.IH" [OF that] by simp
  show ?case
  proof
    assume "(p, k) \<in> set (walk_nodes here n)"
    then consider "p = here" "k = n" | c v where "(c, v) \<in> set (entries n)" "(p, k) \<in> set (walk_nodes (here @ [c]) v)"
      by (subst (asm) walk_nodes.simps) auto
    then show "\<exists>q. p = here @ q \<and> lookup q n = Some k"
    proof cases
      case 1
      then show ?thesis by (intro exI [of _ "[]"]) simp
    next
      case 2
      then show ?thesis using IH step by blast
    qed
  next
    assume "\<exists>q. p = here @ q \<and> lookup q n = Some k"
    then obtain q where q: "p = here @ q" "lookup q n = Some k" by blast
    show "(p, k) \<in> set (walk_nodes here n)"
    proof (cases q)
      case Nil
      then show ?thesis using q by (subst walk_nodes.simps) simp
    next
      case (Cons c r)
      then obtain v where "(c, v) \<in> set (entries n)" "lookup r v = Some k" using q(2) step by auto
      then show ?thesis using IH q(1) Cons by (subst walk_nodes.simps) force
    qed
  qed
qed

section \<open>What a verified release is\<close>

text \<open>The names in a tree are single components, as the kernel guarantees.\<close>

definition proper :: "node \<Rightarrow> bool" where
  "proper t \<longleftrightarrow> (\<forall>p w. view t p \<noteq> None \<longrightarrow> w \<in> set p \<longrightarrow> plain_component w)"

definition content_of :: "Material \<Rightarrow> FileMapping \<Rightarrow> bytes" where
  "content_of material m = (case map_of (mat_Files material) (fm_Remote m) of None \<Rightarrow> [] | Some b \<Rightarrow> b)"

abbreviation local_steps :: "FileMapping \<Rightarrow> path" where "local_steps m \<equiv> path_steps (fm_Local m)"

definition release_ok :: "Material \<Rightarrow> Output \<Rightarrow> (path \<Rightarrow> entry option) \<Rightarrow> bool" where
  "release_ok material output v \<longleftrightarrow>
     v [] = Some (DirE (FileMode_Perm (out_DirectoryMode output))) \<and>
     (\<exists>b. v [digest_name] = Some (FileE b 384) \<and> TrimSpace b = mat_Digest material) \<and>
     distinct (digest_name # map fm_Local (out_Mappings output)) \<and>
     (\<forall>m \<in> set (out_Mappings output). FileMode_Perm (fm_Mode m) \<noteq> 0 \<and>
        v (local_steps m) = Some (FileE (content_of material m) (FileMode_Perm (fm_Mode m)))) \<and>
     (\<forall>p e. p \<noteq> [] \<longrightarrow> v p = Some e \<longrightarrow>
        (case e of
           FileE b m \<Rightarrow> p = [digest_name] \<or> (\<exists>m \<in> set (out_Mappings output). p = local_steps m)
         | LinkE x \<Rightarrow> False
         | DirE m \<Rightarrow> m = FileMode_Perm (out_DirectoryMode output) \<and>
             (\<exists>m \<in> set (out_Mappings output). strict_prefix p (local_steps m))))"

lemma Join_inj:
  assumes "\<forall>w \<in> set p. plain_component w" "\<forall>w \<in> set q. plain_component w"
  shows "Join p ''/'' = Join q ''/'' \<longleftrightarrow> p = q"
  using assms by (metis concat_steps path_steps_Join)

lemma Join_dot: "\<forall>w \<in> set p. plain_component w \<Longrightarrow> Join p ''/'' \<noteq> ''.''"
proof
  assume p: "\<forall>w \<in> set p. plain_component w" and j: "Join p ''/'' = ''.''"
  have "path_steps ''.'' = []" by (simp add: path_steps_def)
  then have "p = []" using p j by (metis concat_steps path_steps_Join)
  then show False using j by simp
qed

lemma parent_dirs_Join:
  assumes "\<forall>w \<in> set ws. plain_component w" "length ws \<le> fuel"
  shows "\<exists>ds. parent_dirs fuel (if ws = [] then ''.'' else Join ws ''/'') = Some ds \<and>
    set ds = {Join p ''/'' | p. p \<noteq> [] \<and> prefix p ws}"
  using assms
proof (induction ws arbitrary: fuel rule: rev_induct)
  case Nil
  then show ?case by (simp add: parent_dirs.simps)
next
  case (snoc c ws)
  then obtain f where f: "fuel = Suc f" "length ws \<le> f" by (cases fuel) auto
  have "\<exists>ds. parent_dirs f (Dir (Join (ws @ [c]) ''/'')) = Some ds \<and>
      set ds = {Join p ''/'' | p. p \<noteq> [] \<and> prefix p ws}"
    using snoc.IH [of f] snoc.prems f(2) by (simp add: Dir_Join)
  moreover have "Join (ws @ [c]) ''/'' \<noteq> ''.''" using Join_dot snoc.prems(1) by blast
  ultimately show ?case unfolding f(1) by (subst parent_dirs.simps) auto
qed

lemma length_le_Join: "\<forall>w \<in> set ws. w \<noteq> [] \<Longrightarrow> length ws \<le> length (Join ws ''/'')"
proof (induction ws rule: induct_list012)
  case (3 w v ws)
  then show ?case by (cases w) auto
qed (auto simp: Suc_le_eq)

lemma parents_of_local:
  assumes "safeRelativePath p"
  obtains ds where "parent_dirs (Suc (length p)) (Dir p) = Some ds"
    "set ds = {Join q ''/'' | q. q \<noteq> [] \<and> strict_prefix q (path_steps p)}"
proof -
  obtain ws where ws: "ws \<noteq> []" "\<forall>w \<in> set ws. plain_component w" "p = Join ws ''/''" "path_steps p = ws"
    using safe_local [OF assms] .
  obtain us c where us: "ws = us @ [c]" using ws(1) by (metis rev_exhaust)
  have "\<forall>w \<in> set ws. w \<noteq> []" using ws(2) by (auto simp: plain_component_def)
  then have "length us \<le> Suc (length p)" using length_le_Join [of ws] ws(3) us by simp
  then obtain ds where ds: "parent_dirs (Suc (length p)) (if us = [] then ''.'' else Join us ''/'') = Some ds"
    "set ds = {Join q ''/'' | q. q \<noteq> [] \<and> prefix q us}"
    using parent_dirs_Join [of us "Suc (length p)"] ws(2) us by auto
  have "prefix q us \<longleftrightarrow> strict_prefix q (path_steps p)" for q
    unfolding ws(4) us by (auto simp: strict_prefix_def)
  then show ?thesis using that ds Dir_Join [of us c] ws(2,3) us by simp
qed

section \<open>Programs that only read\<close>

text \<open>
  A program that only reads leaves the tree alone. When it succeeds, its result has the property,
  and when no call fails by itself, the property alone makes it succeed.
\<close>

definition decides :: "(world, 'e, 'a) io \<Rightarrow> (node \<Rightarrow> 'a \<Rightarrow> bool) \<Rightarrow> bool" where
  "decides m P \<longleftrightarrow> (\<forall>w r w'. m w = (r, w') \<longrightarrow>
     w_tree w' = w_tree w \<and> w_past w' = w_past w \<and> w_fault w' = w_fault w \<and>
     (\<forall>x. r = Inr x \<longrightarrow> P (w_tree w) x) \<and>
     (w_fault w = (\<lambda>_. None) \<longrightarrow> (\<forall>x. P (w_tree w) x \<longrightarrow> r = Inr x)))"

lemma decides_reading: "decides (reading f) (\<lambda>t x. f t = Inr x)"
  by (auto simp: decides_def reading_def split: option.splits)

lemma decides_done: "decides (done_with r) (\<lambda>t x. r = Inr x)"
  by (auto simp: decides_def)

lemma decidesD:
  assumes "decides m P" "m w = (r, w')"
  shows "w_tree w' = w_tree w" "w_past w' = w_past w" "w_fault w' = w_fault w" "r = Inr x \<Longrightarrow> P (w_tree w) x"
    "w_fault w = (\<lambda>_. None) \<Longrightarrow> P (w_tree w) x \<Longrightarrow> r = Inr x"
  using assms unfolding decides_def by blast+

lemma decidesI:
  assumes "\<And>w r w'. m w = (r, w') \<Longrightarrow> w_tree w' = w_tree w \<and> w_past w' = w_past w \<and> w_fault w' = w_fault w"
    and "\<And>w w' x. m w = (Inr x, w') \<Longrightarrow> P (w_tree w) x"
    and "\<And>w r w' x. m w = (r, w') \<Longrightarrow> w_fault w = (\<lambda>_. None) \<Longrightarrow> P (w_tree w) x \<Longrightarrow> r = Inr x"
  shows "decides m P"
  using assms unfolding decides_def by blast

lemma decides_call:
  assumes m: "decides m P" and k: "\<And>x. decides (k x) (Q x)"
  shows "decides (call m wrap k) (\<lambda>t y. \<exists>x. P t x \<and> Q x t y)"
proof (rule decidesI)
  fix w r w' assume "call m wrap k w = (r, w')"
  then show "w_tree w' = w_tree w \<and> w_past w' = w_past w \<and> w_fault w' = w_fault w"
  proof (cases rule: call_cases)
    case (failed e)
    show ?thesis using decidesD(1-3) [OF m failed(1)] by simp
  next
    case (passed x t)
    show ?thesis using decidesD(1-3) [OF m passed(1)] decidesD(1-3) [OF k passed(2)] by simp
  qed
next
  fix w w' y assume "call m wrap k w = (Inr y, w')"
  then obtain x t where x: "m w = (Inr x, t)" "k x t = (Inr y, w')" by (auto simp: call_Inr)
  then show "\<exists>x. P (w_tree w) x \<and> Q x (w_tree w) y"
    using decidesD(4) [OF m x(1) refl] decidesD(4) [OF k x(2) refl] decidesD(1) [OF m x(1)] by auto
next
  fix w r w' y
  assume c: "call m wrap k w = (r, w')" and f: "w_fault w = (\<lambda>_. None)" and ex: "\<exists>x. P (w_tree w) x \<and> Q x (w_tree w) y"
  from ex obtain x where x: "P (w_tree w) x" "Q x (w_tree w) y" by blast
  from c show "r = Inr y"
  proof (cases rule: call_cases)
    case (failed e)
    then show ?thesis using decidesD(5) [OF m failed(1) f x(1)] by simp
  next
    case (passed x' t)
    have "x' = x" using decidesD(5) [OF m passed(1) f x(1)] by simp
    then show ?thesis
      using decidesD(5) [OF k passed(2), of y] decidesD(1,3) [OF m passed(1)] f x(2) by simp
  qed
qed

lemma decides_cong: "decides m P \<Longrightarrow> (\<And>t x. P t x \<longleftrightarrow> Q t x) \<Longrightarrow> decides m Q"
proof -
  assume "decides m P" "\<And>t x. P t x \<longleftrightarrow> Q t x"
  moreover from this(2) have "P = Q" by (intro ext) blast
  ultimately show ?thesis by simp
qed

lemma decides_if: "decides m P \<Longrightarrow> decides m' Q \<Longrightarrow> decides (if b then m else m') (\<lambda>t x. if b then P t x else Q t x)"
  by simp

lemma decides_keeping:
  assumes "decides m P"
  shows "triple (hist J I) m (\<lambda>r. hist J (\<lambda>t. I t \<and> (\<forall>x. r = Inr x \<longrightarrow> P t x)))"
proof (rule tripleI)
  fix w r w' assume h: "hist J I w" and m: "m w = (r, w')"
  show "hist J (\<lambda>t. I t \<and> (\<forall>x. r = Inr x \<longrightarrow> P t x)) w'"
    using h decidesD(1,2) [OF assms m] decidesD(4) [OF assms m] by (simp add: hist_def)
qed

lemmas decides_Lstat = decides_reading [of "\<lambda>t. node_at t ws False" for ws, folded Lstat_def]

lemma file_result:
  "and_then r id (\<lambda>n. case n of File b m \<Rightarrow> Inr b | Symlink target \<Rightarrow> Inl ELOOP | Directory m s es \<Rightarrow> Inl EISDIR) = Inr b
    \<longleftrightarrow> (\<exists>m. r = Inr (File b m))" for r :: "(errno, node) result"
proof (cases r)
  case (Inr n)
  then show ?thesis by (cases n) simp_all
qed simp

lemma decides_ReadFile: "decides (ReadFile ws) (\<lambda>t b. \<exists>m. node_at t ws True = Inr (File b m))"
  unfolding ReadFile_def by (rule decides_cong [OF decides_reading file_result])

lemma decides_WalkDir: "decides (WalkDir ws) (\<lambda>t es. \<exists>n. node_at t ws False = Inr n \<and> es = walk_nodes [] n)"
  unfolding WalkDir_def by (rule decides_cong [OF decides_reading]) (auto simp: and_then_Inr)

section \<open>The loop over the mappings\<close>

definition mapped_ok :: "node \<Rightarrow> string \<Rightarrow> file_map \<Rightarrow> FileMapping \<Rightarrow> bool" where
  "mapped_ok t releaseDir files m \<longleftrightarrow>
     FileMode_Perm (fm_Mode m) \<noteq> 0 \<and>
     (\<exists>info. node_at t (path_steps (PathJoin [releaseDir, fm_Local m])) False = Inr info \<and>
        is_regular info \<and> node_perm info = FileMode_Perm (fm_Mode m)) \<and>
     (\<exists>p. node_at t (path_steps (PathJoin [releaseDir, fm_Local m])) True =
        Inr (File (case map_of files (fm_Remote m) of None \<Rightarrow> [] | Some b \<Rightarrow> b) p))"

lemma decides_verify_mappings:
  assumes "\<forall>m \<in> set ms. safeRelativePath (fm_Local m)"
  shows "decides (verify_mappings releaseDir files expected expectedDirs ms)
    (\<lambda>t (expected', expectedDirs').
       distinct (map fm_Local ms) \<and> (\<forall>m \<in> set ms. fm_Local m \<notin> fst ` set expected \<and> mapped_ok t releaseDir files m) \<and>
       expected' = rev (map (\<lambda>m. (fm_Local m, FileMode_Perm (fm_Mode m))) ms) @ expected \<and>
       expectedDirs' = concat (rev (map (\<lambda>m. the (parent_dirs (Suc (length (fm_Local m))) (Dir (fm_Local m)))) ms)) @ expectedDirs)"
  using assms
proof (induction ms arbitrary: expected expectedDirs)
  case Nil
  show ?case unfolding verify_mappings.simps by (rule decides_cong [OF decides_done]) auto
next
  case (Cons m ms)
  obtain ds where ds: "parent_dirs (Suc (length (fm_Local m))) (Dir (fm_Local m)) = Some ds"
  proof -
    have "safeRelativePath (fm_Local m)" using Cons.prems by simp
    from parents_of_local [OF this] that show thesis by metis
  qed
  note IH = Cons.IH [of "(fm_Local m, FileMode_Perm (fm_Mode m)) # expected" "ds @ expectedDirs"]
  show ?case
    unfolding verify_mappings.simps Let_def ds option.case
    apply (rule decides_cong)
     apply (rule decides_if [OF decides_done] decides_call decides_Lstat decides_ReadFile decides_done IH)+
    using Cons.prems apply simp
    apply (auto simp: mapped_ok_def ds map_of_eq_None_iff split: if_splits)
    subgoal for t info p by (rule exI [of _ info]) (auto, metis imageI)
    done
qed

section \<open>Visiting the tree\<close>

definition visit_ok :: "perm \<Rightarrow> string set \<Rightarrow> string set \<Rightarrow> path \<Rightarrow> node \<Rightarrow> bool" where
  "visit_ok mode expected dirs p n \<longleftrightarrow>
     (if p = [] then is_dir n \<and> node_perm n = mode
      else if is_dir n then node_perm n = mode \<and> Join p ''/'' \<in> dirs
      else Join p ''/'' \<in> expected)"

abbreviation visited_files :: "(path \<times> node) list \<Rightarrow> string list" where
  "visited_files es \<equiv> map (\<lambda>e. Join (fst e) ''/'') (filter (\<lambda>e. fst e \<noteq> [] \<and> \<not> is_dir (snd e)) es)"

lemma visit_entries_Inr:
  assumes "\<forall>e \<in> set es. \<forall>w \<in> set (fst e). plain_component w" and "distinct (map fst es)"
    and "\<forall>e \<in> set es. Join (fst e) ''/'' \<notin> set seen"
  shows "visit_entries mode expected dirs seen es = Inr seen' \<longleftrightarrow>
    (\<forall>e \<in> set es. visit_ok mode (fst ` set expected) (set dirs) (fst e) (snd e)) \<and> seen' = rev (visited_files es) @ seen"
  using assms
proof (induction es arbitrary: seen)
  case (Cons e es)
  obtain p n where e: "e = (p, n)" by (cases e)
  have plain: "\<forall>w \<in> set p. plain_component w" using Cons.prems(1) e by simp
  have dot: "p \<noteq> [] \<Longrightarrow> Join p ''/'' \<noteq> ''.''" using Join_dot [OF plain] by simp
  let ?ok = "visit_ok mode (fst ` set expected) (set dirs) p n"
  let ?seen = "if p \<noteq> [] \<and> \<not> is_dir n then Join p ''/'' # seen else seen"
  have step: "visit_entry mode expected dirs seen p n = Inr s \<longleftrightarrow> ?ok \<and> s = ?seen" for s
  proof -
    define K where "K = fst ` set expected"
    have K: "map_of expected r = None \<longleftrightarrow> r \<notin> K" for r by (simp add: K_def map_of_eq_None_iff)
    have new: "Join p ''/'' \<notin> set seen" using Cons.prems(3) e by simp
    show ?thesis unfolding visit_entry_def visit_ok_def Let_def K K_def [symmetric]
      using dot new by (cases "p = []"; cases "is_dir n") auto
  qed
  have fresh: "\<forall>e \<in> set es. Join (fst e) ''/'' \<notin> set ?seen"
  proof
    fix f assume f: "f \<in> set es"
    then have "fst f \<noteq> p" using Cons.prems(2) e by auto
    then have "Join (fst f) ''/'' \<noteq> Join p ''/''" using Join_inj [of "fst f" p] plain Cons.prems(1) f by simp
    then show "Join (fst f) ''/'' \<notin> set ?seen" using Cons.prems(3) f by simp
  qed
  have IH: "visit_entries mode expected dirs ?seen es = Inr seen' \<longleftrightarrow>
    (\<forall>e \<in> set es. visit_ok mode (fst ` set expected) (set dirs) (fst e) (snd e)) \<and> seen' = rev (visited_files es) @ ?seen"
    using Cons.IH [OF _ _ fresh] Cons.prems(1,2) by simp
  have "visit_entries mode expected dirs seen (e # es) = Inr seen' \<longleftrightarrow>
     ?ok \<and> visit_entries mode expected dirs ?seen es = Inr seen'"
    unfolding e visit_entries.simps and_then_Inr step by auto
  then show ?case unfolding IH using e by auto
qed auto

lemma distinct_walk_nodes: "distinct (map fst (walk_nodes here n))"
proof (induction here n rule: walk_nodes.induct)
  case (1 here n)
  have names: "distinct (map fst (entries n))"
    by (cases n) (simp_all add: comp_def distinct_sorted_keys)
  have "distinct (map fst (concat (map (\<lambda>e. walk_nodes (here @ [fst e]) (snd e)) es)))"
    if "distinct (map fst es)" "set es \<subseteq> set (entries n)" for es
    using that
  proof (induction es)
    case (Cons e es)
    have "fst ` set (walk_nodes (here @ [fst e]) (snd e)) \<inter>
        fst ` set (concat (map (\<lambda>e. walk_nodes (here @ [fst e]) (snd e)) es)) = {}"
      using Cons.prems(1) by (auto simp: set_walk_nodes) (metis fst_conv image_eqI)
    then show ?case using Cons "1.IH" [of e] by simp
  qed simp
  from this [OF names] have "distinct (map fst (concat (map (\<lambda>e. walk_nodes (here @ [fst e]) (snd e)) (entries n))))"
    by simp
  moreover have "here \<notin> fst ` set (concat (map (\<lambda>e. walk_nodes (here @ [fst e]) (snd e)) (entries n)))"
    by (auto simp: set_walk_nodes)
  ultimately show ?case by (subst walk_nodes.simps) simp
qed

section \<open>What the check of a release accepts\<close>

abbreviation expected_files :: "Output \<Rightarrow> (string \<times> perm) list" where
  "expected_files output \<equiv>
     rev (map (\<lambda>m. (fm_Local m, FileMode_Perm (fm_Mode m))) (out_Mappings output)) @ [(digest_name, 384)]"

abbreviation expected_dirs :: "Output \<Rightarrow> string list" where
  "expected_dirs output \<equiv> concat (rev (map (\<lambda>m. the (parent_dirs (Suc (length (fm_Local m))) (Dir (fm_Local m))))
     (out_Mappings output)))"

definition verified :: "node \<Rightarrow> string \<Rightarrow> Material \<Rightarrow> Output \<Rightarrow> bool" where
  "verified t releaseDir material output \<longleftrightarrow>
     (\<exists>b m. node_at t (path_steps (PathJoin [releaseDir, digest_name])) True = Inr (File b m) \<and>
        TrimSpace b = mat_Digest material) \<and>
     (\<exists>info. node_at t (path_steps (PathJoin [releaseDir, digest_name])) False = Inr info \<and>
        is_regular info \<and> node_perm info = 384) \<and>
     distinct (digest_name # map fm_Local (out_Mappings output)) \<and>
     (\<forall>m \<in> set (out_Mappings output). mapped_ok t releaseDir (mat_Files material) m) \<and>
     (\<exists>n seen. node_at t (path_steps releaseDir) False = Inr n \<and>
        visit_entries (FileMode_Perm (out_DirectoryMode output)) (expected_files output) (expected_dirs output) []
          (walk_nodes [] n) = Inr seen \<and> length seen = map_len (expected_files output))"

lemma decides_verifyRelease:
  assumes "\<forall>m \<in> set (out_Mappings output). safeRelativePath (fm_Local m)"
  shows "decides (verifyRelease releaseDir material output) (\<lambda>t u. verified t releaseDir material output)"
proof -
  note loop = decides_verify_mappings [OF assms, of releaseDir "mat_Files material" "[(digest_name, 384)]" "[]"]
  show ?thesis
    unfolding verifyRelease_def Let_def
    apply (rule decides_cong)
     apply (rule decides_call decides_ReadFile)
      apply (rule decides_ReadFile)
     apply (rule decides_if [OF decides_done])
     apply (rule decides_call, rule decides_Lstat)
     apply (rule decides_if [OF decides_done])
     apply (rule decides_call, rule loop)
     apply (simp only: split_beta)
     apply (rule decides_call, rule decides_WalkDir)
     apply (rule decides_call, rule decides_done)
     apply (rule decides_if [OF decides_done decides_done])
    apply (simp add: verified_def ball_conj_distrib image_iff eq_commute [of digest_name] split: if_splits)
    apply blast
    done
qed

definition base :: "path \<Rightarrow> node \<Rightarrow> bool" where
  "base R t \<longleftrightarrow> dir_at R t \<and> unlinked (releases R) t \<and> proper t"

lemma node_at_existing:
  assumes "lookup p t = Some n" "''..'' \<notin> set p" "\<not> is_symlink n \<or> \<not> follow"
  shows "node_at t p follow = Inr n"
proof (cases "p = []")
  case True
  then show ?thesis using assms(1) by (simp add: node_at_def resolve_path_def)
next
  case False
  define d c where "d = butlast p" "c = last p"
  then have p: "p = d @ [c]" using False by simp
  have d: "dir_at d t" using view_above [of t d "[c]"] assms(1) p by (simp add: view_def)
  have "resolve_path t p follow = Inr p"
  proof (cases "is_symlink n")
    case True
    then show ?thesis using resolve_entry [OF d, of c] assms(2,3) p by auto
  next
    case False
    have "resolve_path t p follow = resolve MaxLinks t d [c] follow"
      using resolve_dirs [of "[]" d t MaxLinks "[c]" follow] d assms(2) p by (simp add: resolve_path_def)
    also have "\<dots> = Inr p" using assms(1,2) p False by (cases n) (auto simp: resolve_step view_def)
    finally show ?thesis .
  qed
  then show ?thesis using assms(1) by (simp add: node_at_def)
qed

lemma node_at_linkless:
  assumes "linkless p t" "''..'' \<notin> set (p @ q)" "node_at t (p @ q) follow = Inr n"
  shows "lookup (p @ q) t = Some n"
  using resolve_path_linkless [OF assms(1), of q follow] assms(2,3)
  by (auto simp: node_at_def and_then_Inr split: option.splits)

lemma resolve_unlinked_entry:
  assumes "unlinked d t" "''..'' \<notin> set (d @ [c])" "resolve_path t (d @ [c]) False = Inr p"
  shows "p = d @ [c]"
proof -
  have "resolve links t cur (ws @ [c]) False = Inr p \<Longrightarrow> p = cur @ ws @ [c]"
    if "unlinked (cur @ ws) t" "''..'' \<notin> set (ws @ [c])" for cur ws links
    using that
  proof (induction ws arbitrary: cur)
    case Nil
    then show ?case by (auto simp: resolve_step split: option.splits entry.splits simp del: resolve.simps(2))
  next
    case (Cons w ws)
    have "prefix (cur @ [w]) (cur @ w # ws)" by simp
    then have "view t (cur @ [w]) \<noteq> Some (LinkE x)" for x using Cons.prems(2) unfolding unlinked_def by blast
    then show ?case using Cons.IH [of "cur @ [w]"] Cons.prems
      by (auto simp: resolve_step split: option.splits entry.splits if_splits simp del: resolve.simps(2))
  qed
  from this [of "[]" d MaxLinks] show ?thesis using assms by (simp add: resolve_path_def)
qed

lemma node_at_entry:
  assumes "unlinked d t" "''..'' \<notin> set (d @ [c])" "node_at t (d @ [c]) False = Inr n"
  shows "lookup (d @ [c]) t = Some n"
  using assms resolve_unlinked_entry [OF assms(1,2)] by (auto simp: node_at_def and_then_Inr split: option.splits)

text \<open>Every entry that the walk passes, in terms of the map.\<close>

lemma visits:
  assumes "lookup X t = Some n" "proper t"
  shows "(\<forall>e \<in> set (walk_nodes [] n). \<forall>w \<in> set (fst e). plain_component w) \<and>
    ((\<forall>e \<in> set (walk_nodes [] n). visit_ok mode K D (fst e) (snd e)) \<longleftrightarrow>
     (\<forall>q k. lookup (X @ q) t = Some k \<longrightarrow> visit_ok mode K D q k))"
proof -
  have l: "lookup (X @ q) t = lookup q n" for q using assms(1) by (simp add: lookup_append)
  have "plain_component w" if "lookup q n = Some k" "w \<in> set q" for q k w
  proof -
    have "view t (X @ q) \<noteq> None" using that l by (simp add: view_def)
    then show ?thesis using assms(2) that(2) unfolding proper_def by (metis UnCI set_append)
  qed
  moreover have "e \<in> set (walk_nodes [] n) \<longleftrightarrow> lookup (fst e) n = Some (snd e)" for e
    using set_walk_nodes [of "fst e" "snd e" "[]" n] by simp
  ultimately show ?thesis unfolding l by (metis fst_conv snd_conv)
qed

lemma expected_keys:
  "fst ` set (expected_files output) = insert digest_name (fm_Local ` set (out_Mappings output))"
  by (auto simp: image_iff)

lemma expected_dirs_set:
  assumes "\<forall>m \<in> set (out_Mappings output). safeRelativePath (fm_Local m)"
  shows "set (expected_dirs output) =
    {Join q ''/'' | q. q \<noteq> [] \<and> (\<exists>m \<in> set (out_Mappings output). strict_prefix q (local_steps m))}"
proof -
  have "set (the (parent_dirs (Suc (length (fm_Local m))) (Dir (fm_Local m)))) =
      {Join q ''/'' | q. q \<noteq> [] \<and> strict_prefix q (local_steps m)}" if "m \<in> set (out_Mappings output)" for m
    using parents_of_local [of "fm_Local m"] assms that by (metis (no_types, lifting) option.sel)
  then have "set (expected_dirs output) =
      (\<Union>m \<in> set (out_Mappings output). {Join q ''/'' | q. q \<noteq> [] \<and> strict_prefix q (local_steps m)})"
    by simp
  then show ?thesis by auto
qed

lemma local_plain: "safeRelativePath p \<Longrightarrow> \<forall>w \<in> set (path_steps p). plain_component w"
  and local_Join: "safeRelativePath p \<Longrightarrow> Join (path_steps p) ''/'' = p"
  and local_ne: "safeRelativePath p \<Longrightarrow> path_steps p \<noteq> []"
  by (metis safe_local)+

lemma node_paths:
  assumes "\<forall>w \<in> set X. plain_component w" "\<forall>m \<in> set (out_Mappings output). safeRelativePath (fm_Local m)"
  shows "path_steps (abs_path X) = X"
    "path_steps (PathJoin [abs_path X, digest_name]) = X @ [digest_name]"
    "m \<in> set (out_Mappings output) \<Longrightarrow> path_steps (PathJoin [abs_path X, fm_Local m]) = X @ local_steps m"
proof -
  show "path_steps (abs_path X) = X" using assms(1) by (rule path_steps_abs_path)
  show "path_steps (PathJoin [abs_path X, digest_name]) = X @ [digest_name]"
    using assms(1) by (simp add: steps_PathJoin path_steps_component path_steps_abs_path)
  assume "m \<in> set (out_Mappings output)"
  then have "\<forall>w \<in> set (local_steps m). plain_component w" using assms(2) local_plain by blast
  then show "path_steps (PathJoin [abs_path X, fm_Local m]) = X @ local_steps m"
    using assms(1) by (simp add: steps_PathJoin) (subst path_steps_abs_path, auto)
qed

lemma visit_entry_view:
  "visit_ok mode K D q k \<longleftrightarrow>
     (if q = [] then entry_of k = DirE mode
      else case entry_of k of DirE m \<Rightarrow> m = mode \<and> Join q ''/'' \<in> D
         | FileE b m \<Rightarrow> Join q ''/'' \<in> K | LinkE x \<Rightarrow> Join q ''/'' \<in> K)"
  by (cases k) (auto simp: visit_ok_def)

lemma verified_linkless:
  assumes safe: "\<forall>m \<in> set (out_Mappings output). safeRelativePath (fm_Local m)"
    and X: "\<forall>w \<in> set X. plain_component w" and n: "lookup X t = Some n" "proper t"
    and v: "verified t (abs_path X) material output"
    and visits: "\<And>q k. lookup (X @ q) t = Some k \<Longrightarrow> visit_ok mode (insert digest_name (fm_Local ` set (out_Mappings output))) D q k"
  shows "linkless X t"
proof -
  note paths = node_paths [OF X safe]
  have "view t (X @ q) \<noteq> Some (LinkE x)" for q x
  proof
    assume l: "view t (X @ q) = Some (LinkE x)"
    then have k: "lookup (X @ q) t = Some (Symlink x)" by (simp add: view_Symlink)
    have plain: "\<forall>w \<in> set q. plain_component w" using n(2) l unfolding proper_def
      by (metis UnCI option.distinct(1) set_append)
    then have steps: "path_steps (Join q ''/'') = q" by (simp add: path_steps_Join concat_steps)
    have "\<forall>w \<in> set (X @ q). plain_component w" using plain X by auto
    then have node: "node_at t (X @ q) False = Inr (Symlink x)"
      using node_at_existing [OF k plain_dotdot, of False] by blast
    have "q \<noteq> []" "Join q ''/'' \<in> insert digest_name (fm_Local ` set (out_Mappings output))"
      using visits [OF k] by (auto simp: visit_ok_def split: if_splits)
    then consider "Join q ''/'' = digest_name" | m where "m \<in> set (out_Mappings output)" "Join q ''/'' = fm_Local m"
      by auto
    then show False
    proof cases
      case 1
      then have "q = [digest_name]" using steps by (simp add: path_steps_component)
      then show False using v node unfolding verified_def paths(2) by auto
    next
      case 2
      then have "q = local_steps m" using steps by simp
      moreover have "mapped_ok t (abs_path X) (mat_Files material) m" using v 2(1) by (simp add: verified_def)
      ultimately show False using node unfolding mapped_ok_def paths(3) [OF 2(1)] by auto
    qed
  qed
  moreover have "dir_at X t" using visits [of "[]" n] n(1) by (auto simp: visit_entry_view dir_at_def view_def)
  ultimately show ?thesis by (simp add: linkless_def)
qed

lemma regular_File: "is_regular n \<Longrightarrow> \<exists>b. n = File b (node_perm n)"
  by (cases n) auto

lemma verified_release_ok:
  assumes safe: "\<forall>m \<in> set (out_Mappings output). safeRelativePath (fm_Local m)"
    and base: "base R t" "\<forall>w \<in> set R. plain_component w" and X: "X = releases R @ [c]" "plain_component c"
    and v: "verified t (abs_path X) material output"
  shows "release_ok material output (\<lambda>q. view t (X @ q))"
proof -
  let ?mode = "FileMode_Perm (out_DirectoryMode output)"
  have plain: "\<forall>w \<in> set X. plain_component w" using base(2) X by simp
  note paths = node_paths [OF plain safe]
  obtain n seen where n: "node_at t X False = Inr n"
    and walk: "visit_entries ?mode (expected_files output) (expected_dirs output) [] (walk_nodes [] n) = Inr seen"
    using v paths(1) unfolding verified_def by auto
  have proper: "proper t" using base(1) by (simp add: base_def)
  have n': "lookup X t = Some n"
    using node_at_entry [of "releases R" t c n] n base(1) X plain_dotdot [OF plain] by (simp add: base_def)
  note vis = visits [OF n' proper]
  have visit: "visit_ok ?mode (insert digest_name (fm_Local ` set (out_Mappings output)))
      {Join q ''/'' | q. q \<noteq> [] \<and> (\<exists>m \<in> set (out_Mappings output). strict_prefix q (local_steps m))} q k"
    if "lookup (X @ q) t = Some k" for q k
  proof -
    have "\<forall>e \<in> set (walk_nodes [] n). visit_ok ?mode (fst ` set (expected_files output))
        (set (expected_dirs output)) (fst e) (snd e)"
      using walk visit_entries_Inr [of "walk_nodes [] n" "[]"] vis distinct_walk_nodes [of "[]" n] by simp
    then show ?thesis using vis that unfolding expected_keys expected_dirs_set [OF safe] by blast
  qed
  have ll: "linkless X t" by (rule verified_linkless [OF safe plain n' proper v visit])
  have at: "lookup (X @ q) t = Some k" if "node_at t (X @ q) f = Inr k" "\<forall>w \<in> set q. plain_component w" for q k f
    using node_at_linkless [OF ll _ that(1)] plain_dotdot [of "X @ q"] plain that(2) by auto
  have digest: "\<exists>b. view t (X @ [digest_name]) = Some (FileE b 384) \<and> TrimSpace b = mat_Digest material"
  proof -
    obtain b m where b: "node_at t (X @ [digest_name]) True = Inr (File b m)" "TrimSpace b = mat_Digest material"
      using v paths(2) unfolding verified_def by auto
    obtain info where i: "node_at t (X @ [digest_name]) False = Inr info" "node_perm info = 384"
      using v paths(2) unfolding verified_def by auto
    from at [OF b(1)] at [OF i(1)] i(2) b(2) show ?thesis by (auto simp: view_def)
  qed
  have mapped: "FileMode_Perm (fm_Mode m) \<noteq> 0 \<and>
      view t (X @ local_steps m) = Some (FileE (content_of material m) (FileMode_Perm (fm_Mode m)))"
    if m: "m \<in> set (out_Mappings output)" for m
  proof -
    have ok: "mapped_ok t (abs_path X) (mat_Files material) m" using v m by (simp add: verified_def)
    have lp: "\<forall>w \<in> set (local_steps m). plain_component w" using safe m local_plain by blast
    from ok obtain info p where f: "FileMode_Perm (fm_Mode m) \<noteq> 0" "node_at t (X @ local_steps m) False = Inr info"
      "node_perm info = FileMode_Perm (fm_Mode m)" "node_at t (X @ local_steps m) True = Inr (File (content_of material m) p)"
      unfolding mapped_ok_def paths(3) [OF m] content_of_def by blast
    from at [OF f(2) lp] at [OF f(4) lp] have "info = File (content_of material m) p" by simp
    then show ?thesis using f(1,3) at [OF f(4) lp] by (simp add: view_def)
  qed
  have only: "case e of
       FileE b m \<Rightarrow> p = [digest_name] \<or> (\<exists>m \<in> set (out_Mappings output). p = local_steps m)
     | LinkE x \<Rightarrow> False
     | DirE m \<Rightarrow> m = ?mode \<and> (\<exists>m \<in> set (out_Mappings output). strict_prefix p (local_steps m))"
    if p: "p \<noteq> []" "view t (X @ p) = Some e" for p e
  proof -
    obtain k where k: "lookup (X @ p) t = Some k" "entry_of k = e" using p(2) by (auto simp: view_def)
    have pp: "\<forall>w \<in> set p. plain_component w"
      using proper p(2) unfolding proper_def by (metis UnCI option.distinct(1) set_append)
    have steps: "path_steps (Join p ''/'') = p" using pp by (simp add: path_steps_Join concat_steps)
    have inj: "Join p ''/'' = Join q ''/'' \<and> strict_prefix q (local_steps m) \<Longrightarrow> m \<in> set (out_Mappings output) \<Longrightarrow> p = q" for q m
    proof -
      assume a: "Join p ''/'' = Join q ''/'' \<and> strict_prefix q (local_steps m)" "m \<in> set (out_Mappings output)"
      have "\<forall>w \<in> set (local_steps m). plain_component w" using safe a(2) local_plain by blast
      then have "\<forall>w \<in> set q. plain_component w" using a(1) by (auto simp: strict_prefix_def prefix_def)
      then show "p = q" using Join_inj [OF pp] a(1) by blast
    qed
    have "view t (X @ p) \<noteq> Some (LinkE x)" for x using ll by (simp add: linkless_def)
    then show ?thesis using visit [OF k(1)] p k(2) inj steps
      by (cases e) (auto simp: visit_entry_view path_steps_component)
  qed
  have "view t X = Some (DirE ?mode)"
    using visit [of "[]" n] n' by (simp add: visit_entry_view view_def)
  then show ?thesis using digest mapped only v unfolding release_ok_def verified_def by simp
qed

lemma map_len_expected:
  "distinct (digest_name # map fm_Local (out_Mappings output)) \<Longrightarrow>
     map_len (expected_files output) = Suc (length (out_Mappings output))"
  by (subst map_len_distinct) (auto simp: comp_def rev_map [symmetric])

text \<open>The files that the walk sees are as many as the expected ones.\<close>

lemma visited_count:
  assumes n: "lookup X t = Some n" and vis: "\<forall>e \<in> set (walk_nodes [] n). \<forall>w \<in> set (fst e). plain_component w"
    and dist: "distinct (digest_name # map fm_Local (out_Mappings output))"
    and there: "\<And>s. s \<in> insert digest_name (fm_Local ` set (out_Mappings output)) \<Longrightarrow>
      \<exists>q c m. s = Join q ''/'' \<and> q \<noteq> [] \<and> view t (X @ q) = Some (FileE c m)"
    and only: "\<And>q k. q \<noteq> [] \<Longrightarrow> \<not> is_dir k \<Longrightarrow> lookup (X @ q) t = Some k \<Longrightarrow>
      Join q ''/'' \<in> insert digest_name (fm_Local ` set (out_Mappings output))"
  shows "length (visited_files (walk_nodes [] n)) = Suc (length (out_Mappings output))"
proof -
  let ?es = "walk_nodes [] n" and ?K = "insert digest_name (fm_Local ` set (out_Mappings output))"
  have mem: "e \<in> set ?es \<longleftrightarrow> lookup (fst e) n = Some (snd e)" for e
    using set_walk_nodes [of "fst e" "snd e" "[]" n] by simp
  have look: "lookup (X @ q) t = lookup q n" for q using n by (simp add: lookup_append)
  have "set (visited_files ?es) = ?K"
  proof (intro equalityI subsetI)
    fix s assume "s \<in> set (visited_files ?es)"
    then obtain e where e: "s = Join (fst e) ''/''" "fst e \<noteq> []" "\<not> is_dir (snd e)" "e \<in> set ?es"
      by (auto simp only: set_map set_filter image_iff mem_Collect_eq)
    have "lookup (X @ fst e) t = Some (snd e)" using e(4) unfolding mem look .
    from only [OF e(2,3) this] show "s \<in> ?K" using e(1) by simp
  next
    fix s assume "s \<in> ?K"
    from there [OF this] obtain q c m where q: "s = Join q ''/''" "q \<noteq> []" "view t (X @ q) = Some (FileE c m)"
      by blast
    have "lookup q n = Some (File c m)" using q(3) unfolding view_File [symmetric] look .
    then have "(q, File c m) \<in> set (filter (\<lambda>e. fst e \<noteq> [] \<and> \<not> is_dir (snd e)) ?es)" using q(2) by (simp add: mem)
    then have "Join (fst (q, File c m)) ''/'' \<in> set (visited_files ?es)" unfolding set_map by (rule imageI)
    then show "s \<in> set (visited_files ?es)" using q(1) by simp
  qed
  moreover have "distinct (visited_files ?es)"
  proof (subst distinct_map, intro conjI inj_onI)
    show "distinct (filter (\<lambda>e. fst e \<noteq> [] \<and> \<not> is_dir (snd e)) ?es)"
      using distinct_walk_nodes [of "[]" n] by (simp add: distinct_map)
    fix e f assume e: "e \<in> set (filter (\<lambda>e. fst e \<noteq> [] \<and> \<not> is_dir (snd e)) ?es)"
      and f: "f \<in> set (filter (\<lambda>e. fst e \<noteq> [] \<and> \<not> is_dir (snd e)) ?es)"
      and eq: "Join (fst e) ''/'' = Join (fst f) ''/''"
    have "e \<in> set ?es" "f \<in> set ?es" using e f by simp_all
    then have "fst e = fst f" using vis Join_inj eq by blast
    moreover have "lookup (fst e) n = Some (snd e)" "lookup (fst f) n = Some (snd f)"
      using \<open>e \<in> set ?es\<close> \<open>f \<in> set ?es\<close> by (simp_all only: mem)
    ultimately show "e = f" by (simp add: prod_eq_iff)
  qed
  ultimately have "length (visited_files ?es) = card ?K" using distinct_card [of "visited_files ?es"] by simp
  also have "card ?K = Suc (length (out_Mappings output))"
    using distinct_card [OF dist] by simp
  finally show ?thesis .
qed

lemma release_ok_verified:
  assumes safe: "\<forall>m \<in> set (out_Mappings output). safeRelativePath (fm_Local m)"
    and proper: "proper t" and X: "\<forall>w \<in> set X. plain_component w"
    and ok: "release_ok material output (\<lambda>q. view t (X @ q))"
  shows "verified t (abs_path X) material output"
proof -
  let ?mode = "FileMode_Perm (out_DirectoryMode output)"
  let ?ms = "set (out_Mappings output)"
  note paths = node_paths [OF X safe]
  have root: "view t X = Some (DirE ?mode)"
    and dist: "distinct (digest_name # map fm_Local (out_Mappings output))"
    and mapped: "\<And>m. m \<in> ?ms \<Longrightarrow> FileMode_Perm (fm_Mode m) \<noteq> 0 \<and>
        view t (X @ local_steps m) = Some (FileE (content_of material m) (FileMode_Perm (fm_Mode m)))"
    and only: "\<And>p e. p \<noteq> [] \<Longrightarrow> view t (X @ p) = Some e \<Longrightarrow> (case e of
       FileE b m \<Rightarrow> p = [digest_name] \<or> (\<exists>m \<in> ?ms. p = local_steps m)
     | LinkE x \<Rightarrow> False
     | DirE m \<Rightarrow> m = ?mode \<and> (\<exists>m \<in> ?ms. strict_prefix p (local_steps m)))"
    using ok unfolding release_ok_def by simp_all
  obtain b where b: "view t (X @ [digest_name]) = Some (FileE b 384)" "TrimSpace b = mat_Digest material"
    using ok unfolding release_ok_def by auto
  have at_file: "node_at t (X @ q) f = Inr (File c m)" if "view t (X @ q) = Some (FileE c m)" "\<forall>w \<in> set q. plain_component w" for q c m f
    using node_at_existing [of "X @ q" t "File c m" f] that plain_dotdot [of "X @ q"] X by (auto simp: view_File)
  obtain n where n: "lookup X t = Some n" "entry_of n = DirE ?mode" using root by (auto simp: view_def)
  have vis: "\<forall>e \<in> set (walk_nodes [] n). \<forall>w \<in> set (fst e). plain_component w"
    and visit: "(\<forall>e \<in> set (walk_nodes [] n). visit_ok ?mode K D (fst e) (snd e)) \<longleftrightarrow>
     (\<forall>q k. lookup (X @ q) t = Some k \<longrightarrow> visit_ok ?mode K D q k)" for K D
    using visits [OF n(1) proper] by blast+
  let ?K = "insert digest_name (fm_Local ` ?ms)"
  let ?D = "{Join q ''/'' | q. q \<noteq> [] \<and> (\<exists>m \<in> ?ms. strict_prefix q (local_steps m))}"
  have each: "visit_ok ?mode ?K ?D q k" if k: "lookup (X @ q) t = Some k" for q k
  proof (cases "q = []")
    case True
    then show ?thesis using k n by (simp add: visit_entry_view)
  next
    case False
    have "view t (X @ q) = Some (entry_of k)" using k by (simp add: view_def)
    from only [OF False this] False show ?thesis
      by (cases "entry_of k") (auto simp: visit_entry_view local_Join safe intro!: exI [of _ q])
  qed
  let ?es = "walk_nodes [] n"
  have walk: "visit_entries ?mode (expected_files output) (expected_dirs output) [] ?es = Inr (rev (visited_files ?es))"
  proof -
    have all: "\<forall>e \<in> set ?es. visit_ok ?mode (fst ` set (expected_files output)) (set (expected_dirs output)) (fst e) (snd e)"
      unfolding expected_keys expected_dirs_set [OF safe] visit using each by blast
    have "\<forall>e \<in> set ?es. Join (fst e) ''/'' \<notin> set []" by simp
    from visit_entries_Inr [OF vis distinct_walk_nodes this] all show ?thesis by simp
  qed
  have len: "length (visited_files ?es) = Suc (length (out_Mappings output))"
  proof (rule visited_count [OF n(1) vis dist])
    fix s assume "s \<in> ?K"
    then consider "s = digest_name" | m where "m \<in> ?ms" "s = fm_Local m" by blast
    then show "\<exists>q c m. s = Join q ''/'' \<and> q \<noteq> [] \<and> view t (X @ q) = Some (FileE c m)"
    proof cases
      case 1
      then show ?thesis using b(1) by (intro exI [of _ "[digest_name]"]) simp
    next
      case 2
      then have "safeRelativePath (fm_Local m)" using safe by simp
      then show ?thesis using mapped [OF 2(1)] 2(2) local_Join local_ne by metis
    qed
  next
    fix q k assume "q \<noteq> []" "\<not> is_dir k" "lookup (X @ q) t = Some k"
    then show "Join q ''/'' \<in> ?K" using each [of q k] by (simp add: visit_ok_def)
  qed
  have maps: "mapped_ok t (abs_path X) (mat_Files material) m" if m: "m \<in> ?ms" for m
  proof -
    have lp: "\<forall>w \<in> set (local_steps m). plain_component w" using safe m local_plain by blast
    show ?thesis using mapped [OF m] at_file [OF _ lp] unfolding mapped_ok_def paths(3) [OF m] content_of_def by force
  qed
  have "node_at t X False = Inr n" using node_at_existing [OF n(1)] plain_dotdot [OF X] by simp
  moreover have "node_at t (X @ [digest_name]) f = Inr (File b 384)" for f using at_file [OF b(1)] by simp
  moreover have "length (rev (visited_files ?es)) = map_len (expected_files output)"
    using len map_len_expected [OF dist] by simp
  ultimately show ?thesis
    unfolding verified_def paths(1,2)
    by (intro conjI exI [of _ b] exI [of _ n] exI [of _ "File b 384"] exI [of _ 384]
        exI [of _ "rev (visited_files ?es)"] ballI maps dist walk) (simp_all add: b(2))
qed

section \<open>The current release\<close>

lemma decides_Lstat_attempt:
  assumes k: "\<And>info. decides (k info) (Q info)"
  shows "decides (attempt (Lstat ws) (\<lambda>r. case r of
      Inl e \<Rightarrow> done_with (if e = ENOENT then Inr x0 else Inl (g e)) | Inr info \<Rightarrow> k info))
    (\<lambda>t x. node_at t ws False = Inl ENOENT \<and> x = x0 \<or> (\<exists>n. node_at t ws False = Inr n \<and> Q n t x))"
    (is "decides ?m ?P")
proof (rule decidesI)
  have run: "(\<exists>f. w_fault w (w_tick w) = Some f \<and> r = Inl (g EIO) \<and> w' = tick w) \<or>
      w_fault w (w_tick w) = None \<and> (case node_at (w_tree w) ws False of
        Inl e \<Rightarrow> r = (if e = ENOENT then Inr x0 else Inl (g e)) \<and> w' = tick w
      | Inr n \<Rightarrow> k n (tick w) = (r, w'))" if "?m w = (r, w')" for w r w'
    using that by (auto simp: attempt_eq Lstat_def reading_def split: option.splits sum.splits if_splits)
  show "w_tree w' = w_tree w \<and> w_past w' = w_past w \<and> w_fault w' = w_fault w" if "?m w = (r, w')" for w r w'
    using run [OF that] decidesD(1-3) [OF k, of _ "tick w" r w'] by (auto split: sum.splits)
  show "?P (w_tree w) x" if "?m w = (Inr x, w')" for w w' x
    using run [OF that] decidesD(4) [OF k, of _ "tick w" "Inr x" w' x] by (auto split: sum.splits if_splits)
  show "r = Inr x" if "?m w = (r, w')" "w_fault w = (\<lambda>_. None)" "?P (w_tree w) x" for w r w' x
    using run [OF that(1)] decidesD(5) [OF k, of _ "tick w" r w' x] that(2,3) by (auto split: sum.splits)
qed

lemma decides_Readlink: "decides (Readlink ws) (\<lambda>t x. node_at t ws False = Inr (Symlink x))"
proof -
  have link: "and_then r id (\<lambda>n. case n of Symlink target \<Rightarrow> Inr target | File b m \<Rightarrow> Inl EINVAL
      | Directory m s es \<Rightarrow> Inl EINVAL) = Inr x \<longleftrightarrow> r = Inr (Symlink x)" for r :: "(errno, node) result" and x
  proof (cases r)
    case (Inr n)
    then show ?thesis by (cases n) simp_all
  qed simp
  show ?thesis unfolding Readlink_def by (rule decides_cong [OF decides_reading link])
qed

definition release_of :: "string \<Rightarrow> string \<Rightarrow> bool" where
  "release_of target d \<longleftrightarrow> \<not> IsAbs target \<and> Clean target = target \<and> snd (managedReleaseTarget target) \<and>
     (let release = fst (managedReleaseTarget target) in
      HasPrefix release ''sha256-'' \<and> release \<noteq> ''sha256-'' \<and> \<not> ContainsAny release [CHR ''/'', CHR 0x5C] \<and>
      d = TrimPrefix release ''sha256-'')"

lemma decides_CurrentDigest:
  "decides (CurrentDigest output) (\<lambda>t d.
     let link = path_steps (PathJoin [out_Root output, out_CurrentLink output]) in
     node_at t link False = Inl ENOENT \<and> d = [] \<or>
     (\<exists>target data m. node_at t link False = Inr (Symlink target) \<and> release_of target d \<and> d \<noteq> [] \<and>
        node_at t (path_steps (PathJoin [PathJoin [out_Root output, out_CurrentLink output], ''.pemcast-digest''])) True =
          Inr (File data m) \<and> TrimSpace data = d))"
  unfolding CurrentDigest_def Let_def split_beta
  apply (rule decides_cong)
   apply (rule decides_Lstat_attempt)
   apply (rule decides_if [OF decides_done])
   apply (rule decides_call, rule decides_Readlink)
   apply (rule decides_if [OF decides_done])
   apply (rule decides_if [OF decides_done])
   apply (rule decides_if [OF decides_done])
   apply (rule decides_call, rule decides_ReadFile)
   apply (rule decides_if [OF decides_done decides_done])
  subgoal for t d
    apply (auto simp: release_of_def Let_def split: if_splits)
     apply (drule spec, drule mp, assumption, auto)+
    done
  done

lemma release_of_target: "release_of target d \<longleftrightarrow> d \<noteq> [] \<and> slash \<notin> set d \<and> CHR 0x5C \<notin> set d \<and> target = release_target d"
proof -
  have stem: "PathJoin [managedDirectory, ''releases''] @ ''/'' = ''.pemcast/releases/''" by code_simp
  show ?thesis
  proof
    assume r: "release_of target d"
    let ?release = "TrimPrefix target ''.pemcast/releases/''"
    have "HasPrefix target ''.pemcast/releases/''" "HasPrefix ?release ''sha256-''" "?release \<noteq> ''sha256-''"
      "\<not> ContainsAny ?release [CHR ''/'', CHR 0x5C]" "d = TrimPrefix ?release ''sha256-''"
      using r unfolding release_of_def managedReleaseTarget_def Let_def stem by simp_all
    note f = this
    obtain s where target: "target = ''.pemcast/releases/'' @ s" using f(1) HasPrefix_iff by blast
    have s: "?release = s" unfolding target by (rule TrimPrefix_append)
    obtain e where e: "s = ''sha256-'' @ e" using f(2) unfolding s HasPrefix_iff by blast
    have "d = e" using f(5) unfolding s e TrimPrefix_append .
    moreover have "e \<noteq> []" using f(3) unfolding s e by simp
    moreover have "slash \<notin> set e" "CHR 0x5C \<notin> set e" using f(4) unfolding s e by (simp_all add: ContainsAny_iff)
    moreover have "target = release_target e" unfolding target e by (simp add: release_target_def)
    ultimately show "d \<noteq> [] \<and> slash \<notin> set d \<and> CHR 0x5C \<notin> set d \<and> target = release_target d" by simp
  next
    assume d: "d \<noteq> [] \<and> slash \<notin> set d \<and> CHR 0x5C \<notin> set d \<and> target = release_target d"
    have steps: "path_steps target = [''.pemcast'', ''releases'', release_name d]" using d steps_release_target by simp
    have "\<not> IsAbs target" using d by (simp add: IsAbs_def HasPrefix_iff release_target_def)
    moreover have "Clean target = target" using Clean_steps [of target] steps d calculation
      by (simp add: release_target_def)
    moreover have "managedReleaseTarget target = (''sha256-'' @ d, True)"
      unfolding managedReleaseTarget_def Let_def stem using d by (simp add: release_target_def TrimPrefix_def HasPrefix_iff)
    ultimately show "release_of target d"
      using d by (auto simp: release_of_def HasPrefix_iff ContainsAny_def list_ex_iff TrimPrefix_def)
  qed
qed

end
