(* ===== verification/Deploy_Atomic.thy ===== *)
theory Deploy_Atomic
  imports Deploy_Facts
begin

text \<open>
  What a reader finds below the current link at every moment of an activation. The old release stays
  until one rename makes the link point to the new one, which is complete by then.
\<close>

section \<open>What a reader sees\<close>

text \<open>The entries of the release that the link selects.\<close>

definition served :: "path \<Rightarrow> string \<Rightarrow> node \<Rightarrow> path \<Rightarrow> entry option" where
  "served R link t p =
     (case view t (R @ [link]) of
        Some (LinkE target) \<Rightarrow> view t (R @ path_steps target @ p)
      | Some (FileE b m) \<Rightarrow> None
      | Some (DirE m) \<Rightarrow> None
      | None \<Rightarrow> None)"

text \<open>A release with all mapped files, the digest, and no other file; the modes are left open.\<close>

definition release_content :: "Material \<Rightarrow> Output \<Rightarrow> (path \<Rightarrow> entry option) \<Rightarrow> bool" where
  "release_content material output v \<longleftrightarrow>
     (\<exists>b m. v [digest_name] = Some (FileE b m) \<and> TrimSpace b = mat_Digest material) \<and>
     (\<forall>m \<in> set (out_Mappings output). \<exists>p. v (local_steps m) = Some (FileE (content_of material m) p)) \<and>
     (\<forall>q e. v q = Some e \<longrightarrow> (\<exists>m. e = DirE m) \<or> q = [digest_name] \<or> q \<in> local_steps ` set (out_Mappings output))"

lemma release_ok_content: "release_ok material output v \<Longrightarrow> release_content material output v"
  unfolding release_ok_def release_content_def
  apply (intro conjI)
    apply blast
   apply blast
  apply (intro allI impI)
  subgoal for q e by (cases "q = []"; cases e) (fastforce simp: image_iff)+
  done

section \<open>The old release stays\<close>

definition old :: "path \<Rightarrow> string \<Rightarrow> node \<Rightarrow> node \<Rightarrow> bool" where
  "old R link t0 t \<longleftrightarrow>
     view t (R @ [link]) = view t0 (R @ [link]) \<and>
     (\<forall>x p. view t0 (R @ [link]) = Some (LinkE x) \<longrightarrow> view t (R @ path_steps x @ p) = view t0 (R @ path_steps x @ p))"

lemma old_refl [simp]: "old R link t t"
  by (simp add: old_def)

lemma old_served: "old R link t0 t \<Longrightarrow> served R link t = served R link t0"
  by (rule ext) (auto simp: old_def served_def split: option.split entry.split)

text \<open>A place that neither the link nor the old release nor the way to the releases touches.\<close>

definition apart :: "path \<Rightarrow> string \<Rightarrow> node \<Rightarrow> path \<Rightarrow> bool" where
  "apart R link t0 S \<longleftrightarrow> \<not> prefix S (releases R) \<and> \<not> prefix S (R @ [link]) \<and>
     (\<forall>x p. view t0 (R @ [link]) = Some (LinkE x) \<longrightarrow> \<not> prefix S (R @ path_steps x @ p))"

lemma old_frame: "old R link t0 t \<Longrightarrow> apart R link t0 S \<Longrightarrow> frame S t t' \<Longrightarrow> old R link t0 t'"
  by (auto simp: old_def apart_def frame_def)

lemma dir_at_frame: "dir_at p t \<Longrightarrow> \<not> prefix S p \<Longrightarrow> frame S t t' \<Longrightarrow> dir_at p t'"
  by (simp add: dir_at_def frame_def)

lemma unlinked_frame:
  assumes "unlinked p t" "\<not> prefix S p" "frame S t t'"
  shows "unlinked p t'"
proof -
  have "\<not> prefix S q" if "prefix q p" for q using assms(2) that prefix_order.trans by blast
  then show ?thesis using assms(1,3) by (simp add: unlinked_def frame_def)
qed

lemma proper_update:
  assumes "proper t" "view t' = (view t)(p := e)" "e = None \<or> (\<forall>w \<in> set p. plain_component w)"
  shows "proper t'"
  using assms by (auto simp: proper_def)

lemma frame_update: "view t' = (view t)(p := e) \<Longrightarrow> prefix S p \<Longrightarrow> frame S t t'"
  by (auto simp: frame_def)

definition steady :: "path \<Rightarrow> string \<Rightarrow> node \<Rightarrow> node \<Rightarrow> bool" where
  "steady R link t0 t \<longleftrightarrow> base R t \<and> old R link t0 t \<and> dir_at (releases R) t"

lemma steady_update:
  assumes "steady R link t0 t" "apart R link t0 S" "view t' = (view t)(p := e)" "prefix S p"
    "e = None \<or> (\<forall>w \<in> set p. plain_component w)"
  shows "steady R link t0 t'"
proof -
  have f: "frame S t t'" using assms(3,4) by (rule frame_update)
  have np: "\<not> prefix S (releases R)" using assms(2) by (simp add: apart_def)
  then have nr: "\<not> prefix S R" using prefix_prefix by blast
  have s: "dir_at R t" "unlinked (releases R) t" "proper t" "old R link t0 t" "dir_at (releases R) t"
    using assms(1) by (simp_all add: steady_def base_def)
  have "base R t'" using dir_at_frame [OF s(1) nr f] unlinked_frame [OF s(2) np f] proper_update [OF s(3) assms(3,5)]
    by (simp add: base_def)
  moreover have "dir_at (releases R) t'" by (rule dir_at_frame [OF s(5) np f])
  ultimately show ?thesis using old_frame [OF s(4) assms(2) f] by (simp add: steady_def)
qed

section \<open>Staging\<close>

text \<open>The staging directory holds exactly the files written so far, in directories.\<close>

definition staged :: "path \<Rightarrow> (path \<times> bytes) list \<Rightarrow> node \<Rightarrow> bool" where
  "staged S written t \<longleftrightarrow> dir_at S t \<and> distinct (map fst written) \<and>
     (\<forall>q e. view t (S @ q) = Some e \<longrightarrow> (\<exists>m. e = DirE m) \<or> (\<exists>b m. (q, b) \<in> set written \<and> e = FileE b m)) \<and>
     (\<forall>q b. (q, b) \<in> set written \<longrightarrow> (\<exists>m. view t (S @ q) = Some (FileE b m)))"

definition staging :: "path \<Rightarrow> string \<Rightarrow> node \<Rightarrow> path \<Rightarrow> (path \<times> bytes) list \<Rightarrow> node \<Rightarrow> bool" where
  "staging R link t0 S written t \<longleftrightarrow> steady R link t0 t \<and> staged S written t"

lemma staged_file: "staged S written t \<Longrightarrow> (q, b) \<in> set written \<Longrightarrow> \<exists>m. view t (S @ q) = Some (FileE b m)"
  unfolding staged_def by blast

lemma staged_only: "staged S written t \<Longrightarrow> view t (S @ q) = Some e \<Longrightarrow>
    (\<exists>m. e = DirE m) \<or> (\<exists>b m. (q, b) \<in> set written \<and> e = FileE b m)"
  unfolding staged_def by blast

lemma staged_mkdir:
  assumes "staged S written t" "view t' = (view t)(S @ q \<mapsto> DirE m)" "view t (S @ q) = None"
  shows "staged S written t'"
proof -
  have "q \<noteq> []" using assms(1,3) by (auto simp: staged_def dir_at_def)
  moreover have "(q, b) \<notin> set written" for b using staged_file [OF assms(1)] assms(3) by fastforce
  ultimately show ?thesis using assms unfolding staged_def dir_at_def by auto
qed

lemma staged_new:
  assumes "staged S written t" "view t' = (view t)(S @ q \<mapsto> FileE b m)" "view t (S @ q) = None"
  shows "staged S (written @ [(q, b)]) t'"
proof -
  have "(q, c) \<notin> set written" for c using staged_file [OF assms(1)] assms(3) by fastforce
  then have "q \<notin> fst ` set written" by auto
  moreover have "q \<noteq> []" using assms(1,3) by (auto simp: staged_def dir_at_def)
  ultimately show ?thesis using assms unfolding staged_def dir_at_def by (auto simp: image_iff)
qed

lemma staged_fill:
  assumes "staged S (written @ [(q, b)]) t" "view t' = (view t)(S @ q := map_option (with_data c) (view t (S @ q)))"
  shows "staged S (written @ [(q, b @ c)]) t'"
proof -
  obtain m where m: "view t (S @ q) = Some (FileE b m)" using staged_file [OF assms(1), of q b] by auto
  have "q \<notin> fst ` set written" "q \<noteq> []" using assms(1) m by (auto simp: staged_def dir_at_def)
  moreover have v: "view t' = (view t)(S @ q \<mapsto> FileE (b @ c) m)" using assms(2) m by simp
  moreover have "dir_at S t" "distinct (map fst written)" using assms(1) by (simp_all add: staged_def)
  moreover have "\<exists>m. view t (S @ r) = Some (FileE d m)" "r \<noteq> q" if "(r, d) \<in> set written" for r d
    using assms(1) that \<open>q \<notin> fst ` set written\<close> by (auto simp: staged_def image_iff)
  moreover have "(\<exists>m. e = DirE m) \<or> (\<exists>d m. (r, d) \<in> set written \<and> e = FileE d m)"
    if "r \<noteq> q" "view t (S @ r) = Some e" for r e
    using staged_only [OF assms(1) that(2)] that(1) by auto
  ultimately show ?thesis unfolding staged_def dir_at_def by auto
qed

lemma staged_linkless: "staged S written t \<Longrightarrow> linkless S t"
  unfolding staged_def linkless_def by fastforce

lemma unlinked_append:
  assumes "unlinked p t" "\<And>q x. view t (p @ q) \<noteq> Some (LinkE x)"
  shows "unlinked (p @ r) t"
  unfolding unlinked_def
proof (intro allI impI)
  fix q x assume "prefix q (p @ r)"
  then consider "prefix q p" | s where "q = p @ s" by (auto simp: prefix_append)
  then show "view t q \<noteq> Some (LinkE x)" using assms by cases (auto simp: unlinked_def)
qed

lemma dir_unlinked: "dir_at p t \<Longrightarrow> unlinked p t"
  using dir_at_prefix [of p t] by (fastforce simp: unlinked_def dir_at_def)

lemma staged_unlinked:
  assumes "staged S written t"
  shows "unlinked (S @ q) t"
proof (rule unlinked_append)
  show "unlinked S t" using assms dir_unlinked by (simp add: staged_def)
  show "view t (S @ q) \<noteq> Some (LinkE x)" for q x using staged_linkless [OF assms] by (simp add: linkless_def)
qed

lemma hist_const: "hist J (\<lambda>t. P \<and> I t) = (\<lambda>w. P \<and> hist J I w)"
  by (auto simp: hist_def)

lemma triple_const: "triple (\<lambda>s. P \<and> Q s) m B \<longleftrightarrow> (P \<longrightarrow> triple Q m B)"
  by (auto simp: triple_def)

text \<open>Where a release is staged.\<close>

definition site :: "path \<Rightarrow> string \<Rightarrow> node \<Rightarrow> path \<Rightarrow> bool" where
  "site R link t0 S \<longleftrightarrow> (\<forall>w \<in> set S. plain_component w) \<and> (\<exists>s. S = releases R @ [s]) \<and> apart R link t0 S"

lemma staging_J: "(\<And>t. steady R link t0 t \<Longrightarrow> J t) \<Longrightarrow> staging R link t0 S written t \<Longrightarrow> J t"
  by (simp add: staging_def)

lemma steady_root: "steady R link t0 t \<Longrightarrow> dir_at [] t"
  using dir_at_prefix [of "releases R" t "[]"] by (simp add: steady_def)

lemma triple_writeReleaseFile:
  assumes J: "\<And>t. steady R link t0 t \<Longrightarrow> J t" and site: "site R link t0 S"
    and q: "\<forall>w \<in> set (d @ [c]). plain_component w"
  shows "triple (hist J (staging R link t0 S written)) (writeReleaseFile (abs_path (S @ d @ [c])) content mode dm)
    (\<lambda>r. case r of Inl e \<Rightarrow> hist J (steady R link t0) | Inr u \<Rightarrow> hist J (staging R link t0 S (written @ [(d @ [c], content)])))"
proof -
  have S: "\<forall>w \<in> set S. plain_component w" "apart R link t0 S" using site by (simp_all add: site_def)
  have plain: "\<forall>w \<in> set (S @ d @ [c]). plain_component w" "\<forall>w \<in> set (S @ d). plain_component w"
    using S(1) q by auto
  have steps: "path_steps (abs_path (S @ d @ [c])) = S @ d @ [c]" "path_steps (Dir (abs_path (S @ d @ [c]))) = S @ d"
    using path_steps_abs_path [OF plain(1)] path_steps_abs_path [OF plain(2)] Dir_abs_path [OF plain(2), of c] q
    by simp_all
  let ?I = "staging R link t0 S written" and ?A = "steady R link t0"
  have at: "located (staging R link t0 S w) p f" if "prefix p (S @ d @ [c])" for p f w
  proof (rule located_unlinked)
    show "unlinked p t" if "staging R link t0 S w t" for t
      using that \<open>prefix p (S @ d @ [c])\<close> staged_unlinked unlinked_prefix by (metis staging_def)
    show "''..'' \<notin> set p" using that plain_dotdot [OF plain(1)] set_mono_prefix by blast
  qed
  have rooted: "dir_at [] t" if "staging R link t0 S w t" for t w
    using that by (auto simp: staging_def intro: steady_root)
  have weak: "hist J ?A w" if "hist J (staging R link t0 S v) w" for v w
    using that by (rule hist_mono) (simp add: staging_def)
  have mk: "keeping (hist J ?I) (MkdirAll (S @ d) dm)"
    unfolding MkdirAll_def
  proof (rule triple_post [OF triple_mkdir_parents])
    show "J t" if "?I t" for t using staging_J [OF J that] .
    show "dir_at [] t" if "?I t" for t using rooted that .
    show "located ?I p f" if "prefix p (rev (rev (S @ d)))" for p f using that by (intro at) (metis append.assoc prefix_prefix rev_rev_ident)
    fix t t' p m
    assume I: "?I t" and p: "prefix p (rev (rev (S @ d)))" "view t p = None"
      and t': "view t' = (view t)(p \<mapsto> DirE m)"
    have "\<not> prefix p S" using I p(2) dir_at_prefix by (fastforce simp: staging_def staged_def dir_at_def)
    then obtain r where r: "p = S @ r" using p(1) by (auto simp: prefix_append)
    have "set p \<subseteq> set (S @ d)" by (rule set_mono_prefix) (use p(1) in simp)
    then have "\<forall>w \<in> set p. plain_component w" using plain(2) by blast
    then show "?I t'"
      using I steady_update [of R link t0 t S t' p] S(2) t' r staged_mkdir [of S written t t' r m] p(2)
      by (simp add: staging_def)
  qed (auto elim: hist_mono)
  let ?N = "staging R link t0 S (written @ [(d @ [c], [])])"
  let ?F = "staging R link t0 S (written @ [(d @ [c], content)])"
  have new: "triple (hist J ?I) (OpenNew (S @ d @ [c]) mode)
      (\<lambda>r. case r of Inl e \<Rightarrow> hist J ?I | Inr p \<Rightarrow> hist J (\<lambda>t. p = S @ d @ [c] \<and> ?N t))"
    unfolding OpenNew_def
  proof (rule triple_create)
    show "J t" if "?I t" for t using staging_J [OF J that] .
    show "dir_at [] t" if "?I t" for t using rooted that .
    show "located ?I (S @ d @ [c]) False" by (rule at) simp
    fix w t t'
    assume I: "?I t" and n: "view t (S @ d @ [c]) = None"
      and t': "view t' = (view t)(S @ d @ [c] \<mapsto> entry_of (File [] (masked w mode)))"
    show "?N t'"
      using I steady_update [of R link t0 t S t' "S @ d @ [c]"] S(2) t' plain(1) n
        staged_new [of S written t t' "d @ [c]" "[]" "masked w mode"]
      by (simp add: staging_def)
  qed simp
  have fill: "triple (hist J ?N) (File_Write (S @ d @ [c]) content)
      (\<lambda>r. case r of Inl e \<Rightarrow> hist J ?A | Inr u \<Rightarrow> hist J ?F)"
  proof (rule triple_File_Write)
    show "J t" if "?N t" for t using staging_J [OF J that] .
    have keep: "?A t'" if "?N t" "view t' = (view t)(S @ d @ [c] := map_option (with_data b) (view t (S @ d @ [c])))" for t t' b
      using that(1) steady_update [OF _ S(2) that(2)] plain(1) by (simp add: staging_def)
    show "?A t'" if "?N t" "view t' = (view t)(S @ d @ [c] := map_option (with_data (take k content)) (view t (S @ d @ [c])))" for t t' k
      using keep [OF that] .
    show "?F t'" if "?N t" "view t' = (view t)(S @ d @ [c] := map_option (with_data content) (view t (S @ d @ [c])))" for t t'
      using keep [OF that] that staged_fill [of S written "d @ [c]" "[]" t t' content] by (simp add: staging_def)
  qed
  show ?thesis
    unfolding writeReleaseFile_def steps
    apply (rule triple_call [OF mk])
     apply (simp add: weak)
    apply (rule triple_call [OF new])
     apply (simp add: weak)
    apply (simp only: sum.case hist_const triple_const)
    apply (rule impI, hypsubst)
    apply (rule triple_attempt [OF fill])
    subgoal for u p r
    proof (cases r)
      case (Inl e)
      show ?thesis unfolding Inl sum.case by (rule triple_attempt [OF keeping_reads(8)]) simp
    next
      case (Inr v)
      have "keeping (hist J ?F) (File_Sync (S @ d @ [c]))" by simp
      then show ?thesis unfolding Inr sum.case
        apply (rule triple_attempt)
        subgoal for q
        proof (cases q)
          case (Inl e)
          show ?thesis unfolding Inl sum.case
            by (rule triple_attempt [OF keeping_reads(8)]) (simp add: weak)
        next
          case (Inr v)
          show ?thesis unfolding Inr sum.case
            by (rule triple_post [OF keeping_reads(8)]) (auto simp: weak split: sum.split)
        qed
        done
    qed
    done
qed

lemma steady_J: "(\<And>t. steady R link t0 t \<Longrightarrow> J t) \<Longrightarrow> hist J (staging R link t0 S written) w \<Longrightarrow> hist J (steady R link t0) w"
  by (auto simp: hist_def staging_def)

text \<open>Every file of the mappings goes to the staging directory.\<close>

abbreviation mapped_files :: "Material \<Rightarrow> FileMapping list \<Rightarrow> (path \<times> bytes) list" where
  "mapped_files material ms \<equiv> map (\<lambda>m. (local_steps m, content_of material m)) ms"

lemma triple_write_mapping:
  assumes J: "\<And>t. steady R link t0 t \<Longrightarrow> J t" and site: "site R link t0 S" and safe: "safeRelativePath (fm_Local m)"
  shows "triple (hist J (staging R link t0 S written)) (write_mapping (abs_path S) material output m)
    (\<lambda>r. case r of Inl e \<Rightarrow> hist J (steady R link t0)
       | Inr u \<Rightarrow> hist J (staging R link t0 S (written @ mapped_files material [m])))"
proof (cases "map_of (mat_Files material) (fm_Remote m)")
  case None
  then show ?thesis by (auto simp: write_mapping_def intro: steady_J [OF J])
next
  case (Some content)
  obtain d c where dc: "local_steps m = d @ [c]" using local_ne [OF safe] by (metis rev_exhaust)
  have plain: "\<forall>w \<in> set (d @ [c]). plain_component w" using local_plain [OF safe] dc by simp
  have S: "\<forall>w \<in> set S. plain_component w" using site by (simp add: site_def)
  have path: "PathJoin [abs_path S, fm_Local m] = abs_path (S @ d @ [c])"
    using steps_PathJoin [of S "[fm_Local m]"] S plain dc by simp
  show ?thesis
    unfolding write_mapping_def Some option.case path
    by (rule triple_call [OF triple_writeReleaseFile [OF J site plain]])
      (auto simp: dc content_of_def Some)
qed

lemma triple_write_mappings:
  assumes J: "\<And>t. steady R link t0 t \<Longrightarrow> J t" and site: "site R link t0 S"
    and safe: "\<forall>m \<in> set ms. safeRelativePath (fm_Local m)"
  shows "triple (hist J (staging R link t0 S written)) (each (write_mapping (abs_path S) material output) ms)
    (\<lambda>r. case r of Inl e \<Rightarrow> hist J (steady R link t0)
       | Inr u \<Rightarrow> hist J (staging R link t0 S (written @ mapped_files material ms)))"
  using safe
proof (induction ms arbitrary: written)
  case (Cons m ms)
  show ?case unfolding each.simps
  proof (rule triple_call [OF triple_write_mapping [OF J site]])
    show "safeRelativePath (fm_Local m)" using Cons.prems by simp
    show "triple (case Inr x of Inl e \<Rightarrow> hist J (steady R link t0)
         | Inr u \<Rightarrow> hist J (staging R link t0 S (written @ mapped_files material [m])))
       (each (write_mapping (abs_path S) material output) ms)
       (\<lambda>r. case r of Inl e \<Rightarrow> hist J (steady R link t0)
         | Inr u \<Rightarrow> hist J (staging R link t0 S (written @ mapped_files material (m # ms))))" for x
    proof -
      have eq: "written @ mapped_files material (m # ms) =
          (written @ mapped_files material [m]) @ mapped_files material ms" by simp
      show ?thesis unfolding eq sum.case by (rule Cons.IH) (use Cons.prems in simp)
    qed
  next
    fix e s
    assume "(case Inl e of Inl e \<Rightarrow> hist J (steady R link t0)
         | Inr u \<Rightarrow> hist J (staging R link t0 S (written @ mapped_files material [m]))) s"
    then show "(case Inl (id e) of Inl e \<Rightarrow> hist J (steady R link t0)
         | Inr u \<Rightarrow> hist J (staging R link t0 S (written @ mapped_files material (m # ms)))) s" by simp
  qed
qed simp

section \<open>A digest in its file\<close>

definition digest_text :: "string \<Rightarrow> bool" where
  "digest_text d \<longleftrightarrow> d \<noteq> [] \<and> set d \<subseteq> set ''0123456789abcdef''"

lemma strip_left_first:
  assumes "\<forall>p \<in> set ps. p \<noteq> [] \<and> hd p \<noteq> c"
  shows "strip_left ps (c # cs) = c # cs"
proof -
  have "strip_one ps (c # cs) = None"
    using assms
  proof (induction ps)
    case (Cons p ps)
    then show ?case by (cases p) (auto simp: HasPrefix_iff)
  qed simp
  then show ?thesis by (simp add: strip_left.simps)
qed

lemma hex_not_space:
  "\<forall>c \<in> set ''0123456789abcdef''. \<forall>p \<in> set space_seqs. p \<noteq> [] \<and> hd p \<noteq> c"
  "\<forall>c \<in> set ''0123456789abcdef''. \<forall>p \<in> set (map rev space_seqs). p \<noteq> [] \<and> hd p \<noteq> c"
  by code_simp+

lemma first_strip:
  "strip_one ([CHR 0x09] # [CHR 0x0A] # ps) (CHR 0x0A # s) = Some s"
  by (simp add: HasPrefix_iff)

lemma digest_char: "digest_text d \<Longrightarrow> c \<in> set d \<Longrightarrow> c \<in> set ''0123456789abcdef''"
  unfolding digest_text_def by blast

lemma TrimSpace_digest:
  assumes "digest_text d"
  shows "TrimSpace (d @ [CHR 0x0A]) = d"
proof -
  have "d \<noteq> []" using assms unfolding digest_text_def by blast
  then obtain c cs x xs where d: "d = c # cs" and r: "rev d = x # xs"
    by (metis list.exhaust rev_is_Nil_conv)
  have "c \<in> set d" unfolding d by simp
  note c = digest_char [OF assms this]
  have "x \<in> set (rev d)" unfolding r by simp
  then have "x \<in> set d" unfolding set_rev .
  note x = digest_char [OF assms this]
  have "strip_left space_seqs (d @ [CHR 0x0A]) = d @ [CHR 0x0A]"
    unfolding d append_Cons by (rule strip_left_first [OF bspec [OF hex_not_space(1) c]])
  moreover have "strip_left (map rev space_seqs) (CHR 0x0A # rev d) = rev d"
  proof -
    define ps where "ps = map rev space_seqs"
    have "take 2 ps = [[CHR 0x09], [CHR 0x0A]]" unfolding ps_def by code_simp
    then have ps: "ps = [CHR 0x09] # [CHR 0x0A] # drop 2 ps"
      using append_take_drop_id [of 2 ps] by simp
    have "strip_one (map rev space_seqs) (CHR 0x0A # rev d) = Some (rev d)"
      unfolding ps_def [symmetric] by (subst ps) (rule first_strip)
    then have "strip_left (map rev space_seqs) (CHR 0x0A # rev d) = strip_left (map rev space_seqs) (rev d)"
      by (subst strip_left.simps) (simp only: space_seqs_nonempty(2) if_False option.case)
    also have "strip_left (map rev space_seqs) (rev d) = rev d"
      unfolding r by (rule strip_left_first [OF bspec [OF hex_not_space(2) x]])
    finally show ?thesis .
  qed
  ultimately show ?thesis by (simp only: TrimSpace_def rev_append rev.simps append.simps rev_rev_ident)
qed

lemma digest_plain: "digest_text d \<Longrightarrow> slash \<notin> set d"
  by (auto simp: digest_text_def)

section \<open>Committing a release\<close>

definition ready :: "path \<Rightarrow> string \<Rightarrow> node \<Rightarrow> Material \<Rightarrow> Output \<Rightarrow> node \<Rightarrow> bool" where
  "ready R link t0 material output t \<longleftrightarrow>
     steady R link t0 t \<and>
     release_content material output (\<lambda>q. view t (releases R @ [release_name (mat_Digest material)] @ q))"

lemma ready_steady: "hist J (ready R link t0 material output) w \<Longrightarrow> hist J (steady R link t0) w"
  by (auto simp: hist_def ready_def)

lemma steady_move:
  assumes s: "steady R link t0 t" and ap: "apart R link t0 S" "apart R link t0 X"
    and X: "\<forall>w \<in> set X. plain_component w"
    and t': "\<And>r. view t' r = (if prefix X r then view t (S @ drop (length X) r)
      else if prefix S r then None else view t r)"
  shows "steady R link t0 t'"
proof -
  have other: "view t' r = view t r" if "\<not> prefix X r" "\<not> prefix S r" for r using t' that by simp
  have np: "\<not> prefix S (releases R)" "\<not> prefix X (releases R)" using ap by (simp_all add: apart_def)
  then have up: "\<not> prefix S q" "\<not> prefix X q" if "prefix q (releases R)" for q
    using that prefix_order.trans by blast+
  have R: "prefix R (releases R)" by simp
  have b: "dir_at R t" "unlinked (releases R) t" "proper t" "old R link t0 t" "dir_at (releases R) t"
    using s by (simp_all add: steady_def base_def)
  have "dir_at R t'" "dir_at (releases R) t'" "unlinked (releases R) t'"
    using b other up R by (simp_all add: dir_at_def unlinked_def)
  moreover have "old R link t0 t'" using b(4) ap other by (simp add: old_def apart_def)
  moreover have "proper t'"
    unfolding proper_def
  proof (intro allI impI)
    fix p w assume p: "view t' p \<noteq> None" "w \<in> set p"
    show "plain_component w"
    proof (cases "prefix X p")
      case True
      then obtain q where q: "p = X @ q" by (auto simp: prefix_def)
      then have "view t (S @ q) \<noteq> None" using p(1) t' by simp
      then have "\<forall>w \<in> set (S @ q). plain_component w" using b(3) unfolding proper_def by blast
      then show ?thesis using p(2) q X by auto
    next
      case False
      then have "view t p \<noteq> None" using p(1) t' by (auto split: if_splits)
      then show ?thesis using b(3) p(2) unfolding proper_def by blast
    qed
  qed
  ultimately show ?thesis by (simp add: steady_def base_def)
qed

lemma staged_content:
  assumes "staged S (mapped_files material (out_Mappings output) @ [([digest_name], mat_Digest material @ [CHR 0x0A])]) t"
    and "digest_text (mat_Digest material)"
  shows "release_content material output (\<lambda>q. view t (S @ q))"
  unfolding release_content_def
proof (intro conjI ballI allI impI)
  show "\<exists>b m. view t (S @ [digest_name]) = Some (FileE b m) \<and> TrimSpace b = mat_Digest material"
    using staged_file [OF assms(1), of "[digest_name]"] TrimSpace_digest [OF assms(2)] by fastforce
  show "\<exists>p. view t (S @ local_steps m) = Some (FileE (content_of material m) p)" if "m \<in> set (out_Mappings output)" for m
    using staged_file [OF assms(1), of "local_steps m"] that by fastforce
  show "(\<exists>m. e = DirE m) \<or> q = [digest_name] \<or> q \<in> local_steps ` set (out_Mappings output)"
    if "view t (S @ q) = Some e" for q e
    using staged_only [OF assms(1) that] by auto
qed

lemma triple_verifyRelease:
  assumes safe: "\<forall>m \<in> set (out_Mappings output). safeRelativePath (fm_Local m)"
    and R: "\<forall>w \<in> set R. plain_component w" and d: "digest_text (mat_Digest material)"
    and rd: "rd = abs_path (releases R @ [release_name (mat_Digest material)])"
  shows "triple (hist J (steady R link t0)) (verifyRelease rd material output)
    (\<lambda>r. case r of Inl e \<Rightarrow> hist J (steady R link t0) | Inr u \<Rightarrow> hist J (ready R link t0 material output))"
proof (rule triple_post [OF decides_keeping [OF decides_verifyRelease [OF safe]]])
  fix r and w :: world
  assume h: "hist J (\<lambda>t. steady R link t0 t \<and> (\<forall>x. r = Inr x \<longrightarrow> verified t rd material output)) w"
  have c: "plain_component (release_name (mat_Digest material))" using digest_plain [OF d] by simp
  show "(case r of Inl e \<Rightarrow> hist J (steady R link t0) | Inr u \<Rightarrow> hist J (ready R link t0 material output)) w"
  proof (cases r)
    case (Inr u)
    have "steady R link t0 (w_tree w)" "verified (w_tree w) rd material output" using h Inr by (simp_all add: hist_def)
    then have "ready R link t0 material output (w_tree w)"
      using verified_release_ok [OF safe _ R refl c, of "w_tree w" material] release_ok_content rd
      by (simp add: ready_def steady_def)
    then show ?thesis using h Inr by (simp add: hist_def)
  qed (use h in \<open>auto elim: hist_mono\<close>)
qed

lemma keeping_syncDirectory [simp]: "keeping (hist J I) (syncDirectory p)"
  unfolding syncDirectory_def by (intro keeping_call keeping_attempt) (auto split: sum.split)

lemma keeping_syncDirectoryTree [simp]: "keeping (hist J I) (syncDirectoryTree p)"
  unfolding syncDirectoryTree_def
  by (intro keeping_call keeping_each) (auto split: prod.split)

lemma triple_fill_release:
  assumes J: "\<And>t. steady R link t0 t \<Longrightarrow> J t" and site: "site R link t0 S"
    and safe: "\<forall>m \<in> set (out_Mappings output). safeRelativePath (fm_Local m)"
    and d: "digest_text (mat_Digest material)" and R: "\<forall>w \<in> set R. plain_component w"
    and X: "X = releases R @ [release_name (mat_Digest material)]" "apart R link t0 X"
    and rd: "rd = abs_path X" and ne: "S \<noteq> X"
  shows "triple (hist J (staging R link t0 S [])) (fill_release (abs_path S) rd material output)
    (\<lambda>r. case r of Inl e \<Rightarrow> hist J (steady R link t0) | Inr u \<Rightarrow> hist J (ready R link t0 material output))"
proof -
  let ?A = "steady R link t0" and ?G = "ready R link t0 material output"
  let ?files = "mapped_files material (out_Mappings output)"
  let ?all = "?files @ [([digest_name], mat_Digest material @ [CHR 0x0A])]"
  have S: "\<forall>w \<in> set S. plain_component w" "apart R link t0 S" using site by (simp_all add: site_def)
  obtain s where s: "S = releases R @ [s]" using site by (auto simp: site_def)
  have sd: "plain_component s" using S(1) s by simp
  have c: "plain_component (release_name (mat_Digest material))" using digest_plain [OF d] by simp
  have Xp: "\<forall>w \<in> set X. plain_component w" using X(1) R c by simp
  have steps: "path_steps (abs_path S) = S" "path_steps rd = X"
    using path_steps_abs_path S(1) Xp rd by simp_all
  have dr: "dir_at (releases R) t" if "staging R link t0 S v t" for v t using that by (simp add: staging_def steady_def)
  have dotR: "''..'' \<notin> set (releases R)" using plain_dotdot [of "releases R"] R by simp
  have J': "J t" if "staging R link t0 S v t" for v t using staging_J [OF J that] .
  have weak: "hist J ?A w" if "hist J (staging R link t0 S v) w" for v w using steady_J [OF J that] .
  have chmod: "keeping (hist J (staging R link t0 S [])) (Chmod S mode)" for mode
  proof (rule triple_post [OF triple_Chmod])
    show "J t" if "staging R link t0 S [] t" for t using J' that .
    show "located (staging R link t0 S []) S True"
      by (rule located_unlinked) (use dir_unlinked plain_dotdot S(1) in \<open>auto simp: staging_def staged_def\<close>)
    fix t t' assume st: "staging R link t0 S [] t" and v: "view t' = (view t)(S := map_option (with_perm mode) (view t S))"
    have "steady R link t0 t'" using st steady_update [OF _ S(2) v] S(1) by (simp add: staging_def)
    moreover have "staged S [] t'" using st v by (auto simp: staging_def staged_def dir_at_def)
    ultimately show "staging R link t0 S [] t'" by (simp add: staging_def)
  qed (auto split: sum.splits)
  have wr: "triple (hist J (staging R link t0 S ?files))
      (writeReleaseFile (PathJoin [abs_path S, digest_name]) (mat_Digest material @ [CHR 0x0A]) 384 dm)
      (\<lambda>r. case r of Inl e \<Rightarrow> hist J ?A | Inr u \<Rightarrow> hist J (staging R link t0 S ?all))" for dm
  proof -
    have p: "PathJoin [abs_path S, digest_name] = abs_path (S @ [] @ [digest_name])"
      using steps_PathJoin [of S "[digest_name]"] S(1) by (simp add: path_steps_component)
    show ?thesis unfolding p using triple_writeReleaseFile [OF J site, where d = "[]" and c = digest_name and written = ?files] by simp
  qed
  have rename: "triple (hist J (staging R link t0 S ?all)) (Rename S X)
      (\<lambda>r. case r of Inl e \<Rightarrow> hist J (staging R link t0 S ?all) | Inr u \<Rightarrow> hist J ?G)"
  proof (rule triple_Rename)
    show "J t" if "staging R link t0 S ?all t" for t using J' that .
    show "located (staging R link t0 S ?all) S False" unfolding s
      by (rule located_entry [OF _ dotR]) (use dr s sd in \<open>auto simp: plain_component_def\<close>)
    show "located (staging R link t0 S ?all) X False" unfolding X(1)
      by (rule located_entry [OF _ dotR]) (use dr s in auto)
    show "S \<noteq> []" "X \<noteq> []" "\<not> prefix S X" "\<not> prefix X S" using s X(1) ne by auto
    show "dir_at (butlast X) t" if "staging R link t0 S ?all t" for t using dr [OF that] X(1) by (simp add: butlast_append)
    fix t t' assume st: "staging R link t0 S ?all t"
      and v: "\<And>r. view t' r = (if prefix X r then view t (S @ drop (length X) r)
          else if prefix S r then None else view t r)"
    have "steady R link t0 t'" using st steady_move [OF _ S(2) X(2) Xp v] by (simp add: staging_def)
    moreover have "view t' (X @ q) = view t (S @ q)" for q using v by simp
    moreover have "release_content material output (\<lambda>q. view t (S @ q))"
      using st staged_content [OF _ d] by (simp add: staging_def)
    ultimately show "?G t'" using X(1) by (simp add: ready_def)
  qed
  show ?thesis
    unfolding fill_release_def Let_def steps
    apply (rule triple_call [OF chmod])
     apply (simp add: weak)
    apply (rule triple_call [OF triple_write_mappings [OF J site safe]])
      apply assumption
     apply (simp only: sum.case id_apply)
    apply (simp only: sum.case append_Nil)
    apply (rule triple_call [OF wr])
     apply (simp only: sum.case)
    apply (simp only: sum.case)
    apply (rule triple_call [OF keeping_syncDirectoryTree])
     apply (simp add: weak)
    apply (rule triple_attempt [OF rename])
    subgoal for u1 u2 u3 u4 r
    proof (cases r)
      case (Inl e)
      have v: "triple (hist J (staging R link t0 S ?all)) (verifyRelease rd material output)
          (\<lambda>r. case r of Inl e \<Rightarrow> hist J ?A | Inr u \<Rightarrow> hist J ?G)"
        by (rule triple_pre [OF triple_verifyRelease [OF safe R d]]) (use rd X(1) weak in auto)
      show ?thesis unfolding Inl sum.case
        by (cases "e = EEXIST \<or> e = ENOTEMPTY") (simp_all add: v weak)
    next
      case (Inr u)
      show ?thesis unfolding Inr sum.case
        by (rule triple_call [OF keeping_syncDirectory]) (auto intro: ready_steady)
    qed
    done
qed

text \<open>Removing the staging directory leaves the old release and the new one alone.\<close>

lemma steady_unset:
  "steady R link t0 t \<Longrightarrow> apart R link t0 S \<Longrightarrow> view t' = (view t)(S @ q := None) \<Longrightarrow> steady R link t0 t'"
  by (erule (2) steady_update) simp_all

lemma ready_unset:
  assumes "ready R link t0 material output t" "apart R link t0 S" "view t' = (view t)(S @ q := None)"
    "\<not> prefix S (releases R @ [release_name (mat_Digest material)])"
    "\<not> prefix (releases R @ [release_name (mat_Digest material)]) S"
  shows "ready R link t0 material output t'"
proof -
  let ?X = "releases R @ [release_name (mat_Digest material)]"
  have ne: "S @ q \<noteq> ?X @ r" for r
  proof
    assume eq: "S @ q = ?X @ r"
    have "prefix S (S @ q)" by simp
    moreover have "prefix ?X (S @ q)" unfolding eq by simp
    ultimately have "prefix S ?X \<or> prefix ?X S" using prefix_same_cases by blast
    then show False using assms(4,5) by blast
  qed
  have "view t' (?X @ r) = view t (?X @ r)" for r
    unfolding assms(3) by (rule fun_upd_other) (use ne [of r] in metis)
  then have same: "release_content material output (\<lambda>r. view t' (?X @ r)) = release_content material output (\<lambda>r. view t (?X @ r))" by presburger
  have "steady R link t0 t'" using assms(1) steady_unset [OF _ assms(2,3)] unfolding ready_def by blast
  then show ?thesis using assms(1) same unfolding ready_def append_assoc by simp
qed

lemma keeping_RemoveAll_apart:
  assumes J: "\<And>t. steady R link t0 t \<Longrightarrow> J t" and R: "\<forall>w \<in> set R. plain_component w"
    and S: "S = releases R @ [s]" "s \<noteq> ''..''" "apart R link t0 S"
  shows "keeping (hist J (steady R link t0)) (RemoveAll S)"
    "s \<noteq> release_name (mat_Digest material) \<Longrightarrow> keeping (hist J (ready R link t0 material output)) (RemoveAll S)"
proof -
  have dot: "''..'' \<notin> set (releases R)" using plain_dotdot [of "releases R"] R by simp
  have at: "located I S False" if "\<And>t. I t \<Longrightarrow> steady R link t0 t" for I
    unfolding S(1) by (rule located_entry [OF _ dot S(2)]) (use that in \<open>simp add: steady_def\<close>)
  have ne: "S \<noteq> []" using S(1) by simp
  show "keeping (hist J (steady R link t0)) (RemoveAll S)"
    by (rule keeping_RemoveAll [OF J ne at]) (auto intro: steady_unset [OF _ S(3)])
  assume s: "s \<noteq> release_name (mat_Digest material)"
  show "keeping (hist J (ready R link t0 material output)) (RemoveAll S)"
  proof (rule keeping_RemoveAll [OF _ ne at])
    show "J t" "steady R link t0 t" if "ready R link t0 material output t" for t
      using that J by (simp_all add: ready_def)
    show "ready R link t0 material output t'"
      if "ready R link t0 material output t" "view t' = (view t)(S @ q := None)" for t t' q
      by (rule ready_unset [OF that(1) S(3) that(2)]) (use S(1) s in auto)
  qed
qed

lemma staging_name_steps:
  assumes "\<forall>w \<in> set R. plain_component w"
  shows "path_steps (abs_path (releases R) @ ''/.staging-'' @ format_nat 10 n) = releases R @ [''.staging-'' @ format_nat 10 n]"
proof -
  have "plain_component (''.staging-'' @ format_nat 10 n)"
    using format_nat_no_slash by (simp add: plain_component_def)
  then have "path_steps (''.staging-'' @ format_nat 10 n) = [''.staging-'' @ format_nat 10 n]"
    by (rule path_steps_component)
  moreover have "path_steps (abs_path (releases R)) = releases R" using assms by (simp add: path_steps_abs_path)
  moreover have "abs_path (releases R) @ ''/.staging-'' @ format_nat 10 n =
      abs_path (releases R) @ slash # (''.staging-'' @ format_nat 10 n)" by simp
  ultimately show ?thesis by (simp only: path_steps_append)
qed

lemma staging_plain: "plain_component (''.staging-'' @ format_nat 10 n)"
  using format_nat_no_slash by (simp add: plain_component_def)

text \<open>The link of the tree before the activation is absent or selects another release.\<close>

definition before :: "path \<Rightarrow> string \<Rightarrow> string \<Rightarrow> node \<Rightarrow> bool" where
  "before R link d t0 \<longleftrightarrow> view t0 (R @ [link]) = None \<or>
     (\<exists>d0. view t0 (R @ [link]) = Some (LinkE (release_target d0)) \<and> slash \<notin> set d0 \<and> d0 \<noteq> d)"

lemma before_apart:
  assumes "before R link d t0" and "link \<noteq> ''.pemcast''"
    and "\<And>d0. view t0 (R @ [link]) = Some (LinkE (release_target d0)) \<Longrightarrow> s \<noteq> release_name d0"
  shows "apart R link t0 (releases R @ [s])"
  unfolding apart_def
proof (intro conjI allI impI)
  fix x p assume x: "view t0 (R @ [link]) = Some (LinkE x)"
  then obtain d0 where d0: "x = release_target d0" "slash \<notin> set d0" using assms(1) by (auto simp: before_def)
  have "s \<noteq> release_name d0" using assms(3) x d0(1) by simp
  then show "\<not> prefix (releases R @ [s]) (R @ path_steps x @ p)"
    unfolding d0(1) steps_release_target [OF d0(2)] by simp
qed (use assms(2) in auto)

lemma triple_stage_release:
  assumes J: "\<And>t. steady R link t0 t \<Longrightarrow> J t"
    and safe: "\<forall>m \<in> set (out_Mappings output). safeRelativePath (fm_Local m)"
    and d: "digest_text (mat_Digest material)" and R: "\<forall>w \<in> set R. plain_component w"
    and before: "before R link (mat_Digest material) t0" and link: "link \<noteq> ''.pemcast''"
    and X: "X = releases R @ [release_name (mat_Digest material)]" and rd: "rd = abs_path X"
  shows "triple (hist J (steady R link t0)) (stage_release rd material output)
    (\<lambda>r. case r of Inl e \<Rightarrow> hist J (steady R link t0) | Inr u \<Rightarrow> hist J (ready R link t0 material output))"
proof -
  let ?A = "steady R link t0" and ?G = "ready R link t0 material output"
  let ?stem = "abs_path (releases R) @ ''/.staging-''"
  let ?S = "\<lambda>n. releases R @ [''.staging-'' @ format_nat 10 n]"
  have c: "plain_component (release_name (mat_Digest material))" using digest_plain [OF d] by simp
  have Rp: "\<forall>w \<in> set (releases R). plain_component w" using R by simp
  have dot: "''..'' \<notin> set (releases R)" using plain_dotdot [OF Rp] .
  have steps: "path_steps (?stem @ format_nat 10 n) = ?S n" for n
    using staging_name_steps [OF R] by simp
  have apart: "apart R link t0 (?S n)" for n by (rule before_apart [OF before link]) simp
  have apartX: "apart R link t0 X" unfolding X
    by (rule before_apart [OF before link]) (use before in \<open>auto simp: before_def release_target_def\<close>)
  have site: "site R link t0 (?S n)" for n
    using R staging_plain apart by (auto simp: site_def)
  have dir: "MkdirTemp (Dir rd) ''.staging-'' = mkdir_temp 10000 ?stem"
  proof -
    have "Dir rd = abs_path (releases R)" using Dir_abs_path [OF Rp c] rd X by simp
    moreover have "abs_path (releases R) = abs_path (R @ [''.pemcast'']) @ ''/releases''"
      using Join_append [of "R @ [''.pemcast'']" "[''releases'']" "''/''"] by (simp add: abs_path_def)
    ultimately show ?thesis by (simp add: MkdirTemp_def)
  qed
  have new: "triple (hist J ?A) (mkdir_temp 10000 ?stem)
      (\<lambda>r w. case r of Inl e \<Rightarrow> hist J ?A w
        | Inr name \<Rightarrow> (\<exists>n. name = ?stem @ format_nat 10 n) \<and> hist J (staging R link t0 (path_steps name) []) w)"
  proof (rule triple_mkdir_temp [OF J steady_root])
    show "located ?A (path_steps (?stem @ format_nat 10 n)) False" for n
      unfolding steps by (rule located_entry [OF _ dot]) (simp_all add: steady_def)
    fix t t' m n ws
    assume t: "?A t" "ws = path_steps (?stem @ format_nat 10 n)" "view t ws = None" "view t' = (view t)(ws \<mapsto> DirE m)"
    have ws: "ws = ?S n" using t(2) steps by simp
    have "?A t'" by (rule steady_update [OF t(1) apart t(4)]) (use ws R staging_plain in auto)
    moreover have "view t (ws @ q) = None" for q using t(3) by (rule view_below_absent)
    then have "staged ws [] t'" using t(4) by (auto simp: staged_def dir_at_def)
    ultimately show "staging R link t0 (path_steps (?stem @ format_nat 10 n)) [] t'"
      using t(2) by (simp add: staging_def)
  qed
  show ?thesis
    unfolding stage_release_def dir
  proof (rule triple_call [OF new])
    fix name
    have body: "triple (hist J (staging R link t0 (?S n) [])) (deferring (RemoveAll (?S n))
        (fill_release (?stem @ format_nat 10 n) rd material output))
        (\<lambda>r. case r of Inl e \<Rightarrow> hist J ?A | Inr u \<Rightarrow> hist J ?G)" for n
    proof -
      have name: "?stem @ format_nat 10 n = abs_path (?S n)"
        using Join_append [of "releases R" "[''.staging-'' @ format_nat 10 n]" "''/''"] by (simp add: abs_path_def)
      have ne: "?S n \<noteq> X" using X by simp
      show ?thesis unfolding name
      proof (rule triple_deferring [OF triple_fill_release [OF J site safe d R X apartX rd ne]])
        show "triple ((case r of Inl e \<Rightarrow> hist J ?A | Inr u \<Rightarrow> hist J ?G)) (RemoveAll (?S n))
            (\<lambda>_. case r of Inl e \<Rightarrow> hist J ?A | Inr u \<Rightarrow> hist J ?G)" for r :: "(deploy_error, unit) result"
        proof (cases r)
          case (Inl e)
          show ?thesis unfolding Inl sum.case by (rule keeping_RemoveAll_apart(1) [OF J R refl _ apart]) simp_all
        next
          case (Inr u)
          show ?thesis unfolding Inr sum.case by (rule keeping_RemoveAll_apart(2) [OF J R refl _ apart]) simp_all
        qed
      qed assumption
    qed
    show "triple (\<lambda>w. case (Inr name :: (errno, string) result) of Inl e \<Rightarrow> hist J ?A w
          | Inr name \<Rightarrow> (\<exists>n. name = ?stem @ format_nat 10 n) \<and> hist J (staging R link t0 (path_steps name) []) w)
        (deferring (RemoveAll (path_steps name)) (fill_release name rd material output))
        (\<lambda>r. case r of Inl e \<Rightarrow> hist J ?A | Inr u \<Rightarrow> hist J ?G)"
      unfolding sum.case triple_const
    proof (rule impI)
      assume "\<exists>n. name = ?stem @ format_nat 10 n"
      then obtain n where n: "name = ?stem @ format_nat 10 n" by blast
      show "triple (hist J (staging R link t0 (path_steps name) [])) (deferring (RemoveAll (path_steps name))
          (fill_release name rd material output)) (\<lambda>r. case r of Inl e \<Rightarrow> hist J ?A | Inr u \<Rightarrow> hist J ?G)"
        unfolding n steps by (rule body)
    qed
  qed simp
qed

text \<open>The release directory after \<open>ensureRelease\<close> holds the release, whether it was there or not.\<close>

lemma triple_ensureRelease:
  assumes J: "\<And>t. steady R link t0 t \<Longrightarrow> J t"
    and safe: "\<forall>m \<in> set (out_Mappings output). safeRelativePath (fm_Local m)"
    and d: "digest_text (mat_Digest material)" and R: "\<forall>w \<in> set R. plain_component w"
    and before: "before R link (mat_Digest material) t0" and link: "link \<noteq> ''.pemcast''"
    and rd: "rd = abs_path (releases R @ [release_name (mat_Digest material)])"
  shows "triple (hist J (steady R link t0)) (ensureRelease rd material output)
    (\<lambda>r. case r of Inl e \<Rightarrow> hist J (steady R link t0) | Inr u \<Rightarrow> hist J (ready R link t0 material output))"
  unfolding ensureRelease_def
  apply (rule triple_attempt [OF keeping_reads(1)])
  subgoal for r
    using triple_stage_release [OF J safe d R before link refl rd] triple_verifyRelease [OF safe R d rd]
    by (cases r) auto
  done

end
