(* ===== verification/Deploy_Activate.thy ===== *)
theory Deploy_Activate
  imports Deploy_Atomic
begin

text \<open>
  The switch of the link, the removal of old releases and the whole activation, on top of what
  \<open>Deploy_Atomic\<close> shows of a staged release.
\<close>

section \<open>Switching the link\<close>

text \<open>After the switch the link selects the new release, which is complete.\<close>

definition switched :: "path \<Rightarrow> string \<Rightarrow> Material \<Rightarrow> Output \<Rightarrow> node \<Rightarrow> bool" where
  "switched R link material output t \<longleftrightarrow>
     base R t \<and> dir_at (releases R) t \<and>
     view t (R @ [link]) = Some (LinkE (release_target (mat_Digest material))) \<and>
     release_content material output (\<lambda>q. view t (releases R @ [release_name (mat_Digest material)] @ q))"

lemma base_update:
  assumes "base R t" "\<not> prefix S (releases R)" "view t' = (view t)(p := e)" "prefix S p"
    "e = None \<or> (\<forall>w \<in> set p. plain_component w)"
  shows "base R t'"
proof -
  have f: "frame S t t'" using assms(3,4) by (rule frame_update)
  have nr: "\<not> prefix S R" using assms(2) prefix_prefix by blast
  have s: "dir_at R t" "unlinked (releases R) t" "proper t" using assms(1) by (simp_all add: base_def)
  show ?thesis using dir_at_frame [OF s(1) nr f] unlinked_frame [OF s(2) assms(2) f] proper_update [OF s(3) assms(3,5)]
    by (simp add: base_def)
qed

lemma content_update:
  assumes "view t' = (view t)(p := e)" "prefix S p" "\<not> prefix S X" "\<not> prefix X S"
  shows "view t' (X @ q) = view t (X @ q)"
proof -
  have "X @ q \<noteq> p"
  proof
    assume "X @ q = p"
    then have "prefix X p" by auto
    then show False using assms(2-4) prefix_same_cases by blast
  qed
  then show ?thesis using assms(1) by simp
qed

text \<open>Both what holds before the switch and what holds after it survive changes elsewhere.\<close>

lemma ready_update:
  assumes "ready R link t0 material output t" "apart R link t0 S" "view t' = (view t)(p := e)" "prefix S p"
    "e = None \<or> (\<forall>w \<in> set p. plain_component w)"
    "\<not> prefix S (releases R @ [release_name (mat_Digest material)])"
    "\<not> prefix (releases R @ [release_name (mat_Digest material)]) S"
  shows "ready R link t0 material output t'"
proof -
  have "steady R link t0 t'" using steady_update [OF _ assms(2-5)] assms(1) by (simp add: ready_def)
  then show ?thesis using assms(1) content_update [OF assms(3,4,6,7)] by (simp add: ready_def)
qed

lemma switched_update:
  assumes "switched R link material output t" "view t' = (view t)(p := e)" "prefix S p"
    "e = None \<or> (\<forall>w \<in> set p. plain_component w)"
    "\<not> prefix S (releases R @ [release_name (mat_Digest material)])"
    "\<not> prefix (releases R @ [release_name (mat_Digest material)]) S" "\<not> prefix S (R @ [link])"
  shows "switched R link material output t'"
proof -
  have nr: "\<not> prefix S (releases R)"
  proof
    assume "prefix S (releases R)"
    then have "prefix S (releases R @ [release_name (mat_Digest material)])" using prefix_prefix by blast
    then show False using assms(5) by blast
  qed
  have s: "base R t" "dir_at (releases R) t" "view t (R @ [link]) = Some (LinkE (release_target (mat_Digest material)))"
    using assms(1) by (simp_all add: switched_def)
  have f: "frame S t t'" using assms(2,3) by (rule frame_update)
  have "view t' (R @ [link]) = view t (R @ [link])" using f assms(7) by (rule frameD)
  then show ?thesis
    using base_update [OF s(1) nr assms(2-4)] dir_at_frame [OF s(2) nr f] s(3)
      content_update [OF assms(2,3,5,6)] assms(1)
    by (simp add: switched_def)
qed

lemma switched_move:
  assumes s: "ready R link t0 material output t" "view t T = Some (LinkE (release_target (mat_Digest material)))"
    and T: "T = R @ [s]" "s \<noteq> ''.pemcast''" and link: "plain_component link" "link \<noteq> ''.pemcast''" "R @ [link] \<noteq> T"
    and t': "\<And>r. view t' r = (if prefix (R @ [link]) r then view t (T @ drop (length (R @ [link])) r)
      else if prefix T r then None else view t r)"
    and R: "\<forall>w \<in> set R. plain_component w"
  shows "switched R link material output t'"
proof -
  have other: "view t' r = view t r" if "\<not> prefix (R @ [link]) r" "\<not> prefix T r" for r using t' that by simp
  have up: "\<not> prefix (R @ [link]) q" "\<not> prefix T q" if "prefix q (releases R)" for q
  proof -
    have "prefix (R @ [link]) (releases R) \<or> prefix T (releases R) \<Longrightarrow> False" using T link by auto
    then show "\<not> prefix (R @ [link]) q" "\<not> prefix T q" using that prefix_order.trans by blast+
  qed
  have b: "dir_at R t" "unlinked (releases R) t" "proper t" "dir_at (releases R) t"
    using s(1) by (simp_all add: ready_def steady_def base_def)
  have same: "view t' q = view t q" if "prefix q (releases R)" for q using other up that by blast
  have "view t' R = view t R" "view t' (releases R) = view t (releases R)" by (rule same, simp)+
  then have "dir_at R t'" "dir_at (releases R) t'" using b(1,4) by (simp_all add: dir_at_def)
  moreover have "unlinked (releases R) t'" using b(2) same by (simp add: unlinked_def)
  moreover have "proper t'"
    unfolding proper_def
  proof (intro allI impI)
    fix p w assume p: "view t' p \<noteq> None" "w \<in> set p"
    show "plain_component w"
    proof (cases "prefix (R @ [link]) p")
      case True
      then obtain q where q: "p = (R @ [link]) @ q" by (auto simp: prefix_def)
      then have "view t (T @ q) \<noteq> None" using p(1) t' by simp
      then have "\<forall>w \<in> set (T @ q). plain_component w" using b(3) unfolding proper_def by blast
      then show ?thesis using p(2) q R link(1) by auto
    next
      case False
      then have "view t p \<noteq> None" using p(1) t' by (auto split: if_splits)
      then show ?thesis using b(3) p(2) unfolding proper_def by blast
    qed
  qed
  moreover have "view t' (R @ [link]) = view t T" using t' by simp
  moreover have "view t' (releases R @ x # q) = view t (releases R @ x # q)" for x q
    by (rule other) (use T link in auto)
  ultimately show ?thesis using s by (simp add: switched_def ready_def base_def)
qed

lemma Base_plain: "plain_component c \<Longrightarrow> Base c = c"
proof -
  assume c: "plain_component c"
  then have s: "slash \<notin> set c" "c \<noteq> []" by (simp_all add: plain_component_def)
  then have "strip_slashes c = c" by (cases "rev c") (auto simp: strip_slashes_def)
  then show ?thesis using s by (simp add: Base_def Split_single)
qed

text \<open>The invariant of the calls between the first change of the link and the return.\<close>

abbreviation either :: "path \<Rightarrow> string \<Rightarrow> node \<Rightarrow> Material \<Rightarrow> Output \<Rightarrow> node \<Rightarrow> bool" where
  "either R link t0 material output t \<equiv> steady R link t0 t \<or> switched R link material output t"

lemma keeping_MkdirAll_existing:
  assumes J: "\<And>t. I t \<Longrightarrow> J t" and I: "\<And>t. I t \<Longrightarrow> dir_at R t" and R: "\<forall>w \<in> set R. plain_component w"
  shows "keeping (hist J I) (MkdirAll R mode)"
  unfolding MkdirAll_def
proof (rule triple_post [OF triple_mkdir_parents])
  show "J t" if "I t" for t using J that .
  show "dir_at [] t" if "I t" for t using dir_at_prefix [OF I [OF that]] by simp
  show "located I p follow" if "prefix p (rev (rev R))" for p follow
  proof (rule located_unlinked)
    have p: "prefix p R" using that by simp
    show "unlinked p t" if "I t" for t using unlinked_prefix [OF dir_unlinked [OF I [OF that]] p] .
    show "''..'' \<notin> set p" using plain_dotdot [OF R] set_mono_prefix [OF p] by blast
  qed
  show "I t'" if "I t" "prefix p (rev (rev R))" "view t p = None" for t t' p
  proof -
    have "dir_at p t" using dir_at_prefix [OF I [OF that(1)]] that(2) by simp
    then show ?thesis using that(3) by (simp add: dir_at_def)
  qed
qed (auto elim: hist_mono)

lemma triple_switchSymlink:
  assumes J: "\<And>t. either R link t0 material output t \<Longrightarrow> J t"
    and R: "\<forall>w \<in> set R. plain_component w" and d: "digest_text (mat_Digest material)"
    and link: "plain_component link" "link \<noteq> ''.pemcast''"
    and before: "before R link (mat_Digest material) t0"
    and target: "target = release_target (mat_Digest material)"
  shows "triple (hist J (ready R link t0 material output)) (switchSymlink (abs_path R) link target)
    (\<lambda>r. case r of Inl e \<Rightarrow> hist J (either R link t0 material output)
       | Inr u \<Rightarrow> hist J (switched R link material output))"
proof -
  let ?G = "ready R link t0 material output" and ?H = "switched R link material output"
  let ?B = "either R link t0 material output"
  define s where "s = ''.'' @ link @ ''.pemcast-new''"
  define T where "T = R @ [s]"
  let ?X = "releases R @ [release_name (mat_Digest material)]"
  have len: "length s = length link + 13" by (simp add: s_def)
  have ne: "s \<noteq> ''.pemcast''" "s \<noteq> link" using len link(1) by (auto simp: plain_component_def)
  have sp: "plain_component s" using link(1) by (auto simp: s_def plain_component_def)
  have plain: "\<forall>w \<in> set T. plain_component w" "\<forall>w \<in> set (R @ [link]). plain_component w"
    using R sp link(1) by (auto simp: T_def)
  have steps: "path_steps (PathJoin [abs_path R, ''.'' @ Base link @ ''.pemcast-new'']) = T"
    "path_steps (PathJoin [abs_path R, link]) = R @ [link]"
    "path_steps (Dir (PathJoin [abs_path R, link])) = R"
  proof -
    have "PathJoin [abs_path R, s] = abs_path T" "PathJoin [abs_path R, link] = abs_path (R @ [link])"
      using steps_PathJoin [of R "[s]"] steps_PathJoin [of R "[link]"] R sp link(1)
      by (simp_all add: path_steps_component T_def)
    then show "path_steps (PathJoin [abs_path R, ''.'' @ Base link @ ''.pemcast-new'']) = T"
      "path_steps (PathJoin [abs_path R, link]) = R @ [link]" "path_steps (Dir (PathJoin [abs_path R, link])) = R"
      using path_steps_abs_path [OF plain(1)] path_steps_abs_path [OF plain(2)] path_steps_abs_path [OF R]
        Dir_abs_path [OF R link(1)] Base_plain [OF link(1)]
      by (simp_all add: s_def)
  qed
  have apart: "apart R link t0 T"
    unfolding apart_def
  proof (intro conjI allI impI)
    fix x p assume "view t0 (R @ [link]) = Some (LinkE x)"
    then obtain d0 where d0: "x = release_target d0" "slash \<notin> set d0" using before by (auto simp: before_def)
    show "\<not> prefix T (R @ path_steps x @ p)"
      unfolding d0(1) steps_release_target [OF d0(2)] using ne by (simp add: T_def)
  qed (use ne in \<open>auto simp: T_def\<close>)
  have away: "\<not> prefix T ?X" "\<not> prefix ?X T" "\<not> prefix T (R @ [link])" "\<not> prefix (R @ [link]) T" "R @ [link] \<noteq> T"
    using ne by (auto simp: T_def)
  have GJ: "J t" and GB: "?B t" and GR: "dir_at R t" if "?G t" for t
    using that J by (auto simp: ready_def steady_def base_def)
  have HJ: "J t" and HR: "dir_at R t" if "?H t" for t
    using that J by (auto simp: switched_def base_def)
  have dot: "''..'' \<notin> set R" using plain_dotdot [OF R] .
  have at: "located I T False" "located I (R @ [link]) False" if "\<And>t. I t \<Longrightarrow> dir_at R t" for I
    unfolding T_def by (rule located_entry [OF that dot]; use sp link(1) in \<open>auto simp: plain_component_def\<close>)+
  have remG: "triple (hist J ?G) (Remove T) (\<lambda>r. case r of Inl e \<Rightarrow> hist J ?G | Inr u \<Rightarrow> hist J ?G)"
    by (rule triple_Remove [OF GJ at(1) [OF GR]])
      (use ready_update [OF _ apart _ _ _ away(1,2)] in \<open>auto simp: T_def\<close>)
  have remH: "triple (hist J ?H) (Remove T) (\<lambda>r. case r of Inl e \<Rightarrow> hist J ?H | Inr u \<Rightarrow> hist J ?H)"
    by (rule triple_Remove [OF HJ at(1) [OF HR]])
      (use switched_update [OF _ _ _ _ away(1-3)] in \<open>auto simp: T_def\<close>)
  let ?L = "\<lambda>t. ?G t \<and> view t T = Some (LinkE target)"
  have new: "triple (hist J ?G) (Symlink_call target T)
      (\<lambda>r. case r of Inl e \<Rightarrow> hist J ?G | Inr p \<Rightarrow> hist J (\<lambda>t. p = T \<and> ?L t))"
    unfolding Symlink_call_def
  proof (rule triple_create [OF GJ _ at(1) [OF GR]])
    show "dir_at [] t" if "?G t" for t using dir_at_prefix [OF GR [OF that]] by simp
    fix w :: world and t t' assume t: "?G t" "view t' = (view t)(T \<mapsto> entry_of (Symlink target))"
    show "?L t'" using ready_update [OF t(1) apart t(2) _ _ away(1,2)] plain(1) t(2) by simp
  qed simp_all
  have ren: "triple (hist J ?L) (Rename T (R @ [link])) (\<lambda>r. case r of Inl e \<Rightarrow> hist J ?L | Inr u \<Rightarrow> hist J ?H)"
  proof (rule triple_Rename)
    show "J t" if "?L t" for t using GJ that by blast
    show "located ?L T False" "located ?L (R @ [link]) False" by (rule at, use GR in blast)+
    show "dir_at (butlast (R @ [link])) t" if "?L t" for t using GR that by simp
    show "?H t'" if "?L t" "\<And>r. view t' r = (if prefix (R @ [link]) r then view t (T @ drop (length (R @ [link])) r)
          else if prefix T r then None else view t r)" for t t'
      by (rule switched_move [OF _ _ T_def ne(1) link away(5) that(2) R]) (use that(1) target in auto)
  qed (use away in \<open>auto simp: T_def\<close>)
  have GB': "hist J ?B w" if "hist J ?G w" for w using that GB by (rule hist_mono)
  have LG: "hist J ?G w" if "hist J ?L w" for w using that by (rule hist_mono) blast
  let ?Q = "\<lambda>r. case r of Inl e \<Rightarrow> hist J ?B | Inr u \<Rightarrow> hist J ?H"
  let ?M = "\<lambda>r. case r of Inl e \<Rightarrow> (\<lambda>w. hist J ?G w \<or> hist J ?H w) | Inr u \<Rightarrow> hist J ?H"
  have body: "triple (hist J ?L) (call (Rename T (R @ [link])) id (\<lambda>_. syncDirectory (Dir (PathJoin [abs_path R, link])))) ?M"
  proof (rule triple_call [OF ren])
    show "triple (case Inr x of Inl e \<Rightarrow> hist J ?L | Inr u \<Rightarrow> hist J ?H)
        (syncDirectory (Dir (PathJoin [abs_path R, link]))) ?M" for x :: unit
      unfolding sum.case by (rule triple_post [OF keeping_syncDirectory]) (auto split: sum.split)
  qed (use LG in auto)
  have clean: "triple (?M r) (Remove T) (\<lambda>_. ?Q r)" for r :: "(errno, unit) result"
  proof (cases r)
    case (Inl e)
    have "triple (\<lambda>w. hist J ?G w \<or> hist J ?H w) (Remove T) (\<lambda>_. hist J ?B)"
    proof (rule tripleI)
      fix w q w' assume "hist J ?G w \<or> hist J ?H w" and m: "Remove T w = (q, w')"
      then show "hist J ?B w'"
        using tripleD [OF remG m] tripleD [OF remH m] GB' by (auto split: sum.splits elim: hist_mono)
    qed
    then show ?thesis unfolding Inl sum.case .
  next
    case (Inr u)
    show ?thesis unfolding Inr sum.case by (rule triple_post [OF remH]) (auto split: sum.splits)
  qed
  show ?thesis
    unfolding switchSymlink_def Let_def steps
    apply (rule triple_call [OF keeping_MkdirAll_existing [OF GJ GR R]])
       apply assumption
      apply assumption
     apply (simp add: GB')
    apply (rule triple_attempt [OF remG])
    subgoal for u r
    proof -
      have pre: "triple (hist J ?G) (call (Symlink_call target T) id (\<lambda>_. deferring (Remove T)
         (call (Rename T (R @ [link])) id (\<lambda>_. syncDirectory (Dir (PathJoin [abs_path R, link])))))) ?Q"
      proof (rule triple_call [OF new])
        show "triple (case Inr p of Inl e \<Rightarrow> hist J ?G | Inr p \<Rightarrow> hist J (\<lambda>t. p = T \<and> ?L t))
           (deferring (Remove T) (call (Rename T (R @ [link])) id
              (\<lambda>_. syncDirectory (Dir (PathJoin [abs_path R, link]))))) ?Q" for p
          unfolding sum.case hist_const triple_const
          by (rule impI, rule triple_deferring [OF body clean])
      qed (simp add: GB')
      show ?thesis using pre by (cases r) simp_all
    qed
    done
qed

section \<open>Removing old releases\<close>

lemma triple_inactive:
  assumes "\<And>name entry. (name, entry) \<in> set found \<Longrightarrow> plain_component name"
  shows "triple (hist J I) (inactive_releases dir active found)
    (\<lambda>r w. hist J I w \<and> (\<forall>xs. r = Inr xs \<longrightarrow> (\<forall>x \<in> set xs. plain_component (fst x) \<and> fst x \<noteq> active)))"
  using assms
proof (induction found)
  case (Cons e es)
  obtain name entry where e: "e = (name, entry)" by (cases e)
  have name: "plain_component name" using Cons.prems [of name entry] e by simp
  have IH: "triple (hist J I) (inactive_releases dir active es)
    (\<lambda>r w. hist J I w \<and> (\<forall>xs. r = Inr xs \<longrightarrow> (\<forall>x \<in> set xs. plain_component (fst x) \<and> fst x \<noteq> active)))"
    by (rule Cons.IH) (use Cons.prems in auto)
  show ?case
  proof (cases "\<not> is_dir entry \<or> name = active \<or> \<not> HasPrefix name ''sha256-''")
    case True
    then show ?thesis using IH by (simp add: e)
  next
    case False
    show ?thesis unfolding e inactive_releases.simps if_not_P [OF False]
      apply (rule triple_call [OF keeping_reads(1)], simp)
      apply (rule triple_call [OF IH], simp)
      apply (use name False in auto)
      done
  qed
qed auto

lemma triple_ReadDir:
  "triple (hist J I) (ReadDir ws) (\<lambda>r. hist J (\<lambda>t. I t \<and> (\<forall>es. r = Inr es \<longrightarrow> (\<exists>p n. lookup p t = Some n \<and> es = entries n))))"
proof (rule triple_post)
  show "triple (hist J I) (ReadDir ws) (\<lambda>r. hist J (\<lambda>t. I t \<and> (r = Inl EIO \<or>
      and_then (node_at t ws True) id (\<lambda>n. if is_dir n then Inr (entries n) else Inl ENOTDIR) = r)))"
    unfolding ReadDir_def by (rule triple_reading)
  show "hist J (\<lambda>t. I t \<and> (\<forall>es. r = Inr es \<longrightarrow> (\<exists>p n. lookup p t = Some n \<and> es = entries n))) w"
    if "hist J (\<lambda>t. I t \<and> (r = Inl EIO \<or>
      and_then (node_at t ws True) id (\<lambda>n. if is_dir n then Inr (entries n) else Inl ENOTDIR) = r)) w" for r w
    by (rule hist_mono [OF that]) (auto simp: and_then_Inr node_at_def split: if_splits option.splits, blast)
qed

lemma proper_entries:
  assumes "proper t" "lookup p t = Some n" "(name, k) \<in> set (entries n)"
  shows "plain_component name"
proof -
  have "lookup (p @ [name]) t = Some k" using assms(2,3) by (simp add: lookup_append set_entries)
  then have "view t (p @ [name]) \<noteq> None" by (simp add: view_def)
  then show ?thesis using assms(1) by (auto simp: proper_def)
qed

lemma keeping_pruneReleases:
  assumes J: "\<And>t. switched R link material output t \<Longrightarrow> J t" and R: "\<forall>w \<in> set R. plain_component w"
    and link: "link \<noteq> ''.pemcast''" and sort: "\<And>xs. set (newest_first xs) \<subseteq> set xs"
  shows "keeping (hist J (switched R link material output))
    (pruneReleases newest_first (abs_path (releases R)) (release_name (mat_Digest material)) retain)"
proof -
  let ?H = "switched R link material output" and ?active = "release_name (mat_Digest material)"
  have Rp: "\<forall>w \<in> set (releases R). plain_component w" using R by simp
  have dot: "''..'' \<notin> set (releases R)" using plain_dotdot [OF Rp] .
  have remove: "keeping (hist J ?H) (call (RemoveAll (path_steps (PathJoin [abs_path (releases R), name]))) Os
      (\<lambda>_. done_with (Inr ())))" if name: "plain_component name" "name \<noteq> ?active" for name
  proof -
    have path: "path_steps (PathJoin [abs_path (releases R), name]) = releases R @ [name]"
      using steps_PathJoin [OF Rp, of "[name]"] path_steps_abs_path [of "releases R @ [name]"] Rp name(1)
      by (simp add: path_steps_component)
    have "keeping (hist J ?H) (RemoveAll (releases R @ [name]))"
    proof (rule keeping_RemoveAll [OF J])
      show "located ?H (releases R @ [name]) False"
        by (rule located_entry [OF _ dot]) (use name(1) in \<open>auto simp: switched_def plain_component_def\<close>)
      show "?H t'" if "?H t" "view t' = (view t)((releases R @ [name]) @ q := None)" for t t' q
        by (rule switched_update [OF that]) (use name(2) link in auto)
    qed auto
    then show ?thesis unfolding path by (rule keeping_call) simp
  qed
  have list: "triple (hist J ?H) (ReadDir ws)
      (\<lambda>r w. hist J ?H w \<and> (\<forall>es. r = Inr es \<longrightarrow> (\<forall>(name, k) \<in> set es. plain_component name)))" for ws
  proof (rule triple_post [OF triple_ReadDir])
    show "hist J ?H w \<and> (\<forall>es. r = Inr es \<longrightarrow> (\<forall>(name, k) \<in> set es. plain_component name))"
      if "hist J (\<lambda>t. ?H t \<and> (\<forall>es. r = Inr es \<longrightarrow> (\<exists>p n. lookup p t = Some n \<and> es = entries n))) w" for r w
    proof (intro conjI allI impI)
      fix es assume r: "r = Inr es"
      have h: "?H (w_tree w)" "\<forall>es. r = Inr es \<longrightarrow> (\<exists>p n. lookup p (w_tree w) = Some n \<and> es = entries n)"
        using that unfolding hist_def by blast+
      obtain p n where "lookup p (w_tree w) = Some n" "es = entries n" using h(2) r by blast
      moreover have "proper (w_tree w)" using h(1) by (simp add: switched_def base_def)
      ultimately show "\<forall>(name, k) \<in> set es. plain_component name" using proper_entries by blast
    qed (use that in \<open>auto simp: hist_def\<close>)
  qed
  show ?thesis
    unfolding pruneReleases_def
  proof (rule keeping_call_with [OF list])
    fix found :: "(string \<times> node) list"
    assume "\<forall>(name, k) \<in> set found. plain_component name"
    then have f: "plain_component name" if "(name, k) \<in> set found" for name k using that by blast
    show "keeping (hist J ?H) (call (inactive_releases (abs_path (releases R)) ?active found) id (\<lambda>rs.
       if retain < 0 then done_with (Inl NegativeRetention)
       else each (\<lambda>release. call (RemoveAll (path_steps (PathJoin [abs_path (releases R), fst release]))) Os
              (\<lambda>_. done_with (Inr ()))) (drop (nat retain) (newest_first rs))))"
    proof (rule keeping_call_with [OF triple_inactive [OF f]])
      fix xs :: "(string \<times> int) list"
      assume xs: "\<forall>x \<in> set xs. plain_component (fst x) \<and> fst x \<noteq> ?active"
      have "keeping (hist J ?H) (each (\<lambda>release. call (RemoveAll (path_steps (PathJoin [abs_path (releases R), fst release]))) Os
              (\<lambda>_. done_with (Inr ()))) (drop (nat retain) (newest_first xs)))"
      proof (rule keeping_each)
        fix x assume "x \<in> set (drop (nat retain) (newest_first xs))"
        then have "x \<in> set xs" using sort [of xs] set_drop_subset by fastforce
        then show "keeping (hist J ?H) (call (RemoveAll (path_steps (PathJoin [abs_path (releases R), fst x]))) Os
              (\<lambda>_. done_with (Inr ())))" using remove xs by simp
      qed
      then show "keeping (hist J ?H) (if retain < 0 then done_with (Inl NegativeRetention)
       else each (\<lambda>release. call (RemoveAll (path_steps (PathJoin [abs_path (releases R), fst release]))) Os
              (\<lambda>_. done_with (Inr ()))) (drop (nat retain) (newest_first xs)))" by simp
    qed assumption
  qed
qed

section \<open>Activation\<close>

text \<open>
  What a reader may find at any moment: the release that was active before, or the new release,
  complete.
\<close>

definition old_or_new :: "path \<Rightarrow> string \<Rightarrow> node \<Rightarrow> Material \<Rightarrow> Output \<Rightarrow> node \<Rightarrow> bool" where
  "old_or_new R link t0 material output t \<longleftrightarrow>
     served R link t = served R link t0 \<or>
     view t (R @ [link]) = Some (LinkE (release_target (mat_Digest material))) \<and>
     release_content material output (served R link t)"

lemma served_release:
  assumes "view t (R @ [link]) = Some (LinkE (release_target d))" "slash \<notin> set d"
  shows "served R link t = (\<lambda>q. view t (releases R @ [release_name d] @ q))"
  by (rule ext) (simp add: served_def assms(1) steps_release_target [OF assms(2)])

lemma switched_new: "switched R link material output t \<Longrightarrow> digest_text (mat_Digest material) \<Longrightarrow> old_or_new R link t0 material output t"
  using served_release digest_plain by (simp add: switched_def old_or_new_def)

lemma either_old_or_new:
  "either R link t0 material output t \<Longrightarrow> digest_text (mat_Digest material) \<Longrightarrow> old_or_new R link t0 material output t"
  by (elim disjE) (simp_all add: switched_new, simp add: steady_def old_or_new_def old_served)

lemma keeping_managed:
  assumes J: "\<And>t. base R t \<and> old R link t0 t \<Longrightarrow> J t" and R: "\<forall>w \<in> set R. plain_component w"
    and link: "link \<noteq> ''.pemcast''" and before: "before R link d t0"
  shows "triple (hist J (\<lambda>t. base R t \<and> old R link t0 t)) (MkdirAll (releases R) mode)
    (\<lambda>r. case r of Inl e \<Rightarrow> hist J (\<lambda>t. base R t \<and> old R link t0 t) | Inr u \<Rightarrow> hist J (steady R link t0))"
  unfolding MkdirAll_def
proof (rule triple_post [OF triple_mkdir_parents])
  let ?I = "\<lambda>t. base R t \<and> old R link t0 t"
  have Rp: "\<forall>w \<in> set (releases R). plain_component w" using R by simp
  show "J t" if "?I t" for t using J that .
  show "dir_at [] t" if "?I t" for t using that dir_at_prefix [of R t "[]"] by (simp add: base_def)
  show "located ?I p follow" if "prefix p (rev (rev (releases R)))" for p follow
  proof (rule located_unlinked)
    have p: "prefix p (releases R)" using that by simp
    show "unlinked p t" if "?I t" for t using that p unlinked_prefix by (auto simp: base_def)
    show "''..'' \<notin> set p" using plain_dotdot [OF Rp] set_mono_prefix [OF p] by blast
  qed
  fix t t' p m
  assume I: "?I t" and "prefix p (rev (rev (releases R)))" and none: "view t p = None"
    and t': "view t' = (view t)(p \<mapsto> DirE m)"
  then have p: "prefix p (releases R)" by simp
  have np: "\<not> prefix p R"
  proof
    assume "prefix p R"
    then have "dir_at p t" using I dir_at_prefix [of R t p] by (simp add: base_def)
    then show False using none by (simp add: dir_at_def)
  qed
  have plain: "\<forall>w \<in> set p. plain_component w" using Rp set_mono_prefix [OF p] by blast
  have other: "view t' q = view t q" if "q \<noteq> p" for q using t' that by simp
  have s: "dir_at R t" "unlinked (releases R) t" "proper t" "old R link t0 t" using I by (simp_all add: base_def)
  have "dir_at R t'" using s(1) other [of R] np by (auto simp: dir_at_def)
  moreover have "unlinked (releases R) t'" using s(2) t' by (auto simp: unlinked_def)
  moreover have "proper t'" by (rule proper_update [OF s(3) t']) (use plain in simp)
  moreover have "old R link t0 t'"
  proof -
    have "p \<noteq> R @ [link]" using p link by auto
    moreover have "R @ path_steps x @ q \<noteq> p" if x: "view t0 (R @ [link]) = Some (LinkE x)" for x q
    proof -
      obtain d0 where d0: "x = release_target d0" "slash \<notin> set d0" using before x by (auto simp: before_def)
      have "length p \<le> length (releases R)" using p by (rule prefix_length_le)
      then show ?thesis unfolding d0(1) steps_release_target [OF d0(2)] by auto
    qed
    ultimately show ?thesis using s(4) other by (simp add: old_def)
  qed
  ultimately show "?I t'" by (simp add: base_def)
next
  show "(case r of Inl e \<Rightarrow> hist J (\<lambda>t. base R t \<and> old R link t0 t) | Inr u \<Rightarrow> hist J (steady R link t0)) w"
    if "hist J (\<lambda>t. (base R t \<and> old R link t0 t) \<and> (\<forall>u. r = Inr u \<longrightarrow> dir_at (rev (rev (releases R))) t)) w" for r w
    using that by (cases r) (auto simp: hist_def steady_def)
qed

text \<open>The link as \<open>CurrentDigest\<close> reads it.\<close>

lemma link_of_current:
  assumes "layout output R" "base R t"
    and "let link = path_steps (PathJoin [out_Root output, out_CurrentLink output]) in
     node_at t link False = Inl ENOENT \<and> d = [] \<or>
     (\<exists>target data m. node_at t link False = Inr (Symlink target) \<and> release_of target d \<and> d \<noteq> [] \<and>
        node_at t (path_steps (PathJoin [PathJoin [out_Root output, out_CurrentLink output], ''.pemcast-digest''])) True =
          Inr (File data m) \<and> TrimSpace data = d)"
  shows "view t (R @ [out_CurrentLink output]) = None \<and> d = [] \<or>
    view t (R @ [out_CurrentLink output]) = Some (LinkE (release_target d)) \<and> slash \<notin> set d \<and> d \<noteq> []"
proof -
  let ?L = "R @ [out_CurrentLink output]"
  have l: "\<forall>w \<in> set ?L. plain_component w" "plain_component (out_CurrentLink output)"
    using assms(1) by (simp_all add: layout_def)
  have R: "''..'' \<notin> set R" using plain_dotdot [of R] l(1) by simp
  have steps: "path_steps (PathJoin [out_Root output, out_CurrentLink output]) = ?L"
    using layout_paths(1) [OF assms(1)] path_steps_abs_path [OF l(1)] by simp
  have "dir_at R t" using assms(2) by (simp add: base_def)
  then have "resolve_path t ?L False = Inr ?L"
    using resolve_entry [of R t] R l(2) by (simp add: plain_component_def)
  then have at: "node_at t ?L False = (case lookup ?L t of None \<Rightarrow> Inl ENOENT | Some n \<Rightarrow> Inr n)"
    by (simp add: node_at_def)
  consider "node_at t ?L False = Inl ENOENT" "d = []"
    | x where "node_at t ?L False = Inr (Symlink x)" "release_of x d" "d \<noteq> []"
    using assms(3) unfolding steps Let_def by blast
  then show ?thesis
  proof cases
    case 1
    then show ?thesis using at by (auto simp: view_def split: option.splits)
  next
    case 2
    then have "lookup ?L t = Some (Symlink x)" using at by (auto split: option.splits)
    moreover have "x = release_target d" "slash \<notin> set d" using 2(2) release_of_target by blast+
    ultimately show ?thesis using 2(3) by (simp add: view_def)
  qed
qed


lemma triple_Activate:
  assumes lay: "layout output R" and base: "base R t0" and d: "digest_text (mat_Digest material)"
    and sort: "\<And>xs. set (newest_first xs) \<subseteq> set xs"
  defines "J \<equiv> old_or_new R (out_CurrentLink output) t0 material output"
  shows "triple (hist J (\<lambda>t. t = t0)) (Activate newest_first material output)
    (\<lambda>r. case r of Inl e \<Rightarrow> hist J J
       | Inr a \<Rightarrow> hist J (\<lambda>t. J t \<and> base R t \<and> (\<not> dr_Changed a \<longrightarrow> t = t0) \<and>
           view t (R @ [out_CurrentLink output]) = Some (LinkE (release_target (mat_Digest material))) \<and>
           release_content material output (served R (out_CurrentLink output) t)))"
proof -
  let ?link = "out_CurrentLink output" and ?d = "mat_Digest material"
  let ?X = "releases R @ [release_name ?d]"
  let ?new = "\<lambda>t. view t (R @ [?link]) = Some (LinkE (release_target ?d)) \<and>
      release_content material output (served R ?link t)"
  let ?Q = "\<lambda>r. case r of Inl e \<Rightarrow> hist J J
       | Inr a \<Rightarrow> hist J (\<lambda>t. J t \<and> base R t \<and> (\<not> dr_Changed a \<longrightarrow> t = t0) \<and> ?new t)"
  have ds: "slash \<notin> set ?d" using digest_plain [OF d] .
  have R: "\<forall>w \<in> set R. plain_component w" and lk: "plain_component ?link" "?link \<noteq> ''.pemcast''"
    and safe: "\<forall>m \<in> set (out_Mappings output). safeRelativePath (fm_Local m)" and root: "out_Root output = abs_path R"
    using lay by (simp_all add: layout_def managedDirectory_def)
  have Rp: "\<forall>w \<in> set (releases R). plain_component w" using R by simp
  note paths = layout_paths(1,2) [OF lay] layout_paths(3) [OF lay] layout_paths(4,5) [OF lay ds]
  have J: "J t" if "steady R ?link t0 t" for t
    using either_old_or_new [OF _ d] that unfolding J_def by blast
  have JE: "J t" if "either R ?link t0 material output t" for t
    using either_old_or_new [OF that d] unfolding J_def .
  have JH: "J t" "base R t" "?new t" if "switched R ?link material output t" for t
    using switched_new [OF that d] served_release [OF _ ds, of t R ?link] that unfolding J_def switched_def by simp_all
  have J0: "J t" if "base R t \<and> old R ?link t0 t" for t
    using that old_served unfolding J_def old_or_new_def by blast
  have same: "triple (hist J (\<lambda>t. t = t0 \<and> view t (R @ [?link]) = Some (LinkE (release_target ?d))))
      (call (verifyRelease (abs_path ?X) material output) VerifyActive (\<lambda>_.
       done_with (Inr \<lparr>dr_Changed = False, dr_ReleaseDir = [], dr_CurrentDir = c\<rparr>))) ?Q" for c
  proof (rule triple_call [OF decides_keeping [OF decides_verifyRelease [OF safe]]])
    have X: "plain_component (release_name ?d)" using ds by simp
    have rel: "release_content material output (served R ?link t0)"
      if "verified t0 (abs_path ?X) material output" "view t0 (R @ [?link]) = Some (LinkE (release_target ?d))"
      using release_ok_content [OF verified_release_ok [OF safe base R refl X that(1)]]
      unfolding served_release [OF that(2) ds] append_assoc .
    have "J t0" unfolding J_def old_or_new_def by simp
    then show "?Q (Inl (VerifyActive e)) s"
      if "hist J (\<lambda>t. (t = t0 \<and> view t (R @ [?link]) = Some (LinkE (release_target ?d))) \<and>
        (\<forall>x. Inl e = Inr x \<longrightarrow> verified t (abs_path ?X) material output)) s" for e s
      using that by (auto elim: hist_mono)
    show "triple (hist J (\<lambda>t. (t = t0 \<and> view t (R @ [?link]) = Some (LinkE (release_target ?d))) \<and>
        (\<forall>y. Inr x = Inr y \<longrightarrow> verified t (abs_path ?X) material output)))
      (done_with (Inr \<lparr>dr_Changed = False, dr_ReleaseDir = [], dr_CurrentDir = c\<rparr>)) ?Q" for x :: unit
      using rel \<open>J t0\<close> base by (auto elim!: hist_mono)
  qed
  have change: "triple (hist J (\<lambda>t. t = t0))
      (call (MkdirAll (releases R) mode) CreateReleases (\<lambda>_.
       call (ensureRelease (abs_path ?X) material output) id (\<lambda>_.
       call (switchSymlink (abs_path R) ?link (release_target ?d)) ActivateRelease (\<lambda>_.
       call (pruneReleases newest_first (abs_path (releases R)) (release_name ?d) retain) PruneReleases (\<lambda>_.
       done_with (Inr \<lparr>dr_Changed = True, dr_ReleaseDir = rd, dr_CurrentDir = c\<rparr>)))))) ?Q"
    if before: "before R ?link ?d t0" for mode retain rd c
  proof (rule triple_pre [where P = "hist J (\<lambda>t. base R t \<and> old R ?link t0 t)"])
    have HQ: "hist J J w" if "hist J (switched R ?link material output) w" for w using that JH(1) by (rule hist_mono)
    show "triple (hist J (\<lambda>t. base R t \<and> old R ?link t0 t))
      (call (MkdirAll (releases R) mode) CreateReleases (\<lambda>_.
       call (ensureRelease (abs_path ?X) material output) id (\<lambda>_.
       call (switchSymlink (abs_path R) ?link (release_target ?d)) ActivateRelease (\<lambda>_.
       call (pruneReleases newest_first (abs_path (releases R)) (release_name ?d) retain) PruneReleases (\<lambda>_.
       done_with (Inr \<lparr>dr_Changed = True, dr_ReleaseDir = rd, dr_CurrentDir = c\<rparr>)))))) ?Q"
      apply (rule triple_call [OF keeping_managed [OF J0 R lk(2) before]])
        apply assumption
       apply (simp only: sum.case, erule hist_mono, erule J0)
      apply (simp only: sum.case)
      apply (rule triple_call [OF triple_ensureRelease [OF J safe d R before lk(2) refl]])
        apply assumption
       apply (simp only: sum.case, erule hist_mono, erule J)
      apply (simp only: sum.case)
      apply (rule triple_call [OF triple_switchSymlink [OF JE R d lk before refl]])
        apply assumption
       apply (simp only: sum.case, erule hist_mono, erule JE)
      apply (simp only: sum.case)
      apply (rule triple_call [OF keeping_pruneReleases [OF JH(1) R lk(2) sort]])
        apply assumption
       apply (simp only: sum.case, erule HQ)
      apply (auto elim!: hist_mono dest: JH)
      done
    show "hist J (\<lambda>t. base R t \<and> old R ?link t0 t) w" if "hist J (\<lambda>t. t = t0) w" for w
      using that base by (auto elim!: hist_mono)
  qed
  show ?thesis
    unfolding Activate_def
    apply (rule triple_call [OF decides_keeping [OF decides_CurrentDigest]])
     apply (auto elim!: hist_mono simp: J_def old_or_new_def) []
    subgoal for cur
    proof -
      let ?F = "view t0 (R @ [?link]) = None \<and> cur = [] \<or>
        view t0 (R @ [?link]) = Some (LinkE (release_target cur)) \<and> slash \<notin> set cur \<and> cur \<noteq> []"
      have d_ne: "?d \<noteq> []" using d by (simp add: digest_text_def)
      show ?thesis
      proof (rule triple_pre [where P = "hist J (\<lambda>t. ?F \<and> t = t0)"])
        fix w assume "hist J (\<lambda>t. t = t0 \<and> (\<forall>x. Inr cur = Inr x \<longrightarrow>
            (let link = path_steps (PathJoin [out_Root output, out_CurrentLink output]) in
             node_at t link False = Inl ENOENT \<and> x = [] \<or>
             (\<exists>target data m. node_at t link False = Inr (Symlink target) \<and> release_of target x \<and> x \<noteq> [] \<and>
                node_at t (path_steps (PathJoin [PathJoin [out_Root output, out_CurrentLink output], digest_name])) True =
                  Inr (File data m) \<and> TrimSpace data = x)))) w"
        then show "hist J (\<lambda>t. ?F \<and> t = t0) w"
          by (rule hist_mono) (use link_of_current [OF lay base, of cur] in blast)
      next
        show "triple (hist J (\<lambda>t. ?F \<and> t = t0)) (let currentDir = PathJoin [out_Root output, out_CurrentLink output] in
     if cur = mat_Digest material then
       let releaseDir = PathJoin [out_Root output, managedDirectory, ''releases'', ''sha256-'' @ mat_Digest material] in
       call (verifyRelease releaseDir material output) VerifyActive (\<lambda>_.
       done_with (Inr \<lparr>dr_Changed = False, dr_ReleaseDir = [], dr_CurrentDir = currentDir\<rparr>))
     else
       let managedRoot = PathJoin [out_Root output, managedDirectory];
           releasesRoot = PathJoin [managedRoot, ''releases''];
           releaseName = ''sha256-'' @ mat_Digest material;
           releaseDir = PathJoin [releasesRoot, releaseName] in
       call (MkdirAll (path_steps releasesRoot) (FileMode_Perm (out_DirectoryMode output))) CreateReleases (\<lambda>_.
       call (ensureRelease releaseDir material output) id (\<lambda>_.
       call (switchSymlink (out_Root output) (out_CurrentLink output)
               (PathJoin [managedDirectory, ''releases'', releaseName])) ActivateRelease (\<lambda>_.
       call (pruneReleases newest_first releasesRoot releaseName (out_RetainReleases output)) PruneReleases (\<lambda>_.
       done_with (Inr \<lparr>dr_Changed = True, dr_ReleaseDir = releaseDir, dr_CurrentDir = currentDir\<rparr>)))))) ?Q"
          unfolding hist_const triple_const Let_def paths release_target_join [OF ds] path_steps_abs_path [OF Rp]
        proof (rule impI)
          assume F: ?F
          show "triple (hist J (\<lambda>t. t = t0)) (if cur = mat_Digest material then
              call (verifyRelease (abs_path ?X) material output) VerifyActive (\<lambda>_.
                done_with (Inr \<lparr>dr_Changed = False, dr_ReleaseDir = [], dr_CurrentDir = abs_path (R @ [?link])\<rparr>))
            else call (MkdirAll (releases R) (FileMode_Perm (out_DirectoryMode output))) CreateReleases (\<lambda>_.
              call (ensureRelease (abs_path ?X) material output) id (\<lambda>_.
              call (switchSymlink (out_Root output) ?link (release_target ?d)) ActivateRelease (\<lambda>_.
              call (pruneReleases newest_first (abs_path (releases R)) (release_name ?d) (out_RetainReleases output))
                PruneReleases (\<lambda>_.
              done_with (Inr \<lparr>dr_Changed = True, dr_ReleaseDir = abs_path ?X, dr_CurrentDir = abs_path (R @ [?link])\<rparr>)))))) ?Q"
          proof (cases "cur = ?d")
            case True
            then have "view t0 (R @ [?link]) = Some (LinkE (release_target ?d))" using F d_ne by simp
            then have link: "hist J (\<lambda>t. t = t0 \<and> view t (R @ [?link]) = Some (LinkE (release_target ?d))) w"
              if "hist J (\<lambda>t. t = t0) w" for w
              using that by (auto elim: hist_mono)
            show ?thesis unfolding if_P [OF True] by (rule triple_pre [OF same link])
          next
            case False
            then have "before R ?link ?d t0" using F by (auto simp: before_def)
            from change [OF this] show ?thesis using False root by simp
          qed
        qed
      qed
    qed
    done
qed

end
