(* ===== verification/Seed.thy ===== *)
theory Seed
  imports Deploy_Activate Etcd_Client Pack
begin

text \<open>
  \<open>internal/seed/seed.go\<close>: a pack is checked against one configured target and deployed without etcd. An
  absent \<open>Now\<close> is the clock, as for the zero time of the code.
\<close>

record SeedOptions =
  so_Target :: Target
  so_Pack :: PackResult
  so_Prefix :: string
  so_Force :: bool
  so_Now :: "int option"

record SeedResult =
  sr_Changed :: bool
  sr_Generation :: string
  sr_Digest :: string
  sr_ReleaseDir :: string
  sr_CurrentDir :: string

datatype seed_error =
    SeedPack pack_error
  | SeedPrefix keys_error
  | SeedPrefixMismatch string string
  | SeedTargetMismatch string string
  | SeedTypeMismatch string string
  | SeedDecode bundle_error
  | SeedDigestMismatch
  | SeedCertificates bundle_error
  | SeedPolicy policy_error
  | SeedMissingFile string
  | SeedCurrentDigest deploy_error
  | SeedOtherRelease string string
  | SeedActivate deploy_error

text \<open>The last loop of \<open>Material\<close>.\<close>

fun check_remote :: "file_map \<Rightarrow> FileMapping list \<Rightarrow> (seed_error, unit) result" where
  "check_remote files [] = Inr ()"
| "check_remote files (mapping # ms) =
     (if map_of files (fm_Remote mapping) = None then Inl (SeedMissingFile (fm_Remote mapping))
      else check_remote files ms)"

definition Seed_Material :: "crypto \<Rightarrow> int \<Rightarrow> SeedOptions \<Rightarrow> (seed_error, Material) result" where
  "Seed_Material L clock options =
     (let target = so_Target options;
          now = (case so_Now options of None \<Rightarrow> clock | Some t \<Rightarrow> t) in
      and_then (Pack_Validate L (so_Pack options)) SeedPack (\<lambda>_.
      and_then (NewKeys (so_Prefix options)) SeedPrefix (\<lambda>keys.
      let metadata = pr_Metadata (so_Pack options) in
      if md_EtcdPrefix metadata \<noteq> Keys_Prefix keys
      then Inl (SeedPrefixMismatch (md_EtcdPrefix metadata) (Keys_Prefix keys))
      else if md_TargetID metadata \<noteq> tg_ID target then Inl (SeedTargetMismatch (md_TargetID metadata) (tg_ID target))
      else if md_Type metadata \<noteq> tg_Type target then Inl (SeedTypeMismatch (md_Type metadata) (tg_Type target))
      else
        and_then (Decode L (pr_Bundle (so_Pack options))) SeedDecode (\<lambda>(manifest, files, digest).
        if digest \<noteq> md_BundleSHA256 metadata then Inl SeedDigestMismatch
        else
          and_then (Manifest_ValidateFiles L manifest files) SeedCertificates (\<lambda>(certificates, leaf).
          let material = \<lparr>mat_TargetID = tg_ID target, mat_Generation = md_Generation metadata, mat_Revision = 0,
                mat_Manifest = manifest, mat_Files = files, mat_Digest = digest,
                mat_Certificates = map Some certificates, mat_Leaf = leaf\<rparr> in
          and_then (ValidatePolicy L clock (Some material)
              \<lparr>pol_Now = Some now, pol_RejectExpired = va_RejectExpired (tg_Validation target),
               pol_MinimumValidity = va_MinimumValidity (tg_Validation target),
               pol_ServerNames = va_ServerNames (tg_Validation target)\<rparr>) SeedPolicy (\<lambda>_.
          and_then (check_remote files (out_Mappings (tg_Output target))) id (\<lambda>_.
          Inr material)))))))"

definition Seed_Apply ::
  "((string \<times> int) list \<Rightarrow> (string \<times> int) list) \<Rightarrow> crypto \<Rightarrow> int \<Rightarrow> SeedOptions \<Rightarrow> (world, seed_error, SeedResult) io" where
  "Seed_Apply newest_first L clock options =
     call (done_with (Seed_Material L clock options)) id (\<lambda>material.
     call (CurrentDigest (tg_Output (so_Target options))) SeedCurrentDigest (\<lambda>currentDigest.
     if currentDigest \<noteq> [] \<and> currentDigest \<noteq> mat_Digest material \<and> \<not> so_Force options
     then done_with (Inl (SeedOtherRelease currentDigest (mat_Digest material)))
     else
       call (Activate newest_first material (tg_Output (so_Target options))) SeedActivate (\<lambda>activation.
       done_with (Inr \<lparr>sr_Changed = dr_Changed activation, sr_Generation = mat_Generation material,
         sr_Digest = mat_Digest material, sr_ReleaseDir = dr_ReleaseDir activation,
         sr_CurrentDir = dr_CurrentDir activation\<rparr>))))"

section \<open>What a seed is\<close>

lemma check_remote_ok: "is_ok (check_remote files ms) \<longleftrightarrow> (\<forall>m \<in> set ms. map_of files (fm_Remote m) \<noteq> None)"
  by (induction ms) auto

text \<open>The material of a pack is the one that the agent would read from etcd under the same generation.\<close>

lemma Seed_Material_fetched:
  assumes L: "crypto_ok L" and m: "Seed_Material L clock options = Inr material"
  shows "materialFromValue L (tg_ID (so_Target options)) (mat_Generation material) (pr_Bundle (so_Pack options)) revision =
      Inr (material\<lparr>mat_Revision := revision\<rparr>)"
    "mat_Generation material = Generation (mat_Digest material)"
    "m_Type (mat_Manifest material) = tg_Type (so_Target options)"
    "\<forall>mapping \<in> set (out_Mappings (tg_Output (so_Target options))). map_of (mat_Files material) (fm_Remote mapping) \<noteq> None"
proof -
  let ?p = "so_Pack options"
  have v: "is_ok (Pack_Validate L ?p)" using m by (cases "Pack_Validate L ?p") (simp_all add: Seed_Material_def Let_def)
  then obtain keys man files where p: "valid_pack L ?p keys man files" using Pack_Validate_ok [OF L] by blast
  let ?d = "ManifestDigest L man files"
  have dec: "Decode L (pr_Bundle ?p) = Inr (man, files, ?d)" "md_Generation (pr_Metadata ?p) = Generation ?d"
    "md_Type (pr_Metadata ?p) = m_Type man"
    using p by (simp_all add: valid_pack_def Let_def)
  obtain certs leaf where f: "Manifest_ValidateFiles L man files = Inr (certs, leaf)"
    and mat: "material = \<lparr>mat_TargetID = tg_ID (so_Target options), mat_Generation = Generation ?d, mat_Revision = 0,
       mat_Manifest = man, mat_Files = files, mat_Digest = ?d, mat_Certificates = map Some certs, mat_Leaf = leaf\<rparr>"
    and ty: "m_Type man = tg_Type (so_Target options)"
    and re: "is_ok (check_remote files (out_Mappings (tg_Output (so_Target options))))"
    using m dec unfolding Seed_Material_def Let_def and_then_Inr
    by (auto split: if_split_asm simp: and_then_Inr)
  show "materialFromValue L (tg_ID (so_Target options)) (mat_Generation material) (pr_Bundle ?p) revision =
      Inr (material\<lparr>mat_Revision := revision\<rparr>)"
    using f dec mat by (simp add: materialFromValue_def ValidateGeneration_def)
  show "mat_Generation material = Generation (mat_Digest material)"
    "m_Type (mat_Manifest material) = tg_Type (so_Target options)"
    "\<forall>mapping \<in> set (out_Mappings (tg_Output (so_Target options))). map_of (mat_Files material) (fm_Remote mapping) \<noteq> None"
    using mat ty re by (simp_all add: check_remote_ok)
qed

text \<open>Two reads of the current digest of one tree agree, when both succeed.\<close>

lemma CurrentDigest_agrees:
  assumes "CurrentDigest output w = (Inr d, w1)" "CurrentDigest output w1 = (Inr e, w2)"
  shows "d = e"
proof -
  let ?P = "\<lambda>t d. let link = path_steps (PathJoin [out_Root output, out_CurrentLink output]) in
     node_at t link False = Inl ENOENT \<and> d = [] \<or>
     (\<exists>target data m. node_at t link False = Inr (Symlink target) \<and> release_of target d \<and> d \<noteq> [] \<and>
        node_at t (path_steps (PathJoin [PathJoin [out_Root output, out_CurrentLink output], ''.pemcast-digest''])) True =
          Inr (File data m) \<and> TrimSpace data = d)"
  have "?P (w_tree w) d" by (rule decidesD(4) [OF decides_CurrentDigest assms(1) refl])
  moreover have "?P (w_tree w1) e" by (rule decidesD(4) [OF decides_CurrentDigest assms(2) refl])
  moreover have "w_tree w1 = w_tree w" by (rule decidesD(1) [OF decides_CurrentDigest assms(1)])
  ultimately show ?thesis unfolding Let_def by auto
qed

lemma Activate_same:
  assumes "\<forall>m \<in> set (out_Mappings output). safeRelativePath (fm_Local m)"
    and "CurrentDigest output w0 = (Inr (mat_Digest material), w)" "Activate newest_first material output w = (r, w')"
  shows "w_tree w' = w_tree w \<and> w_past w' = w_past w"
  using assms(3) unfolding Activate_def
proof (cases rule: call_cases)
  case (failed e)
  then show ?thesis using decidesD(1,2) [OF decides_CurrentDigest failed(1)] by simp
next
  case (passed x t)
  have t: "w_tree t = w_tree w" "w_past t = w_past w" using decidesD(1,2) [OF decides_CurrentDigest passed(1)] by simp_all
  have "x = mat_Digest material" using CurrentDigest_agrees [OF assms(2) passed(1)] by simp
  with passed(2) show ?thesis
    using t decidesD(1,2) [OF decides_verifyRelease [OF assms(1)]]
    by (auto simp: Let_def elim!: call_cases)
qed

lemma Seed_reads_only:
  assumes "\<not> so_Force options" "fst (CurrentDigest (tg_Output (so_Target options)) w) \<noteq> Inr []"
    and "\<forall>m \<in> set (out_Mappings (tg_Output (so_Target options))). safeRelativePath (fm_Local m)"
    and "Seed_Apply newest_first L clock options w = (r, w')"
  shows "w_tree w' = w_tree w \<and> w_past w' = w_past w"
  using assms(4) unfolding Seed_Apply_def
proof (cases rule: call_cases)
  case (passed material w0)
  then have w0: "w0 = w" by simp
  from passed(2) show ?thesis unfolding w0
  proof (cases rule: call_cases)
    case (failed e)
    then show ?thesis using decidesD(1,2) [OF decides_CurrentDigest failed(1)] by simp
  next
    case (passed d t)
    have t: "w_tree t = w_tree w" "w_past t = w_past w" using decidesD(1,2) [OF decides_CurrentDigest passed(1)] by simp_all
    have "d \<noteq> []" using assms(2) passed(1) by auto
    show ?thesis
    proof (cases "d = mat_Digest material")
      case True
      then show ?thesis
        using passed t Activate_same [OF assms(3), of w material t] by (auto elim!: call_cases)
    next
      case False
      then show ?thesis using passed(2) \<open>d \<noteq> []\<close> assms(1) t by simp
    qed
  qed
qed simp

end
