(* ===== verification/Deploy_Properties.thy ===== *)
theory Deploy_Properties
  imports Deploy_Activate Sample_Crypto
begin

text \<open>The properties of activation, with a sample root at which they are applied.\<close>

section \<open>A sample root\<close>

definition sample_output :: Output where
  "sample_output = \<lparr>out_Root = ''/o'', out_CurrentLink = ''c'', out_RetainReleases = 1, out_DirectoryMode = ''0700'',
     out_Mappings = [\<lparr>fm_Remote = ''a'', fm_Local = ''x/b'', fm_Mode = ''0640''\<rparr>]\<rparr>"

definition sample_release :: "string \<Rightarrow> node" where
  "sample_release d = Directory 448 0 [(''.pemcast-digest'', File (d @ [CHR 0x0A]) 384),
     (''x'', Directory 448 0 [(''b'', File ''PEM'' 416)])]"

definition sample_tree :: node where
  "sample_tree = Directory 493 0 [(''o'', Directory 448 0 [(''c'', Symlink ''.pemcast/releases/sha256-ab''),
     (''.pemcast'', Directory 448 0 [(''releases'', Directory 448 0
       [(''sha256-ab'', sample_release ''ab''), (''sha256-cd'', sample_release ''cd'')])])])]"

text \<open>The umask leaves the group and others nothing.\<close>

definition sample_world :: world where
  "sample_world = \<lparr>w_tree = sample_tree, w_past = [], w_umask = 63, w_tick = 0, w_fault = (\<lambda>_. None),
     w_clock = int, w_random = id, w_locks = []\<rparr>"

definition sample_material :: "string \<Rightarrow> Material" where
  "sample_material d = \<lparr>mat_TargetID = ''t'', mat_Generation = ''g'', mat_Revision = 1, mat_Manifest = fst sample_manifest,
     mat_Files = [(''a'', ''PEM'')], mat_Digest = d, mat_Certificates = [], mat_Leaf = None\<rparr>"

lemma proper_walk: "proper t \<longleftrightarrow> (\<forall>e \<in> set (walk_nodes [] t). \<forall>w \<in> set (fst e). plain_component w)"
proof -
  have "(p, k) \<in> set (walk_nodes [] t) \<longleftrightarrow> lookup p t = Some k" for p k by (simp add: set_walk_nodes)
  then show ?thesis unfolding proper_def view_def by (metis eq_fst_iff map_option_is_None not_None_eq)
qed

lemma dir_at_code: "dir_at p t \<longleftrightarrow> (case lookup p t of None \<Rightarrow> False | Some n \<Rightarrow> is_dir n)"
  by (auto simp: dir_at_iff split: option.split)

lemma unlinked_prefixes: "unlinked p t \<longleftrightarrow> (\<forall>q \<in> set (prefixes p). case view t q of Some (LinkE x) \<Rightarrow> False | _ \<Rightarrow> True)"
  unfolding unlinked_def by (auto split: option.split entry.split)

lemma sample_layout: "layout sample_output [''o'']"
  unfolding layout_def by code_simp

lemma sample_base: "base [''o''] (w_tree sample_world)"
  unfolding base_def proper_walk unlinked_prefixes dir_at_code by code_simp

lemma sample_digest: "digest_text ''ab''" "digest_text ''cd''" "digest_text ''ef''"
  by (simp_all add: digest_text_def)

section \<open>Properties\<close>

text \<open>C32: At every moment of an activation, whatever fails, a reader below the current link finds either what
  was there before, or the complete new release: the link then selects the release of the material and below it
  are all mapped files with their contents, the digest, and no other file.\<close>

theorem Activate_atomic:
  assumes "layout output R" "base R (w_tree w)" "w_past w = []" "digest_text (mat_Digest material)"
    and "\<And>xs. set (newest_first xs) \<subseteq> set xs"
    and "w' = snd (Activate newest_first material output w)" and "t \<in> set (w_tree w' # w_past w')"
  shows "served R (out_CurrentLink output) t = served R (out_CurrentLink output) (w_tree w) \<or>
    view t (R @ [out_CurrentLink output]) = Some (LinkE (release_target (mat_Digest material))) \<and>
    release_content material output (served R (out_CurrentLink output) t)"
proof -
  let ?J = "old_or_new R (out_CurrentLink output) (w_tree w) material output"
  obtain r where r: "Activate newest_first material output w = (r, w')" using assms(6) by (metis prod.collapse)
  have "hist ?J ?J w'"
    using tripleD [OF triple_Activate [OF assms(1,2,4,5)] r] assms(3)
    by (cases r) (auto simp: hist_def)
  then show ?thesis using assms(7) unfolding old_or_new_def hist_def by auto
qed

lemma Activate_atomic_witness:
  "let t = w_tree (snd (Activate id (sample_material ''cd'') sample_output sample_world)) in
     served [''o''] ''c'' t = served [''o''] ''c'' sample_tree \<or>
     view t [''o'', ''c''] = Some (LinkE (release_target ''cd'')) \<and>
     release_content (sample_material ''cd'') sample_output (served [''o''] ''c'' t)"
  using Activate_atomic [OF sample_layout sample_base, of "sample_material ''cd''" id _
      "w_tree (snd (Activate id (sample_material ''cd'') sample_output sample_world))"] sample_digest
  by (simp add: sample_world_def sample_material_def Let_def) (simp add: sample_output_def)

text \<open>C33: A successful activation, changed or not, has installed the material: the current link selects its
  release, which is complete. An activation that reports no change has written nothing. The root is left fit
  for the next activation.\<close>

theorem Activate_installs:
  assumes "layout output R" "base R (w_tree w)" "w_past w = []" "digest_text (mat_Digest material)"
    and "\<And>xs. set (newest_first xs) \<subseteq> set xs"
    and "Activate newest_first material output w = (Inr a, w')"
  shows "view (w_tree w') (R @ [out_CurrentLink output]) = Some (LinkE (release_target (mat_Digest material))) \<and>
    release_content material output (served R (out_CurrentLink output) (w_tree w')) \<and>
    (\<not> dr_Changed a \<longrightarrow> w_tree w' = w_tree w) \<and> base R (w_tree w')"
proof -
  have "hist (old_or_new R (out_CurrentLink output) (w_tree w) material output) (\<lambda>t. t = w_tree w) w"
    using assms(3) by (simp add: hist_def)
  from tripleD [OF triple_Activate [OF assms(1,2,4,5)] assms(6) this] show ?thesis
    unfolding sum.case hist_def by blast
qed

lemma sample_activation: "is_ok (fst (Activate id (sample_material ''cd'') sample_output sample_world))"
  by code_simp

lemma Activate_installs_witness:
  "view (w_tree (snd (Activate id (sample_material ''cd'') sample_output sample_world))) [''o'', ''c''] =
     Some (LinkE (release_target ''cd''))"
proof -
  let ?run = "Activate id (sample_material ''cd'') sample_output sample_world"
  obtain a where "fst ?run = Inr a" using sample_activation by (auto simp: is_ok_iff)
  then have "?run = (Inr a, snd ?run)" by (metis prod.collapse)
  from Activate_installs [OF sample_layout sample_base _ _ _ this] sample_digest
  show ?thesis by (simp add: sample_world_def sample_material_def) (simp add: sample_output_def)
qed

text \<open>C34: When no call fails, \<open>verifyRelease\<close> accepts a release directory exactly if it is a directory with the
  configured mode that holds the digest file (mode 0600) and every mapped file with its content and mode, only
  directories of the mappings with the configured mode, and nothing else.\<close>

theorem verifyRelease_decides:
  assumes "layout output R" "base R (w_tree w)" "w_fault w = (\<lambda>_. None)" "slash \<notin> set (mat_Digest material)"
  shows "is_ok (fst (verifyRelease (abs_path (releases R @ [release_name (mat_Digest material)])) material output w)) \<longleftrightarrow>
    release_ok material output (\<lambda>q. view (w_tree w) (releases R @ [release_name (mat_Digest material)] @ q))"
proof -
  let ?X = "releases R @ [release_name (mat_Digest material)]"
  have safe: "\<forall>m \<in> set (out_Mappings output). safeRelativePath (fm_Local m)" and R: "\<forall>w \<in> set R. plain_component w"
    using assms(1) by (simp_all add: layout_def)
  have c: "plain_component (release_name (mat_Digest material))" using assms(4) by simp
  have X: "\<forall>w \<in> set ?X. plain_component w" using R c by simp
  obtain r w' where run: "verifyRelease (abs_path ?X) material output w = (r, w')" by fastforce
  note D = decidesD [OF decides_verifyRelease [OF safe] run]
  have "is_ok r \<longleftrightarrow> verified (w_tree w) (abs_path ?X) material output"
    using D(4,5) assms(3) by (cases r) auto
  also have "\<dots> \<longleftrightarrow> release_ok material output (\<lambda>q. view (w_tree w) (?X @ q))"
    using verified_release_ok [OF safe assms(2) R refl c] release_ok_verified [OF safe _ X] assms(2)
    by (auto simp: base_def)
  finally show ?thesis unfolding run by simp
qed

lemma verifyRelease_decides_witness:
  "release_ok (sample_material ''cd'') sample_output
     (\<lambda>q. view sample_tree (releases [''o''] @ [release_name ''cd''] @ q))"
proof -
  have "is_ok (fst (verifyRelease (abs_path (releases [''o''] @ [release_name ''cd''])) (sample_material ''cd'') sample_output sample_world))"
    by code_simp
  then show ?thesis
    using verifyRelease_decides [OF sample_layout sample_base, of "sample_material ''cd''"]
    by (simp add: sample_world_def sample_material_def)
qed

text \<open>The release that an activation writes can be one that the next activation refuses: files are created
  under the umask, but \<open>verifyRelease\<close> compares their modes with the configured ones. With umask 077 and a mode
  of 0640 the first activation succeeds, and every later one of the same material fails.\<close>

theorem Activate_umask:
  "is_ok (fst (Activate id (sample_material ''ef'') sample_output sample_world)) \<and>
   fst (Activate id (sample_material ''ef'') sample_output
     (snd (Activate id (sample_material ''ef'') sample_output sample_world))) =
     Inl (VerifyActive (MappedModeMismatch ''x/b'' 384 416))"
  by code_simp

end
