(* ===== verification/Seed_Properties.thy ===== *)
theory Seed_Properties
  imports Seed Publish_Properties Deploy_Properties
begin

text \<open>The properties of the local seed.\<close>

definition seed_output :: Output where
  "seed_output = sample_output\<lparr>out_Mappings := [\<lparr>fm_Remote = NamePrivateKey, fm_Local = ''k'', fm_Mode = ''0600''\<rparr>]\<rparr>"

definition sample_seed :: SeedOptions where
  "sample_seed = \<lparr>so_Target = \<lparr>tg_ID = ''web'', tg_Type = TypeTLSServer, tg_DeletePolicy = ''retain'',
       tg_Output = seed_output,
       tg_Validation = \<lparr>va_RejectExpired = True, va_MinimumValidity = 0, va_ServerNames = []\<rparr>,
       tg_Hook = \<lparr>hk_Path = [], hk_Args = [], hk_Timeout = 0, hk_PassEnvironment = []\<rparr>\<rparr>,
     so_Pack = web_pack, so_Prefix = ''/pemcast'', so_Force = False, so_Now = Some 500\<rparr>"

text \<open>C35: What is seeded from a pack without etcd is what the agent would read from etcd under the generation of
  the pack: the same manifest, files, digest and certificates, of the type of the target, with every mapped
  file.\<close>

theorem Seed_matches_agent:
  assumes "crypto_ok L" "Seed_Material L clock options = Inr material"
  shows "materialFromValue L (tg_ID (so_Target options)) (mat_Generation material) (pr_Bundle (so_Pack options)) revision =
      Inr (material\<lparr>mat_Revision := revision\<rparr>) \<and>
    m_Type (mat_Manifest material) = tg_Type (so_Target options) \<and>
    (\<forall>mapping \<in> set (out_Mappings (tg_Output (so_Target options))). map_of (mat_Files material) (fm_Remote mapping) \<noteq> None)"
  using Seed_Material_fetched [OF assms] by blast

lemma sample_certificates:
  "case Manifest_ValidateFiles sample_crypto (fst sample_manifest) (decoded (fst sample_manifest)) of
     Inr (cs, l) \<Rightarrow> cs = [sample_cert ''L'', sample_cert ''A''] \<and> map_of (decoded (fst sample_manifest)) NamePrivateKey \<noteq> None
   | Inl e \<Rightarrow> False"
  by code_simp

lemma Build_metadata:
  assumes "Build L is_print read options = Inr p"
  shows "md_TargetID (pr_Metadata p) = opt_TargetID options" "md_Type (pr_Metadata p) = opt_Type options"
  using assms by (auto simp: Build_def Let_def and_then_Inr split: if_split_asm)

lemma web_pack_is:
  "pr_Bundle web_pack = encoded (fst sample_manifest)" "md_TargetID (pr_Metadata web_pack) = ''web''"
  "md_Type (pr_Metadata web_pack) = TypeTLSServer"
proof -
  show "pr_Bundle web_pack = encoded (fst sample_manifest)"
    using sample_builds [OF NewKeys_default] web_pack_built(1) by auto
  show "md_TargetID (pr_Metadata web_pack) = ''web''" "md_Type (pr_Metadata web_pack) = TypeTLSServer"
    using Build_metadata [OF web_pack_built(1)] by (simp_all add: sample_options_def)
qed

lemma sample_seed_material: "\<exists>material. Seed_Material sample_crypto 0 sample_seed = Inr material"
proof -
  let ?m = "fst sample_manifest"
  obtain man files where p: "valid_pack sample_crypto web_pack DefaultKeys man files" using web_pack_valid by blast
  have d: "Decode sample_crypto (pr_Bundle web_pack) = Inr (?m, decoded ?m, md_BundleSHA256 (pr_Metadata web_pack))"
    using p sample_valid(2) by (auto simp: web_pack_is valid_pack_def Let_def)
  have ok: "Pack_Validate sample_crypto web_pack = Inr ()"
    using p Pack_Validate_ok [OF sample_crypto_ok] by (auto simp: unit_ok)
  obtain l where f: "Manifest_ValidateFiles sample_crypto ?m (decoded ?m) = Inr ([sample_cert ''L'', sample_cert ''A''], l)"
    and k: "map_of (decoded ?m) NamePrivateKey \<noteq> None"
    using sample_certificates by (auto split: sum.split_asm)
  have ty: "m_Type ?m = TypeTLSServer" by (simp add: sample_manifest_def NewTLSManifest_def Let_def)
  have prefix: "Keys_Prefix DefaultKeys = ''/pemcast''" by code_simp
  show ?thesis
    using d ok f k ty NewKeys_default prefix web_pack_built(2) web_pack_is(2,3)
    by (simp add: Seed_Material_def Let_def sample_seed_def seed_output_def ValidatePolicy_def sample_cert_def
        time_Sub_def max_duration_def min_duration_def)
qed

lemma Seed_matches_agent_witness:
  "\<exists>material. Seed_Material sample_crypto 0 sample_seed = Inr material \<and>
     materialFromValue sample_crypto ''web'' (mat_Generation material) (pr_Bundle web_pack) 7 =
       Inr (material\<lparr>mat_Revision := 7\<rparr>)"
  using sample_seed_material Seed_matches_agent [OF sample_crypto_ok, of 0 sample_seed _ 7]
  by (auto simp: sample_seed_def)

text \<open>C36: Without force a seed changes nothing on the file system where a release is active or the current
  path cannot be read.\<close>

theorem Seed_respects_current:
  assumes "\<not> so_Force options" "fst (CurrentDigest (tg_Output (so_Target options)) w) \<noteq> Inr []"
    and "\<forall>m \<in> set (out_Mappings (tg_Output (so_Target options))). safeRelativePath (fm_Local m)"
  shows "w_tree (snd (Seed_Apply newest_first L clock options w)) = w_tree w \<and>
    w_past (snd (Seed_Apply newest_first L clock options w)) = w_past w"
proof -
  obtain r w' where run: "Seed_Apply newest_first L clock options w = (r, w')" by fastforce
  have "w_tree w' = w_tree w \<and> w_past w' = w_past w"
    using Seed_reads_only [OF assms(1,2,3) run] .
  then show ?thesis using run by simp
qed

lemma Seed_respects_current_witness:
  "w_tree (snd (Seed_Apply id sample_crypto 0 sample_seed sample_world)) = sample_tree"
proof -
  have "(case fst (CurrentDigest seed_output sample_world) of Inr d \<Rightarrow> d \<noteq> [] | Inl e \<Rightarrow> True)"
    by code_simp
  then have "fst (CurrentDigest seed_output sample_world) \<noteq> Inr []" by auto
  moreover have "\<forall>m \<in> set (out_Mappings seed_output). safeRelativePath (fm_Local m)" by code_simp
  moreover have "\<not> so_Force sample_seed" "tg_Output (so_Target sample_seed) = seed_output" by (simp_all add: sample_seed_def)
  ultimately show ?thesis using Seed_respects_current [of sample_seed sample_world]
    by (simp add: sample_world_def)
qed

end
