(* ===== verification/State_Store.thy ===== *)
theory State_Store
  imports Deploy
begin

text \<open>
  \<open>internal/state/store.go\<close>: one JSON file per target below a private directory, replaced by a rename. An
  instant is a number; its text in JSON, RFC 3339 with the zone of the process, is a parameter.
\<close>

record state_Target =
  st_Generation :: string
  st_Digest :: string
  st_Revision :: int
  st_ActivatedAt :: int
  st_HookError :: string

text \<open>The zero \<open>time.Time\<close>, \<open>MarshalText\<close> (which fails outside the years 0 to 9999) and \<open>UnmarshalText\<close>.\<close>

record time_codec =
  tc_zero :: int
  tc_Marshal :: "int \<Rightarrow> string option"
  tc_Unmarshal :: "string \<Rightarrow> int option"

definition codec_ok :: "time_codec \<Rightarrow> bool" where
  "codec_ok tc \<longleftrightarrow> (\<forall>t s. tc_Marshal tc t = Some s \<longrightarrow> utf8_valid s \<and> tc_Unmarshal tc s = Some t)"

datatype state_error =
    NotAbsolute
  | CreateStateDir errno
  | StatStateDir errno
  | StateNotDir
  | SecureStateDir errno
  | ReadState errno
  | DecodeState
  | StatState errno
  | EncodeState
  | WriteState errno

definition no_state :: "time_codec \<Rightarrow> state_Target" where
  "no_state tc = \<lparr>st_Generation = [], st_Digest = [], st_Revision = 0, st_ActivatedAt = tc_zero tc, st_HookError = []\<rparr>"

section \<open>The text of a state\<close>

definition state_Marshal :: "time_codec \<Rightarrow> state_Target \<Rightarrow> bytes option" where
  "state_Marshal tc st =
     (case tc_Marshal tc (st_ActivatedAt st) of
        None \<Rightarrow> None
      | Some instant \<Rightarrow> json_Marshal (JObj [(''generation'', JStr (st_Generation st)), (''digest'', JStr (st_Digest st)),
          (''revision'', JNum (FormatInt (st_Revision st))), (''activated-at'', JStr instant),
          (''hook-error'', JStr (st_HookError st))]))"

definition unmarshal_time :: "time_codec \<Rightarrow> json \<Rightarrow> int option" where
  "unmarshal_time tc v = (case v of JNull \<Rightarrow> Some (tc_zero tc) | JStr s \<Rightarrow> tc_Unmarshal tc s | _ \<Rightarrow> None)"

definition state_members :: "time_codec \<Rightarrow> (string \<times> json) list \<Rightarrow> state_Target option" where
  "state_members tc ms =
     (case (json_member unmarshal_string [] ms ''generation'', json_member unmarshal_string [] ms ''digest'',
            json_member unmarshal_int 0 ms ''revision'', json_member (unmarshal_time tc) (tc_zero tc) ms ''activated-at'',
            json_member unmarshal_string [] ms ''hook-error'') of
        (Some g, Some d, Some r, Some a, Some h) \<Rightarrow>
          Some \<lparr>st_Generation = g, st_Digest = d, st_Revision = r, st_ActivatedAt = a, st_HookError = h\<rparr>
      | _ \<Rightarrow> None)"

definition state_Unmarshal :: "time_codec \<Rightarrow> bytes \<Rightarrow> state_Target option" where
  "state_Unmarshal tc data =
     (case json_parse data of
        None \<Rightarrow> None
      | Some v \<Rightarrow> unmarshal_struct [''generation'', ''digest'', ''revision'', ''activated-at'', ''hook-error'']
          (state_members tc) v)"

section \<open>The store\<close>

text \<open>A store is its directory.\<close>

definition Store_New :: "string \<Rightarrow> (state_error, string) result" where
  "Store_New dir = (if \<not> IsAbs dir then Inl NotAbsolute else Inr dir)"

definition Ensure :: "string \<Rightarrow> (world, state_error, unit) io" where
  "Ensure dir =
     call (MkdirAll (path_steps dir) 448) CreateStateDir (\<lambda>_.
     call (Lstat (path_steps dir)) StatStateDir (\<lambda>info.
     if \<not> is_dir info then done_with (Inl StateNotDir)
     else if node_perm info \<noteq> 448 then call (Chmod (path_steps dir) 448) SecureStateDir (\<lambda>_. done_with (Inr ()))
     else done_with (Inr ())))"

definition state_path :: "string \<Rightarrow> string \<Rightarrow> string" where
  "state_path dir targetID =
     (let safe = map (\<lambda>c. if c = CHR ''/'' \<or> c = CHR 0x5C then CHR ''_'' else c) targetID in
      PathJoin [dir, safe @ ''.json''])"

definition Load :: "time_codec \<Rightarrow> string \<Rightarrow> string \<Rightarrow> (world, state_error, state_Target) io" where
  "Load tc dir targetID =
     attempt (ReadFile (path_steps (state_path dir targetID))) (\<lambda>r. case r of
       Inl e \<Rightarrow> done_with (if e = ENOENT then Inr (no_state tc) else Inl (ReadState e))
     | Inr data \<Rightarrow> done_with (case state_Unmarshal tc data of None \<Rightarrow> Inl DecodeState | Some st \<Rightarrow> Inr st))"

definition Exists :: "string \<Rightarrow> string \<Rightarrow> (world, state_error, bool) io" where
  "Exists dir targetID =
     attempt (Stat (path_steps (state_path dir targetID))) (\<lambda>r. case r of
       Inl e \<Rightarrow> done_with (if e = ENOENT then Inr False else Inl (StatState e))
     | Inr _ \<Rightarrow> done_with (Inr True))"

text \<open>The two syncs of the code agree: the first error counts.\<close>

definition writeAtomic :: "string \<Rightarrow> bytes \<Rightarrow> perm \<Rightarrow> (world, errno, unit) io" where
  "writeAtomic p content mode =
     (let directory = Dir p in
      call (CreateTemp directory ''.pemcast-state-'') id (\<lambda>(file, temporary).
      deferring (Remove (path_steps temporary))
        (attempt (File_Chmod file mode) (\<lambda>secured. case secured of
           Inl e \<Rightarrow> attempt (File_Close file) (\<lambda>_. done_with (Inl e))
         | Inr _ \<Rightarrow>
             attempt (File_Write file content) (\<lambda>written. case written of
               Inl e \<Rightarrow> attempt (File_Close file) (\<lambda>_. done_with (Inl e))
             | Inr _ \<Rightarrow>
                 attempt (File_Sync file) (\<lambda>synced. case synced of
                   Inl e \<Rightarrow> attempt (File_Close file) (\<lambda>_. done_with (Inl e))
                 | Inr _ \<Rightarrow>
                     call (File_Close file) id (\<lambda>_.
                     call (Rename (path_steps temporary) (path_steps p)) id (\<lambda>_.
                     syncDirectory directory))))))))"

definition Save :: "time_codec \<Rightarrow> string \<Rightarrow> string \<Rightarrow> state_Target \<Rightarrow> (world, state_error, unit) io" where
  "Save tc dir targetID target =
     call (Ensure dir) id (\<lambda>_.
     case state_Marshal tc target of
       None \<Rightarrow> done_with (Inl EncodeState)
     | Some data \<Rightarrow>
         call (writeAtomic (state_path dir targetID) (data @ [CHR 0x0A]) 384) WriteState (\<lambda>_. done_with (Inr ())))"

section \<open>Reading back what was written\<close>

lemma hex_digit_decimal: "n < 10 \<Longrightarrow> is_digit (hex_digit n) \<and> byte_val (hex_digit n) = 48 + n"
  by (simp add: hex_digit_def is_digit_range)

abbreviation digits_value :: "int \<Rightarrow> string \<Rightarrow> int" where
  "digits_value \<equiv> foldl (\<lambda>a c. a * 10 + (int (byte_val c) - 48))"

lemma digits_of_decimal:
  "n \<le> fuel \<Longrightarrow> list_all is_digit (digits_of 10 (Suc fuel) n) \<and> digits_of 10 (Suc fuel) n \<noteq> [] \<and>
     digits_value 0 (digits_of 10 (Suc fuel) n) = int n \<and>
     (byte_val (hd (digits_of 10 (Suc fuel) n)) = 48 \<longrightarrow> n = 0)"
proof (induction fuel arbitrary: n)
  case 0
  then show ?case using hex_digit_decimal [of 0] by simp
next
  case (Suc fuel)
  show ?case
  proof (cases "n < 10")
    case True
    then show ?thesis using hex_digit_decimal [of n] by auto
  next
    case False
    then have le: "n div 10 \<le> fuel" and pos: "n div 10 \<noteq> 0" using Suc.prems by linarith+
    have IH: "list_all is_digit (digits_of 10 (Suc fuel) (n div 10))" "digits_of 10 (Suc fuel) (n div 10) \<noteq> []"
      "digits_value 0 (digits_of 10 (Suc fuel) (n div 10)) = int (n div 10)"
      "byte_val (hd (digits_of 10 (Suc fuel) (n div 10))) = 48 \<longrightarrow> n div 10 = 0"
      using Suc.IH [OF le] by blast+
    have eq: "digits_of 10 (Suc (Suc fuel)) n = digits_of 10 (Suc fuel) (n div 10) @ [hex_digit (n mod 10)]"
      using False by (subst digits_of.simps(2)) simp
    have "int (n div 10) * 10 + int (n mod 10) = int n" by (simp add: zdiv_int zmod_int)
    then show ?thesis unfolding eq using IH pos hex_digit_decimal [of "n mod 10"] by simp
  qed
qed

lemma FormatInt_literal: "int_literal (FormatInt i)"
  and unmarshal_FormatInt: "- (2 ^ 63) \<le> i \<Longrightarrow> i < 2 ^ 63 \<Longrightarrow> unmarshal_int (JNum (FormatInt i)) = Some i"
proof -
  define n where "n = nat \<bar>i\<bar>"
  define ds where "ds = format_nat 10 n"
  have ds: "list_all is_digit ds" "ds \<noteq> []" "digits_value 0 ds = int n" "byte_val (hd ds) = 48 \<longrightarrow> n = 0"
    using digits_of_decimal [of n n] unfolding ds_def format_nat_def by blast+
  have zero: "n = 0 \<Longrightarrow> ds = [hex_digit 0]" by (simp add: ds_def format_nat_def)
  have F: "FormatInt i = (if i < 0 then CHR ''-'' # ds else ds)" by (auto simp: FormatInt_def ds_def n_def)
  have "byte_val (CHR ''-'') = 45" by simp
  obtain d ds' where d: "ds = d # ds'" using ds(2) by (cases ds) auto
  have nd: "byte_val d \<noteq> 45" "d \<noteq> CHR ''-''" using ds(1) d by (auto simp: is_digit_range)
  show "int_literal (FormatInt i)"
    using F ds d nd zero by (auto simp: int_literal_def Let_def)
  assume "- (2 ^ 63) \<le> i" "i < 2 ^ 63"
  moreover have "HasPrefix ds ''-'' = False" using d nd by (simp add: HasPrefix_iff)
  moreover have "HasPrefix (CHR ''-'' # ds) ''-''" by (simp add: HasPrefix_iff)
  ultimately show "unmarshal_int (JNum (FormatInt i)) = Some i"
    using F ds n_def by (auto simp: unmarshal_int_def Let_def TrimPrefix_def)
qed

lemma state_roundtrip:
  assumes tc: "codec_ok tc" and m: "state_Marshal tc st = Some data"
    and r: "- (2 ^ 63) \<le> st_Revision st" "st_Revision st < 2 ^ 63"
  shows "state_Unmarshal tc (data @ [CHR 0x0A]) = Some st"
proof -
  obtain s where s: "tc_Marshal tc (st_ActivatedAt st) = Some s" using m by (auto simp: state_Marshal_def split: option.splits)
  then have u: "tc_Unmarshal tc s = Some (st_ActivatedAt st)" using tc by (simp add: codec_ok_def)
  let ?ms = "[(''generation'', JStr (st_Generation st)), (''digest'', JStr (st_Digest st)),
          (''revision'', JNum (FormatInt (st_Revision st))), (''activated-at'', JStr s),
          (''hook-error'', JStr (st_HookError st))]"
  have "json_Marshal (JObj ?ms) = Some data" using m s by (simp add: state_Marshal_def)
  then have "json_parse (data @ [CHR 0x0A]) = Some (JObj ?ms)"
    using json_parse_line [of "JObj ?ms"] unfolding json_Marshal_def by (auto split: if_split_asm)
  moreover have "state_members tc ?ms = Some st"
    using unmarshal_FormatInt [OF r] u by (simp add: state_members_def json_member_def unmarshal_time_def)
  ultimately show ?thesis
    by (simp add: state_Unmarshal_def unmarshal_struct_def known_members_def)
qed

end
