(* ===== verification/State_Facts.thy ===== *)
theory State_Facts
  imports State_Store Deploy_Activate
begin

text \<open>What a reader finds in a state file while it is saved.\<close>

lemma last_abs_path: "\<forall>w \<in> set D. plain_component w \<Longrightarrow> D \<noteq> [] \<Longrightarrow> last (abs_path D) \<noteq> slash"
proof -
  assume D: "\<forall>w \<in> set D. plain_component w" "D \<noteq> []"
  then obtain us c where us: "D = us @ [c]" by (metis rev_exhaust)
  have c: "slash \<notin> set c" "c \<noteq> []" using D us by (simp_all add: plain_component_def)
  have "abs_path D = (if us = [] then [] else abs_path us) @ slash # c"
    using us by (simp add: abs_path_def Join_append)
  then have "last (abs_path D) = last c" using c(2) by simp
  then show ?thesis using c last_in_set by metis
qed

text \<open>The directory \<open>D\<close> stays, and the file \<open>F\<close> in it holds \<open>e\<close>.\<close>

definition holds :: "path \<Rightarrow> path \<Rightarrow> entry option \<Rightarrow> node \<Rightarrow> bool" where
  "holds D F e t \<longleftrightarrow> dir_at D t \<and> view t F = e"

lemma holds_update:
  assumes "holds D F e t" "view t' = (view t)(T := x)" "T \<noteq> F" "\<not> prefix T D"
  shows "holds D F e t'"
proof -
  have "T \<noteq> D" using assms(4) by auto
  then show ?thesis using assms by (simp add: holds_def dir_at_def)
qed

lemma triple_writeAtomic:
  assumes J: "\<And>t. holds D F e t \<or> holds D F (Some (FileE content mode)) t \<Longrightarrow> J t"
    and D: "\<forall>w \<in> set D. plain_component w" "D \<noteq> []" and F: "F = D @ [f]" "plain_component f"
    and name: "\<And>n. f \<noteq> ''.pemcast-state-'' @ format_nat 10 n"
  shows "triple (hist J (holds D F e)) (writeAtomic (abs_path F) content mode)
    (\<lambda>r. case r of Inl x \<Rightarrow> hist J (\<lambda>t. holds D F e t \<or> holds D F (Some (FileE content mode)) t)
       | Inr u \<Rightarrow> hist J (holds D F (Some (FileE content mode))))"
proof -
  let ?T = "\<lambda>n. D @ [''.pemcast-state-'' @ format_nat 10 n]"
  let ?stem = "abs_path D @ ''/.pemcast-state-''"
  let ?K = "holds D F e" and ?N = "holds D F (Some (FileE content mode))"
  let ?B = "\<lambda>t. ?K t \<or> ?N t"
  let ?Q = "\<lambda>r. case r of Inl x \<Rightarrow> hist J ?B | Inr u \<Rightarrow> hist J ?N"
  have dotD: "''..'' \<notin> set D" using plain_dotdot [OF D(1)] .
  have plain: "plain_component (''.pemcast-state-'' @ format_nat 10 n)" for n
    using format_nat_no_slash by (simp add: plain_component_def)
  have Dir: "Dir (abs_path F) = abs_path D" using Dir_abs_path [OF D(1) F(2)] F(1) by simp
  have Fsteps: "path_steps (abs_path F) = F" using F D(1) by (simp add: path_steps_abs_path)
  have stem: "CreateTemp (Dir (abs_path F)) ''.pemcast-state-'' = create_temp 10000 ?stem"
    using last_abs_path [OF D] Dir by (simp add: CreateTemp_def)
  have steps: "path_steps (?stem @ format_nat 10 n) = ?T n" for n
  proof -
    have "?stem @ format_nat 10 n = abs_path D @ slash # (''.pemcast-state-'' @ format_nat 10 n)" by simp
    then show ?thesis
      by (simp only: path_steps_append path_steps_abs_path [OF D(1)] path_steps_component [OF plain])
  qed
  have away: "?T n \<noteq> F" "\<not> prefix (?T n) D" for n using name [of n] F(1) by auto
  have KJ: "J t" if "?K t" for t using J that by blast
  have at: "located I (D @ [c]) False" if "\<And>t. I t \<Longrightarrow> dir_at D t" "plain_component c" for I c
    by (rule located_entry [OF that(1) dotD]) (use that(2) in \<open>simp_all add: plain_component_def\<close>)
  let ?I = "\<lambda>n b m t. ?K t \<and> view t (?T n) = Some (FileE b m)"
  have rem: "triple (hist J I) (Remove (?T n)) (\<lambda>_. hist J I)"
    if "\<And>t. I t \<Longrightarrow> J t" "\<And>t. I t \<Longrightarrow> dir_at D t" "\<And>t t'. I t \<Longrightarrow> view t' = (view t)(?T n := None) \<Longrightarrow> I t'" for I n
  proof (rule triple_post [OF triple_Remove])
    show "J t" if "I t" for t using \<open>\<And>t. I t \<Longrightarrow> J t\<close> that .
    show "located I (?T n) False" by (rule at [OF _ plain]) (use that in blast)
    show "I t'" if "I t" "view t' = (view t)(?T n := None)" for t t' using \<open>\<And>t t'. I t \<Longrightarrow> view t' = (view t)(?T n := None) \<Longrightarrow> I t'\<close> that .
  qed (auto split: sum.splits)
  have new: "triple (hist J ?K) (create_temp 10000 ?stem)
    (\<lambda>r w. case r of Inl e \<Rightarrow> hist J ?K w
       | Inr x \<Rightarrow> (\<exists>n. snd x = ?stem @ format_nat 10 n \<and> fst x = path_steps (snd x)) \<and>
          hist J (\<lambda>t. ?K t \<and> (\<exists>m. view t (path_steps (snd x)) = Some (FileE [] m))) w)"
  proof (rule triple_create_temp)
    show "J t" if "?K t" for t using KJ that .
    show "dir_at [] t" if "?K t" for t using that dir_at_prefix [of D t "[]"] by (simp add: holds_def)
    show "located ?K (path_steps (?stem @ format_nat 10 n)) False" for n
      unfolding steps by (rule at [OF _ plain]) (simp add: holds_def)
    show "?K t' \<and> (\<exists>m. view t' (path_steps (?stem @ format_nat 10 n)) = Some (FileE [] m))"
      if "?K t" "ws = path_steps (?stem @ format_nat 10 n)" "view t' = (view t)(ws \<mapsto> FileE [] m)" for t t' m n ws
      using that holds_update [OF that(1,3)] away [of n] steps by simp
  qed
  have chmod: "triple (hist J (\<lambda>t. ?K t \<and> (\<exists>m. view t (?T n) = Some (FileE [] m)))) (File_Chmod (?T n) mode)
      (\<lambda>r. case r of Inl x \<Rightarrow> hist J (\<lambda>t. ?K t \<and> (\<exists>m. view t (?T n) = Some (FileE [] m))) | Inr u \<Rightarrow> hist J (?I n [] mode))" for n
  proof (rule triple_File_Chmod)
    show "J t" if "?K t \<and> (\<exists>m. view t (?T n) = Some (FileE [] m))" for t using KJ that by blast
    show "?I n [] mode t'" if "?K t \<and> (\<exists>m. view t (?T n) = Some (FileE [] m))"
      "view t' = (view t)(?T n := map_option (with_perm mode) (view t (?T n)))" for t t'
      using that holds_update [OF _ that(2) away] by auto
  qed
  have filled: "triple (hist J (?I n [] mode)) (File_Write (?T n) content)
      (\<lambda>r. case r of Inl x \<Rightarrow> hist J ?K | Inr u \<Rightarrow> hist J (?I n content mode))" for n
  proof (rule triple_File_Write)
    show "J t" if "?I n [] mode t" for t using KJ that by blast
    show "?K t'" if "?I n [] mode t" "view t' = (view t)(?T n := map_option (with_data (take k content)) (view t (?T n)))" for t t' k
      using that holds_update [OF _ that(2) away] by blast
    show "?I n content mode t'" if "?I n [] mode t" "view t' = (view t)(?T n := map_option (with_data content) (view t (?T n)))" for t t'
      using that holds_update [OF _ that(2) away] by simp
  qed
  have ren: "triple (hist J (?I n content mode)) (Rename (?T n) F)
      (\<lambda>r. case r of Inl x \<Rightarrow> hist J (?I n content mode) | Inr u \<Rightarrow> hist J ?N)" for n
  proof (rule triple_Rename)
    show "J t" if "?I n content mode t" for t using KJ that by blast
    show "located (?I n content mode) (?T n) False" by (rule at [OF _ plain]) (simp add: holds_def)
    show "located (?I n content mode) F False" unfolding F(1) by (rule at [OF _ F(2)]) (simp add: holds_def)
    show "?T n \<noteq> []" "F \<noteq> []" "\<not> prefix (?T n) F" "\<not> prefix F (?T n)" using away [of n] F(1) by auto
    show "dir_at (butlast F) t" if "?I n content mode t" for t using that F(1) by (simp add: holds_def)
    fix t t' assume I: "?I n content mode t" and v: "\<And>r. view t' r = (if prefix F r then view t (?T n @ drop (length F) r)
          else if prefix (?T n) r then None else view t r)"
    have "view t' F = Some (FileE content mode)" using I v by simp
    moreover have "\<not> prefix F D" using F(1) by auto
    then have "view t' D = view t D" using v away [of n] by simp
    ultimately show "?N t'" using I by (simp add: holds_def dir_at_def)
  qed
  have KB: "hist J ?B w" if "hist J (\<lambda>t. ?K t \<and> P t) w" for w P using that by (rule hist_mono) blast
  have KB': "hist J ?B w" if "hist J ?K w" for w using that by (rule hist_mono) blast
  have closing: "triple (hist J ?B) (attempt (File_Close p) (\<lambda>_. done_with (Inl x))) ?Q" for p x
    by (rule triple_attempt [OF keeping_reads(8)]) simp
  have body: "triple (hist J (\<lambda>t. ?K t \<and> (\<exists>m. view t (?T n) = Some (FileE [] m))))
      (attempt (File_Chmod (?T n) mode) (\<lambda>secured. case secured of
           Inl e \<Rightarrow> attempt (File_Close (?T n)) (\<lambda>_. done_with (Inl e))
         | Inr _ \<Rightarrow>
             attempt (File_Write (?T n) content) (\<lambda>written. case written of
               Inl e \<Rightarrow> attempt (File_Close (?T n)) (\<lambda>_. done_with (Inl e))
             | Inr _ \<Rightarrow>
                 attempt (File_Sync (?T n)) (\<lambda>synced. case synced of
                   Inl e \<Rightarrow> attempt (File_Close (?T n)) (\<lambda>_. done_with (Inl e))
                 | Inr _ \<Rightarrow>
                     call (File_Close (?T n)) id (\<lambda>_.
                     call (Rename (?T n) F) id (\<lambda>_.
                     syncDirectory dir)))))) ?Q" for n dir
    apply (rule triple_attempt [OF chmod])
    subgoal for r
    proof (cases r)
      case (Inl x)
      show ?thesis unfolding Inl sum.case by (rule triple_pre [OF closing KB])
    next
      case (Inr u)
      show ?thesis unfolding Inr sum.case
        apply (rule triple_attempt [OF filled])
        subgoal for r
        proof (cases r)
          case (Inl x)
          show ?thesis unfolding Inl sum.case by (rule triple_pre [OF closing KB'])
        next
          case (Inr u)
          show ?thesis unfolding Inr sum.case
            apply (rule triple_attempt [OF keeping_reads(7)])
            subgoal for r
            proof (cases r)
              case (Inl x)
              show ?thesis unfolding Inl sum.case by (rule triple_pre [OF closing KB])
            next
              case (Inr u)
              show ?thesis unfolding Inr sum.case
                apply (rule triple_call [OF keeping_reads(8)], simp add: KB)
                apply (rule triple_call [OF ren], simp add: KB)
                apply (simp only: sum.case)
                apply (rule triple_post [OF keeping_syncDirectory])
                apply (auto split: sum.split elim: hist_mono)
                done
            qed
            done
        qed
        done
    qed
    done
  have clean: "triple (?Q r) (Remove (?T n)) (\<lambda>_. ?Q r)" for r :: "(errno, unit) result" and n
  proof (cases r)
    case (Inl x)
    have "triple (hist J ?B) (Remove (?T n)) (\<lambda>_. hist J ?B)"
    proof (rule rem)
      show "J t" if "?B t" for t using J that .
      show "dir_at D t" if "?B t" for t using that by (auto simp: holds_def)
      show "?B t'" if "?B t" "view t' = (view t)(?T n := None)" for t t'
        using that(1) holds_update [OF _ that(2) away] by blast
    qed
    then show ?thesis unfolding Inl sum.case .
  next
    case (Inr u)
    have "triple (hist J ?N) (Remove (?T n)) (\<lambda>_. hist J ?N)"
    proof (rule rem)
      show "J t" if "?N t" for t using J that by blast
      show "dir_at D t" if "?N t" for t using that by (simp add: holds_def)
      show "?N t'" if "?N t" "view t' = (view t)(?T n := None)" for t t'
        using that(1) holds_update [OF _ that(2) away] by blast
    qed
    then show ?thesis unfolding Inr sum.case .
  qed
  show ?thesis
    unfolding writeAtomic_def Let_def stem Fsteps
  proof (rule triple_call [OF new])
    fix x :: "path \<times> string"
    obtain p t where x: "x = (p, t)" by (cases x)
    show "triple (\<lambda>w. case (Inr x :: (errno, path \<times> string) result) of Inl e \<Rightarrow> hist J ?K w
       | Inr x \<Rightarrow> (\<exists>n. snd x = ?stem @ format_nat 10 n \<and> fst x = path_steps (snd x)) \<and>
          hist J (\<lambda>t. ?K t \<and> (\<exists>m. view t (path_steps (snd x)) = Some (FileE [] m))) w)
      (case x of (file, temporary) \<Rightarrow> deferring (Remove (path_steps temporary))
        (attempt (File_Chmod file mode) (\<lambda>secured. case secured of
           Inl e \<Rightarrow> attempt (File_Close file) (\<lambda>_. done_with (Inl e))
         | Inr _ \<Rightarrow>
             attempt (File_Write file content) (\<lambda>written. case written of
               Inl e \<Rightarrow> attempt (File_Close file) (\<lambda>_. done_with (Inl e))
             | Inr _ \<Rightarrow>
                 attempt (File_Sync file) (\<lambda>synced. case synced of
                   Inl e \<Rightarrow> attempt (File_Close file) (\<lambda>_. done_with (Inl e))
                 | Inr _ \<Rightarrow>
                     call (File_Close file) id (\<lambda>_.
                     call (Rename (path_steps temporary) F) id (\<lambda>_.
                     syncDirectory (Dir (abs_path F))))))))) ?Q"
      unfolding x sum.case prod.case triple_const fst_conv snd_conv
    proof (rule impI, elim exE conjE)
      fix n assume n: "t = ?stem @ format_nat 10 n" and p: "p = path_steps t"
      show "triple (hist J (\<lambda>s. ?K s \<and> (\<exists>m. view s (path_steps t) = Some (FileE [] m))))
        (deferring (Remove (path_steps t))
        (attempt (File_Chmod p mode) (\<lambda>secured. case secured of
           Inl e \<Rightarrow> attempt (File_Close p) (\<lambda>_. done_with (Inl e))
         | Inr _ \<Rightarrow>
             attempt (File_Write p content) (\<lambda>written. case written of
               Inl e \<Rightarrow> attempt (File_Close p) (\<lambda>_. done_with (Inl e))
             | Inr _ \<Rightarrow>
                 attempt (File_Sync p) (\<lambda>synced. case synced of
                   Inl e \<Rightarrow> attempt (File_Close p) (\<lambda>_. done_with (Inl e))
                 | Inr _ \<Rightarrow>
                     call (File_Close p) id (\<lambda>_.
                     call (Rename (path_steps t) F) id (\<lambda>_.
                     syncDirectory (Dir (abs_path F))))))))) ?Q"
        unfolding p n steps by (rule triple_deferring [OF body clean])
    qed
  qed (simp add: KB')
qed

definition state_file :: "path \<Rightarrow> string \<Rightarrow> path" where
  "state_file D targetID = D @ [map (\<lambda>c. if c = CHR ''/'' \<or> c = CHR 0x5C then CHR ''_'' else c) targetID @ ''.json'']"

lemma state_name_plain: "plain_component (map (\<lambda>c. if c = CHR ''/'' \<or> c = CHR 0x5C then CHR ''_'' else c) targetID @ ''.json'')"
  by (auto simp: plain_component_def)

lemma state_path_steps:
  assumes "\<forall>w \<in> set D. plain_component w"
  shows "state_path (abs_path D) targetID = abs_path (state_file D targetID)"
  using steps_PathJoin [OF assms, of "[map (\<lambda>c. if c = CHR ''/'' \<or> c = CHR 0x5C then CHR ''_'' else c) targetID @ ''.json'']"]
    path_steps_component [OF state_name_plain [of targetID]] state_name_plain [of targetID]
  unfolding state_path_def Let_def state_file_def by simp

lemma state_name_other: "xs @ ''.json'' \<noteq> ''.pemcast-state-'' @ format_nat 10 n"
proof
  assume e: "xs @ ''.json'' = ''.pemcast-state-'' @ format_nat 10 n"
  have d: "list_all is_digit (format_nat 10 n)" "format_nat 10 n \<noteq> []"
    using digits_of_decimal [of n n] unfolding format_nat_def by blast+
  have "last (xs @ ''.json'') = CHR ''n''" by simp
  then have "last (format_nat 10 n) = CHR ''n''" using e d(2) by (metis last_appendR)
  then have "is_digit (CHR ''n'')" using d by (metis last_in_set list_all_iff)
  then show False by (simp add: is_digit_range)
qed

lemma keeping_Ensure:
  assumes J: "\<And>t. holds D F e t \<Longrightarrow> J t" and D: "\<forall>w \<in> set D. plain_component w" and F: "F = D @ [f]"
  shows "keeping (hist J (holds D F e)) (Ensure (abs_path D))"
proof -
  have dir: "dir_at D t" if "holds D F e t" for t using that by (simp add: holds_def)
  have chmod: "keeping (hist J (holds D F e)) (Chmod D mode)" for mode
  proof (rule triple_post [OF triple_Chmod])
    show "J t" if "holds D F e t" for t using J that .
    show "located (holds D F e) D True"
      by (rule located_unlinked) (use dir_unlinked dir plain_dotdot [OF D] in auto)
    show "holds D F e t'" if "holds D F e t" "view t' = (view t)(D := map_option (with_perm mode) (view t D))" for t t'
      using that F by (auto simp: holds_def dir_at_def)
  qed (auto split: sum.splits)
  show ?thesis
    unfolding Ensure_def path_steps_abs_path [OF D]
    apply (rule keeping_call [OF keeping_MkdirAll_existing [OF J dir D]], assumption, assumption)
    apply (rule keeping_call [OF keeping_reads(1)])
    apply (auto intro!: keeping_call chmod)
    done
qed

lemma triple_Save:
  assumes J: "\<And>t. holds D F e t \<or> (\<exists>data. state_Marshal tc st = Some data \<and> holds D F (Some (FileE (data @ [CHR 0x0A]) 384)) t) \<Longrightarrow> J t"
    and D: "\<forall>w \<in> set D. plain_component w" "D \<noteq> []" and F: "F = state_file D targetID"
  shows "triple (hist J (holds D F e)) (Save tc (abs_path D) targetID st)
    (\<lambda>r. case r of Inl x \<Rightarrow> hist J J
       | Inr u \<Rightarrow> hist J (\<lambda>t. \<exists>data. state_Marshal tc st = Some data \<and> holds D F (Some (FileE (data @ [CHR 0x0A]) 384)) t))"
proof -
  have KJ: "J t" if "holds D F e t" for t using J that by blast
  have KJ': "hist J J w" if "hist J (holds D F e) w" for w using that KJ by (rule hist_mono)
  have path: "state_path (abs_path D) targetID = abs_path F" using state_path_steps [OF D(1)] F by simp
  show ?thesis
    unfolding Save_def path
  proof (rule triple_call [OF keeping_Ensure [OF KJ D(1) F [unfolded state_file_def]]])
    fix u :: unit
    let ?Q = "\<lambda>r. case r of Inl x \<Rightarrow> hist J J
       | Inr u \<Rightarrow> hist J (\<lambda>t. \<exists>data. state_Marshal tc st = Some data \<and> holds D F (Some (FileE (data @ [CHR 0x0A]) 384)) t)"
    show "triple (hist J (holds D F e)) (case state_Marshal tc st of
       None \<Rightarrow> done_with (Inl EncodeState)
     | Some data \<Rightarrow> call (writeAtomic (abs_path F) (data @ [CHR 0x0A]) 384) WriteState (\<lambda>_. done_with (Inr ()))) ?Q"
    proof (cases "state_Marshal tc st")
      case (Some data)
      show ?thesis unfolding Some option.case
      proof (rule triple_call [OF triple_writeAtomic [OF J D F [unfolded state_file_def] state_name_plain state_name_other]])
        show "holds D F e t \<or> (\<exists>data. state_Marshal tc st = Some data \<and> holds D F (Some (FileE (data @ [CHR 0x0A]) 384)) t)"
          if "holds D F e t \<or> holds D F (Some (FileE (data @ [CHR 0x0A]) 384)) t" for t using that Some by blast
      qed (use Some J in \<open>auto elim!: hist_mono\<close>)
    qed (use KJ' in simp)
  qed (use KJ' in auto)
qed

section \<open>The record of a target\<close>

text \<open>The record of a target is what its file decodes to.\<close>

definition file_record :: "time_codec \<Rightarrow> string \<Rightarrow> node \<Rightarrow> string \<Rightarrow> state_Target" where
  "file_record tc dir t targetID =
     (case node_at t (path_steps (state_path dir targetID)) True of
        Inr (File data m) \<Rightarrow> (case state_Unmarshal tc data of Some st \<Rightarrow> st | None \<Rightarrow> no_state tc)
      | _ \<Rightarrow> no_state tc)"

lemma Load_record:
  assumes "Load tc dir targetID w = (r, w')"
  shows "w_tree w' = w_tree w \<and> w_past w' = w_past w \<and> (\<forall>st. r = Inr st \<longrightarrow> st = file_record tc dir (w_tree w) targetID)"
proof -
  obtain q w1 where read: "ReadFile (path_steps (state_path dir targetID)) w = (q, w1)" by fastforce
  then have w1: "w1 = tick w" by (auto simp: ReadFile_def dest: reading_world)
  have q: "q = Inl EIO \<or> q = and_then (node_at (w_tree w) (path_steps (state_path dir targetID)) True) id (\<lambda>n.
     case n of File b m \<Rightarrow> Inr b | Symlink target \<Rightarrow> Inl ELOOP | Directory m s es \<Rightarrow> Inl EISDIR)"
    using read by (auto simp: ReadFile_def dest: reading_world)
  have r: "r = (case q of Inl e \<Rightarrow> if e = ENOENT then Inr (no_state tc) else Inl (ReadState e)
     | Inr data \<Rightarrow> case state_Unmarshal tc data of None \<Rightarrow> Inl DecodeState | Some st \<Rightarrow> Inr st)" and w': "w' = w1"
    using assms read by (cases q; simp add: Load_def attempt_eq)+
  have "\<forall>st. r = Inr st \<longrightarrow> st = file_record tc dir (w_tree w) targetID"
    using q unfolding r file_record_def
    by (cases "node_at (w_tree w) (path_steps (state_path dir targetID)) True")
      (auto split: node.splits option.splits if_splits)
  then show ?thesis using w1 w' by simp
qed

lemma Save_record:
  assumes tc: "codec_ok tc" and dir: "dir = abs_path D" "\<forall>w \<in> set D. plain_component w" "D \<noteq> []"
    and w: "hist (dir_at D) (dir_at D) w" and save: "Save tc dir targetID st w = (r, w')"
    and rev: "- (2 ^ 63) \<le> st_Revision st" "st_Revision st < 2 ^ 63"
  shows "hist (dir_at D) (dir_at D) w' \<and> (r = Inr () \<longrightarrow> file_record tc dir (w_tree w') targetID = st)"
proof -
  let ?F = "state_file D targetID"
  let ?N = "\<lambda>t. \<exists>data. state_Marshal tc st = Some data \<and> holds D ?F (Some (FileE (data @ [CHR 0x0A]) 384)) t"
  have pre: "hist (dir_at D) (holds D ?F (view (w_tree w) ?F)) w" using w by (simp add: hist_def holds_def)
  have J: "dir_at D t" if "holds D ?F (view (w_tree w) ?F) t \<or> ?N t" for t using that by (auto simp: holds_def)
  have post: "case r of Inl x \<Rightarrow> hist (dir_at D) (dir_at D) w' | Inr u \<Rightarrow> hist (dir_at D) ?N w'"
    using tripleD [OF triple_Save [where J = "dir_at D", OF J dir(2,3) refl] save [unfolded dir(1)] pre]
    by (cases r) simp_all
  have "file_record tc dir (w_tree w') targetID = st" if "?N (w_tree w')"
  proof -
    obtain data where data: "state_Marshal tc st = Some data"
      and v: "view (w_tree w') ?F = Some (FileE (data @ [CHR 0x0A]) 384)" using \<open>?N (w_tree w')\<close> by (auto simp: holds_def)
    have n: "lookup ?F (w_tree w') = Some (File (data @ [CHR 0x0A]) 384)" using v by (simp add: view_File)
    have F: "\<forall>w \<in> set ?F. plain_component w" using dir(2) state_name_plain [of targetID] by (simp add: state_file_def)
    have "node_at (w_tree w') ?F True = Inr (File (data @ [CHR 0x0A]) 384)"
      using node_at_existing [OF n] plain_dotdot [OF F] by simp
    moreover have "path_steps (state_path dir targetID) = ?F"
      using state_path_steps [OF dir(2)] path_steps_abs_path [OF F] dir(1) by simp
    ultimately show ?thesis using state_roundtrip [OF tc data rev] by (simp add: file_record_def)
  qed
  then show ?thesis using post J by (cases r) (auto simp: hist_def)
qed

end
