(* ===== verification/State_Properties.thy ===== *)
theory State_Properties
  imports State_Facts
begin

text \<open>The properties of the state store, with a sample directory.\<close>

definition sample_codec :: time_codec where
  "sample_codec = \<lparr>tc_zero = 0, tc_Marshal = (\<lambda>t. if t = 0 then Some ''0001-01-01T00:00:00Z'' else None),
     tc_Unmarshal = (\<lambda>s. if s = ''0001-01-01T00:00:00Z'' then Some 0 else None)\<rparr>"

lemma sample_codec_ok: "codec_ok sample_codec"
proof -
  have "utf8_valid ''0001-01-01T00:00:00Z''" by code_simp
  then show ?thesis by (simp add: codec_ok_def sample_codec_def)
qed

definition sample_state :: state_Target where
  "sample_state = \<lparr>st_Generation = ''g'', st_Digest = ''d'', st_Revision = -7, st_ActivatedAt = 0, st_HookError = ''exit 1''\<rparr>"

definition state_world :: world where
  "state_world = \<lparr>w_tree = Directory 493 0 [(''s'', Directory 493 0 [])], w_past = [], w_umask = 18, w_tick = 0,
     w_fault = (\<lambda>_. None), w_clock = int, w_random = id, w_locks = []\<rparr>"

lemma sample_saves: "is_ok (fst (Save sample_codec ''/s'' ''web'' sample_state state_world))"
  by code_simp

lemma state_world_ok: "dir_at [''s''] (w_tree state_world)" "\<forall>w \<in> set [''s'']. plain_component w" "''/s'' = abs_path [''s'']"
proof -
  have "case lookup [''s''] (w_tree state_world) of None \<Rightarrow> False | Some n \<Rightarrow> is_dir n" by code_simp
  then show "dir_at [''s''] (w_tree state_world)" by (auto simp: dir_at_iff split: option.splits)
qed (code_simp+)

text \<open>C37: A reader of a state file finds the old text or the complete new one at every moment of \<open>Save\<close>, whatever
  fails, and the new one after a success: mode 0600, the JSON text and a line break.\<close>

theorem Save_atomic:
  assumes "\<forall>w \<in> set D. plain_component w" "D \<noteq> []" "dir_at D (w_tree w)" "w_past w = []"
    and "Save tc (abs_path D) targetID st w = (r, w')"
  shows "(\<forall>t \<in> set (w_tree w' # w_past w').
      view t (state_file D targetID) = view (w_tree w) (state_file D targetID) \<or>
      (\<exists>data. state_Marshal tc st = Some data \<and> view t (state_file D targetID) = Some (FileE (data @ [CHR 0x0A]) 384))) \<and>
    (is_ok r \<longrightarrow> (\<exists>data. state_Marshal tc st = Some data \<and>
      view (w_tree w') (state_file D targetID) = Some (FileE (data @ [CHR 0x0A]) 384)))"
proof -
  let ?F = "state_file D targetID"
  let ?K = "holds D ?F (view (w_tree w) ?F)"
  let ?N = "\<lambda>t. \<exists>data. state_Marshal tc st = Some data \<and> holds D ?F (Some (FileE (data @ [CHR 0x0A]) 384)) t"
  have "hist (\<lambda>t. ?K t \<or> ?N t) ?K w" using assms(3,4) by (simp add: hist_def holds_def)
  from tripleD [OF triple_Save [where J = "\<lambda>t. ?K t \<or> ?N t", OF _ assms(1,2) refl] assms(5) this]
  have "(case r of Inl x \<Rightarrow> hist (\<lambda>t. ?K t \<or> ?N t) (\<lambda>t. ?K t \<or> ?N t) | Inr u \<Rightarrow> hist (\<lambda>t. ?K t \<or> ?N t) ?N) w'"
    by simp
  then show ?thesis by (cases r) (auto simp: hist_def holds_def)
qed

lemma Save_atomic_witness:
  "\<exists>data. state_Marshal sample_codec sample_state = Some data \<and>
     view (w_tree (snd (Save sample_codec ''/s'' ''web'' sample_state state_world))) (state_file [''s''] ''web'') =
       Some (FileE (data @ [CHR 0x0A]) 384)"
proof -
  obtain r w' where run: "Save sample_codec ''/s'' ''web'' sample_state state_world = (r, w')" by fastforce
  have "w_past state_world = []" by (simp add: state_world_def)
  from Save_atomic [OF state_world_ok(2) _ state_world_ok(1) this run [unfolded state_world_ok(3)]] sample_saves run
  show ?thesis by simp
qed

text \<open>C38: What was saved is what is loaded, unless the read itself fails.\<close>

theorem Save_Load:
  assumes "\<forall>w \<in> set D. plain_component w" "D \<noteq> []" "dir_at D (w_tree w)" "w_past w = []" "codec_ok tc"
    and "- (2 ^ 63) \<le> st_Revision st" "st_Revision st < 2 ^ 63"
    and "Save tc (abs_path D) targetID st w = (Inr (), w')" "Load tc (abs_path D) targetID w' = (r, w'')"
  shows "r = Inr st \<or> r = Inl (ReadState EIO)"
proof -
  let ?F = "state_file D targetID"
  let ?K = "holds D ?F (view (w_tree w) ?F)"
  let ?N = "\<lambda>t. \<exists>data. state_Marshal tc st = Some data \<and> holds D ?F (Some (FileE (data @ [CHR 0x0A]) 384)) t"
  have "hist (\<lambda>t. ?K t \<or> ?N t) ?K w" using assms(3,4) by (simp add: hist_def holds_def)
  from tripleD [OF triple_Save [where J = "\<lambda>t. ?K t \<or> ?N t", OF _ assms(1,2) refl] assms(8) this]
  have "?N (w_tree w')" by (simp add: hist_def)
  then obtain data where data: "state_Marshal tc st = Some data" and v: "view (w_tree w') ?F = Some (FileE (data @ [CHR 0x0A]) 384)"
    by (auto simp: holds_def)
  have n: "lookup ?F (w_tree w') = Some (File (data @ [CHR 0x0A]) 384)" using v by (simp add: view_File)
  have F: "\<forall>w \<in> set ?F. plain_component w" using assms(1) state_name_plain [of targetID] by (simp add: state_file_def)
  have "node_at (w_tree w') ?F True = Inr (File (data @ [CHR 0x0A]) 384)"
    using node_at_existing [OF n] plain_dotdot [OF F] by simp
  moreover have "path_steps (state_path (abs_path D) targetID) = ?F"
    using state_path_steps [OF assms(1)] path_steps_abs_path [OF F] by simp
  ultimately have "fst (ReadFile (path_steps (state_path (abs_path D) targetID)) w') \<in> {Inl EIO, Inr (data @ [CHR 0x0A])}"
    by (auto simp: ReadFile_def reading_def split: option.splits)
  then show ?thesis
    using assms(9) state_roundtrip [OF assms(5) data assms(6,7)] by (auto simp: Load_def attempt_eq)
qed

lemma Save_Load_witness:
  "fst (Load sample_codec ''/s'' ''web'' (snd (Save sample_codec ''/s'' ''web'' sample_state state_world))) = Inr sample_state"
proof -
  let ?w = "snd (Save sample_codec ''/s'' ''web'' sample_state state_world)"
  obtain r w' where run: "Load sample_codec ''/s'' ''web'' ?w = (r, w')" by fastforce
  have ok: "is_ok (fst (Load sample_codec ''/s'' ''web'' ?w))" by code_simp
  have "Save sample_codec ''/s'' ''web'' sample_state state_world = (Inr (), ?w)"
    using sample_saves by (metis prod.collapse unit_ok)
  moreover have "w_past state_world = []" by (simp add: state_world_def)
  moreover have "- (2 ^ 63) \<le> st_Revision sample_state" "st_Revision sample_state < 2 ^ 63" by (simp_all add: sample_state_def)
  ultimately have "r = Inr sample_state \<or> r = Inl (ReadState EIO)"
    using Save_Load [OF state_world_ok(2) _ state_world_ok(1) _ sample_codec_ok] run unfolding state_world_ok(3) by blast
  then show ?thesis using run ok by auto
qed

end
