(* ===== verification/Target_Properties.thy ===== *)
theory Target_Properties
  imports Configuration_Properties Deploy_Properties
begin

text \<open>What the checks of a target ensure for its activation, and what they miss.\<close>

lemma clean_root:
  assumes "IsAbs p" "Clean p = p" "p \<noteq> ''/''"
  obtains R where "R \<noteq> []" "\<forall>w \<in> set R. plain_component w" "p = abs_path R"
proof -
  obtain R where R: "\<forall>w \<in> set R. plain_component w" "Clean p = abs_path R"
    using Clean_rooted [OF assms(1)] .
  moreover have "R \<noteq> []" using R(2) assms(2,3) by (auto simp: abs_path_def)
  ultimately show thesis using that assms(2) by simp
qed

lemma bundle_name_plain: "safeBundleName c \<Longrightarrow> plain_component c"
proof -
  assume "safeBundleName c"
  moreover have "char_of (47::nat) = slash" by code_simp
  ultimately show "plain_component c"
    by (auto simp: safeBundleName_def plain_component_def ContainsAny_iff byte_seq_def)
qed

lemma nested_locals_fail:
  assumes lay: "layout output R" "base R (w_tree w)" and past: "w_past w = []" and d: "digest_text (mat_Digest material)"
    and sort: "\<And>xs. set (newest_first xs) \<subseteq> set xs"
    and m: "m \<in> set (out_Mappings output)" "m' \<in> set (out_Mappings output)" "strict_prefix (local_steps m) (local_steps m')"
  shows "\<not> is_ok (fst (Activate newest_first material output w))"
proof
  let ?link = "out_CurrentLink output"
  assume "is_ok (fst (Activate newest_first material output w))"
  then obtain a w' where run: "Activate newest_first material output w = (Inr a, w')" by (metis is_ok_iff prod.collapse)
  let ?v = "served R ?link (w_tree w')"
  have "hist (old_or_new R ?link (w_tree w) material output) (\<lambda>t. t = w_tree w) w" using past by (simp add: hist_def)
  from tripleD [OF triple_Activate [OF lay d sort] run this] have "release_content material output ?v"
    unfolding sum.case hist_def by blast
  then obtain b b' p p' where v: "?v (local_steps m) = Some (FileE b p)" "?v (local_steps m') = Some (FileE b' p')"
    using m(1,2) unfolding release_content_def by blast
  then obtain target where t: "?v = (\<lambda>q. view (w_tree w') (R @ path_steps target @ q))"
    by (auto simp: served_def fun_eq_iff split: option.splits entry.splits)
  obtain q where q: "local_steps m' = local_steps m @ q" "q \<noteq> []" using m(3) by (auto simp: strict_prefix_def prefix_def)
  have "view (w_tree w') ((R @ path_steps target @ local_steps m) @ q) = Some (FileE b' p')" using v(2) t q(1) by simp
  from view_above [OF this q(2)] show False using v(1) t by (simp add: dir_at_def)
qed

text \<open>The paths of an accepted target.\<close>

lemma valid_target_root:
  assumes "valid_target t"
  obtains R where "R \<noteq> []" "\<forall>w \<in> set R. plain_component w" "out_Root (tg_Output t) = abs_path R"
    "plain_component (out_CurrentLink (tg_Output t))" "\<forall>m \<in> set (out_Mappings (tg_Output t)). safeRelativePath (fm_Local m)"
proof -
  have root: "IsAbs (out_Root (tg_Output t))" "Clean (out_Root (tg_Output t)) = out_Root (tg_Output t)"
      "out_Root (tg_Output t) \<noteq> ''/''"
    and rest: "plain_component (out_CurrentLink (tg_Output t))" "\<forall>m \<in> set (out_Mappings (tg_Output t)). safeRelativePath (fm_Local m)"
    using assms bundle_name_plain by (simp_all add: valid_target_def mapping_ok_def)
  from clean_root [OF root] that rest show thesis by blast
qed

lemma valid_target_distinct:
  assumes "valid_target t"
  shows "distinct (map local_steps (out_Mappings (tg_Output t)))"
proof -
  let ?locals = "map fm_Local (out_Mappings (tg_Output t))"
  have d: "distinct ?locals" and safe: "\<forall>p \<in> set ?locals. safeRelativePath p"
    using assms by (simp_all add: valid_target_def mapping_ok_def)
  have "inj_on path_steps (set ?locals)"
  proof (rule inj_onI)
    fix p q assume pq: "p \<in> set ?locals" "q \<in> set ?locals" and e: "path_steps p = path_steps q"
    have s: "safeRelativePath p" "safeRelativePath q" using safe pq by blast+
    show "p = q" using arg_cong [OF e, of "\<lambda>ws. Join ws ''/''"] unfolding local_Join [OF s(1)] local_Join [OF s(2)] .
  qed
  then have "distinct (map path_steps ?locals)" using d unfolding distinct_map [of path_steps] by blast
  then show ?thesis by (simp add: comp_def)
qed

lemma release_place:
  assumes "\<forall>w \<in> set R. plain_component w" "\<forall>m \<in> set (out_Mappings output). safeRelativePath (fm_Local m)"
    and "m \<in> set (out_Mappings output)"
  shows "local_steps m \<noteq> [] \<and> (\<forall>w \<in> set (local_steps m). plain_component w) \<and>
    (\<forall>d. slash \<notin> set d \<longrightarrow> path_steps (PathJoin [abs_path (releases R @ [release_name d]), fm_Local m]) =
       releases R @ [release_name d] @ local_steps m)"
proof (intro conjI allI impI)
  have s: "safeRelativePath (fm_Local m)" using assms(2,3) by blast
  show "local_steps m \<noteq> []" using s by (rule local_ne)
  show "\<forall>w \<in> set (local_steps m). plain_component w" using s by (rule local_plain)
  fix d assume "slash \<notin> set d"
  then have "\<forall>w \<in> set (releases R @ [release_name d]). plain_component w"
    using assms(1) by (simp add: plain_component_def)
  from node_paths(3) [OF this assms(2,3)]
  show "path_steps (PathJoin [abs_path (releases R @ [release_name d]), fm_Local m]) = releases R @ [release_name d] @ local_steps m"
    by simp
qed

text \<open>C27: what an accepted target can do to the file system. Its output root is a clean absolute path other than
  the root of the file system, the current link is one entry of it, and the files of any release lie below the
  directory of the release, each at a path of its own: nothing lies outside the output root. With a link that does
  not collide with the managed directory, these are the conditions under which the deployer is correct. Acceptance
  does not mean that a deployment can succeed: when the local path of one mapping lies below that of another,
  every activation fails.\<close>

theorem accepted_target_contained:
  assumes "Target_Validate t = Inr ()"
  shows "\<exists>R. R \<noteq> [] \<and> out_Root (tg_Output t) = abs_path R \<and> (\<forall>w \<in> set R. plain_component w) \<and>
    plain_component (out_CurrentLink (tg_Output t)) \<and>
    distinct (map local_steps (out_Mappings (tg_Output t))) \<and>
    (\<forall>m \<in> set (out_Mappings (tg_Output t)). local_steps m \<noteq> [] \<and> (\<forall>w \<in> set (local_steps m). plain_component w) \<and>
      (\<forall>d. slash \<notin> set d \<longrightarrow> path_steps (PathJoin [abs_path (releases R @ [release_name d]), fm_Local m]) =
         releases R @ [release_name d] @ local_steps m)) \<and>
    (out_CurrentLink (tg_Output t) \<noteq> managedDirectory \<longrightarrow> layout (tg_Output t) R \<and>
     (\<forall>m \<in> set (out_Mappings (tg_Output t)). \<forall>m' \<in> set (out_Mappings (tg_Output t)).
        strict_prefix (local_steps m) (local_steps m') \<longrightarrow>
        (\<forall>newest_first material w. (\<forall>xs. set (newest_first xs) \<subseteq> set xs) \<longrightarrow> digest_text (mat_Digest material) \<longrightarrow>
           base R (w_tree w) \<longrightarrow> w_past w = [] \<longrightarrow>
           \<not> is_ok (fst (Activate newest_first material (tg_Output t) w)))))"
proof -
  let ?out = "tg_Output t"
  have v: "valid_target t" using Target_Validate_ok [of t] assms by simp
  obtain R where R: "R \<noteq> []" "\<forall>w \<in> set R. plain_component w" "out_Root ?out = abs_path R"
    and link: "plain_component (out_CurrentLink ?out)"
    and safe: "\<forall>m \<in> set (out_Mappings ?out). safeRelativePath (fm_Local m)"
    using valid_target_root [OF v] .
  have lay: "layout ?out R" if "out_CurrentLink ?out \<noteq> managedDirectory"
    using R link safe that by (simp add: layout_def)
  have nested: "\<not> is_ok (fst (Activate newest_first material ?out w))"
    if "out_CurrentLink ?out \<noteq> managedDirectory" "m \<in> set (out_Mappings ?out)" "m' \<in> set (out_Mappings ?out)"
      "strict_prefix (local_steps m) (local_steps m')" "\<forall>xs. set (newest_first xs) \<subseteq> set xs"
      "digest_text (mat_Digest material)" "base R (w_tree w)" "w_past w = []" for m m' newest_first material w
    using nested_locals_fail [OF lay [OF that(1)] that(7,8,6) _ that(2-4)] that(5) by simp
  show ?thesis
    by (rule exI [of _ R], intro conjI R link valid_target_distinct [OF v] ballI impI allI)
      (use release_place [OF R(2) safe] in \<open>blast+\<close>, erule lay, rule nested)
qed

text \<open>An accepted target whose key would lie below its certificate.\<close>

definition nested_target :: Target where
  "nested_target = example_target\<lparr>tg_Output := sample_output\<lparr>out_Mappings :=
     [\<lparr>fm_Remote = ''fullchain.pem'', fm_Local = ''tls'', fm_Mode = ''0600''\<rparr>,
      \<lparr>fm_Remote = ''privkey.pem'', fm_Local = ''tls/key'', fm_Mode = ''0600''\<rparr>]\<rparr>\<rparr>"

lemma accepted_target_contained_witness:
  "Target_Validate nested_target = Inr () \<and>
   \<not> is_ok (fst (Activate id (sample_material ''cd'') (tg_Output nested_target) sample_world))"
proof -
  have ok: "Target_Validate nested_target = Inr ()" by code_simp
  obtain R where R: "out_Root (tg_Output nested_target) = abs_path R" "\<forall>w \<in> set R. plain_component w"
    and nested: "out_CurrentLink (tg_Output nested_target) \<noteq> managedDirectory \<longrightarrow>
     (\<forall>m \<in> set (out_Mappings (tg_Output nested_target)). \<forall>m' \<in> set (out_Mappings (tg_Output nested_target)).
        strict_prefix (local_steps m) (local_steps m') \<longrightarrow>
        (\<forall>newest_first material w. (\<forall>xs. set (newest_first xs) \<subseteq> set xs) \<longrightarrow> digest_text (mat_Digest material) \<longrightarrow>
           base R (w_tree w) \<longrightarrow> w_past w = [] \<longrightarrow>
           \<not> is_ok (fst (Activate newest_first material (tg_Output nested_target) w))))"
    using accepted_target_contained [OF ok] by blast
  have "path_steps (out_Root (tg_Output nested_target)) = [''o'']" by code_simp
  then have "R = [''o'']" using path_steps_abs_path [OF R(2)] R(1) by simp
  moreover have "out_CurrentLink (tg_Output nested_target) \<noteq> managedDirectory"
    "path_steps ''tls'' = [''tls'']" "path_steps ''tls/key'' = [''tls'', ''key'']" by code_simp+
  ultimately have "\<not> is_ok (fst (Activate id (sample_material ''cd'') (tg_Output nested_target) sample_world))"
    using nested sample_base sample_digest
    by (simp add: nested_target_def sample_material_def sample_world_def)
  then show ?thesis using ok by blast
qed

end
