(* ===== verification/Hook.thy ===== *)
theory Hook
  imports State_Store
begin

text \<open>
  \<open>internal/hook/runner.go\<close>: the event, the environment and the bounded output of a hook. Starting the
  process, killing its group and waiting for it are calls of \<open>os/exec\<close>; the parameter \<open>exec\<close> runs a command
  and tells what it wrote, in chunks, how \<open>Run\<close> failed, and whether the context had ended.
\<close>

record HookEvent =
  he_TargetID :: string
  he_Generation :: string
  he_PreviousGeneration :: string
  he_EtcdRevision :: int
  he_ReleaseDir :: string
  he_CurrentDir :: string
  he_ChangedFiles :: "string list"
  he_BundleSHA256 :: string
  he_ActivatedAt :: int

definition hook_Marshal :: "time_codec \<Rightarrow> HookEvent \<Rightarrow> bytes option" where
  "hook_Marshal tc event =
     (case tc_Marshal tc (he_ActivatedAt event) of
        None \<Rightarrow> None
      | Some instant \<Rightarrow> json_Marshal (JObj
          [(''target-id'', JStr (he_TargetID event)), (''generation'', JStr (he_Generation event)),
           (''previous-generation'', JStr (he_PreviousGeneration event)),
           (''etcd-revision'', JNum (FormatInt (he_EtcdRevision event))),
           (''release-dir'', JStr (he_ReleaseDir event)), (''current-dir'', JStr (he_CurrentDir event)),
           (''changed-files'', JArr (map JStr (he_ChangedFiles event))),
           (''bundle-sha256'', JStr (he_BundleSHA256 event)), (''activated-at'', JStr instant)]))"

section \<open>The environment\<close>

text \<open>The map of the code, latest store first.\<close>

fun passed_values :: "(string \<Rightarrow> string option) \<Rightarrow> string list \<Rightarrow> (string \<times> string) list \<Rightarrow> (string \<times> string) list" where
  "passed_values LookupEnv [] vals = vals"
| "passed_values LookupEnv (name # names) vals =
     passed_values LookupEnv names
       (case LookupEnv name of None \<Rightarrow> vals | Some v \<Rightarrow> (name, v) # vals)"

definition event_values :: "HookEvent \<Rightarrow> (string \<times> string) list" where
  "event_values event =
     [(''PEMCAST_TARGET'', he_TargetID event), (''PEMCAST_GENERATION'', he_Generation event),
      (''PEMCAST_PREVIOUS_GENERATION'', he_PreviousGeneration event),
      (''PEMCAST_ETCD_REVISION'', FormatInt (he_EtcdRevision event)),
      (''PEMCAST_RELEASE_DIR'', he_ReleaseDir event), (''PEMCAST_CURRENT_DIR'', he_CurrentDir event),
      (''PEMCAST_CHANGED_FILES'', Join (he_ChangedFiles event) '',''),
      (''PEMCAST_BUNDLE_SHA256'', he_BundleSHA256 event)]"

definition default_path :: string where
  "default_path = ''/usr/local/sbin:/usr/local/bin:/usr/sbin:/usr/bin:/sbin:/bin''"

definition hookEnvironment :: "(string \<Rightarrow> string option) \<Rightarrow> string list \<Rightarrow> HookEvent \<Rightarrow> string list" where
  "hookEnvironment LookupEnv pass event =
     (let vals = event_values event @ passed_values LookupEnv pass [(''PATH'', default_path)] in
      map (\<lambda>name. name @ ''='' @ the (map_of vals name)) (sorted_keys vals))"

section \<open>The output\<close>

record limitedBuffer =
  lb_data :: bytes
  lb_limit :: int
  lb_truncated :: bool

definition newLimitedBuffer :: "int \<Rightarrow> limitedBuffer" where
  "newLimitedBuffer limit = \<lparr>lb_data = [], lb_limit = limit, lb_truncated = False\<rparr>"

text \<open>\<open>Write\<close> always reports the whole chunk as written.\<close>

definition Buffer_Write :: "bytes \<Rightarrow> limitedBuffer \<Rightarrow> nat \<times> limitedBuffer" where
  "Buffer_Write chunk b =
     (let remaining = lb_limit b - int (length (lb_data b)) in
      (length chunk,
       if remaining \<le> 0 then b\<lparr>lb_truncated := True\<rparr>
       else if remaining < int (length chunk)
       then b\<lparr>lb_data := lb_data b @ take (nat remaining) chunk, lb_truncated := True\<rparr>
       else b\<lparr>lb_data := lb_data b @ chunk\<rparr>))"

definition truncatedString :: "limitedBuffer \<Rightarrow> string" where
  "truncatedString b =
     TrimSpace (lb_data b) @ (if lb_truncated b then CHR 0x0A # ''[output truncated]'' else [])"

section \<open>Running a hook\<close>

record Command =
  cm_Timeout :: "int option"
  cm_Path :: string
  cm_Args :: "string list"
  cm_Env :: "string list"
  cm_Stdin :: string

record Finished =
  fi_Chunks :: "bytes list"
  fi_Err :: "string option"
  fi_CtxErr :: "string option"

definition captured :: "bytes list \<Rightarrow> limitedBuffer" where
  "captured chunks = fold (\<lambda>chunk b. snd (Buffer_Write chunk b)) chunks (newLimitedBuffer 4096)"

text \<open>The error is its text; \<open>marshal_error\<close> is the text of the error of \<open>json.Marshal\<close>.\<close>

definition Hook_Run ::
  "time_codec \<Rightarrow> (HookEvent \<Rightarrow> string) \<Rightarrow> (string \<Rightarrow> string option) \<Rightarrow> (Command \<Rightarrow> 's \<Rightarrow> Finished \<times> 's) \<Rightarrow>
   HookConfig \<Rightarrow> HookEvent \<Rightarrow> ('s, string, unit) io" where
  "Hook_Run tc marshal_error LookupEnv exec cfg event s =
     (if TrimSpace (hk_Path cfg) = [] then (Inr (), s)
      else case hook_Marshal tc event of
        None \<Rightarrow> (Inl (''encode hook event: '' @ marshal_error event), s)
      | Some payload \<Rightarrow>
          (case exec \<lparr>cm_Timeout = (if 0 < hk_Timeout cfg then Some (hk_Timeout cfg) else None),
              cm_Path = hk_Path cfg, cm_Args = hk_Args cfg,
              cm_Env = hookEnvironment LookupEnv (hk_PassEnvironment cfg) event,
              cm_Stdin = payload @ [CHR 0x0A]\<rparr> s of
            (finished, s') \<Rightarrow>
              let output = truncatedString (captured (fi_Chunks finished)) in
              (case fi_Err finished of
                 None \<Rightarrow> (Inr (), s')
               | Some runErr \<Rightarrow>
                   (case fi_CtxErr finished of
                      Some ctxErr \<Rightarrow> (Inl (''hook timed out or was canceled: '' @ ctxErr @ '': '' @ output), s')
                    | None \<Rightarrow> (Inl (''hook failed: '' @ runErr @ '': '' @ output), s')))))"

section \<open>The buffer holds a prefix of the output\<close>

text \<open>
  The specification keeps the whole output. The buffer captures it when it holds as much of it as fits
  and says truly whether something is missing.
\<close>

definition captures :: "limitedBuffer \<Rightarrow> bytes \<Rightarrow> bool" where
  "captures b output \<longleftrightarrow>
     lb_data b = take (nat (lb_limit b)) output \<and> (lb_truncated b \<longleftrightarrow> lb_limit b < int (length output))"

lemma captures_new: "0 \<le> limit \<Longrightarrow> captures (newLimitedBuffer limit) []"
  by (simp add: captures_def newLimitedBuffer_def)

lemma captures_Write:
  assumes "captures b output" "chunk \<noteq> []" "0 \<le> lb_limit b"
  shows "captures (snd (Buffer_Write chunk b)) (output @ chunk)" "lb_limit (snd (Buffer_Write chunk b)) = lb_limit b"
proof -
  obtain n where n: "lb_limit b = int n" using assms(3) nonneg_int_cases by blast
  have d: "lb_data b = take n output" and t: "lb_truncated b \<longleftrightarrow> n < length output"
    using assms(1) n by (simp_all add: captures_def)
  have pos: "length chunk = Suc (length (tl chunk))" using assms(2) by simp
  show "captures (snd (Buffer_Write chunk b)) (output @ chunk)"
  proof (cases "n \<le> length output")
    case True
    then have "length (lb_data b) = n" using d by simp
    then show ?thesis using d n True pos by (simp add: captures_def Buffer_Write_def Let_def)
  next
    case False
    then have "lb_data b = output" "nat (int n - int (length output)) = n - length output" using d by simp_all
    then show ?thesis using t n False by (auto simp: captures_def Buffer_Write_def Let_def)
  qed
  show "lb_limit (snd (Buffer_Write chunk b)) = lb_limit b" by (simp add: Buffer_Write_def Let_def)
qed

lemma captured_output:
  assumes "[] \<notin> set chunks"
  shows "captures (captured chunks) (concat chunks) \<and> lb_limit (captured chunks) = 4096"
  using assms
proof (induction chunks rule: rev_induct)
  case Nil
  then show ?case by (simp add: captured_def captures_new) (simp add: newLimitedBuffer_def)
next
  case (snoc c cs)
  then have IH: "captures (captured cs) (concat cs)" "lb_limit (captured cs) = 4096" by simp_all
  have "captured (cs @ [c]) = snd (Buffer_Write c (captured cs))" by (simp add: captured_def)
  then show ?case using captures_Write [OF IH(1), of c] IH(2) snoc.prems by auto
qed

section \<open>What the environment holds\<close>

lemma passed_values_of:
  "map_of (passed_values LookupEnv pass vs) name =
     (if name \<in> set pass \<and> LookupEnv name \<noteq> None then LookupEnv name else map_of vs name)"
  by (induction pass arbitrary: vs) (auto split: option.splits)

text \<open>The value of a name: of the event, else passed on, else the default path.\<close>

definition hook_value :: "(string \<Rightarrow> string option) \<Rightarrow> string list \<Rightarrow> HookEvent \<Rightarrow> string \<Rightarrow> string option" where
  "hook_value LookupEnv pass event name =
     (case map_of (event_values event) name of
        Some v \<Rightarrow> Some v
      | None \<Rightarrow> if name \<in> set pass \<and> LookupEnv name \<noteq> None then LookupEnv name
          else if name = ''PATH'' then Some default_path else None)"

lemma hookEnvironment_values:
  "hookEnvironment LookupEnv pass event =
     map (\<lambda>name. name @ ''='' @ the (hook_value LookupEnv pass event name))
       (sorted_list_of_set {name. hook_value LookupEnv pass event name \<noteq> None})"
proof -
  let ?vals = "event_values event @ passed_values LookupEnv pass [(''PATH'', default_path)]"
  have v: "map_of ?vals = hook_value LookupEnv pass event"
    by (rule ext) (simp add: hook_value_def passed_values_of map_add_def split: option.split)
  have dom: "fst ` set ?vals = {name. hook_value LookupEnv pass event name \<noteq> None}"
    unfolding v [symmetric] by (auto simp: map_of_eq_None_iff)
  have "sorted_keys ?vals = sorted_list_of_set (fst ` set ?vals)"
    by (rule sorted_distinct_set_unique) (simp_all add: sorted_sorted_keys distinct_sorted_keys)
  then show ?thesis unfolding hookEnvironment_def Let_def v dom by simp
qed

end
