(* ===== verification/Reconcile.thy ===== *)
theory Reconcile
  imports Hook Etcd_Client
begin

text \<open>
  \<open>internal/reconcile/controller.go\<close>: one target is brought to the bundle that etcd names, and its state is
  recorded. The interfaces of the controller are the fields of a record; \<open>Agent_State\<close> fills them with the
  models of the client, the deployer, the hook runner and the store. The lock of a target serializes its own
  calls, and the calls here are one after the other; \<open>if_Acquire\<close> stands for the semaphore, which fails when
  the context ends first.
\<close>

record 's interfaces =
  if_FetchBundle :: "string \<Rightarrow> string \<Rightarrow> int \<Rightarrow> ('s, source_error, Material) io"
  if_Activate :: "Material \<Rightarrow> Output \<Rightarrow> ('s, deploy_error, DeployResult) io"
  if_Run :: "HookConfig \<Rightarrow> HookEvent \<Rightarrow> ('s, string, unit) io"
  if_Load :: "string \<Rightarrow> ('s, state_error, state_Target) io"
  if_Save :: "string \<Rightarrow> state_Target \<Rightarrow> ('s, state_error, unit) io"
  if_Acquire :: "('s, string, unit) io"
  if_Now :: "'s \<Rightarrow> int"

record Controller =
  co_targets :: "(string \<times> Target) list"
  co_dryRun :: bool

datatype reconcile_error =
    ContextEnded string
  | FetchTarget string string source_error
  | WrongBundleType string string string
  | ValidateTarget string policy_error
  | LoadRecord state_error
  | DeployTarget string deploy_error
  | SaveRecord state_error
  | RunHook string string
  | SaveHookFailure string state_error
  | PointerDeleted string

text \<open>The map of the targets, latest store first.\<close>

definition Controller_New :: "Agent \<Rightarrow> Controller" where
  "Controller_New cfg =
     \<lparr>co_targets = rev (map (\<lambda>target. (tg_ID target, target)) (ag_Targets cfg)), co_dryRun = ag_DryRun cfg\<rparr>"

definition HasTarget :: "Controller \<Rightarrow> string \<Rightarrow> bool" where
  "HasTarget c targetID = (map_of (co_targets c) targetID \<noteq> None)"

definition TargetIDs :: "Controller \<Rightarrow> string list" where
  "TargetIDs c = sorted_keys (co_targets c)"

definition with_now :: "'s interfaces \<Rightarrow> (int \<Rightarrow> ('s, 'e, 'a) io) \<Rightarrow> ('s, 'e, 'a) io" where
  "with_now i k s = k (if_Now i s) s"

text \<open>The end of \<open>Reconcile\<close>: the hook and the record of its outcome.\<close>

definition run_hook ::
  "'s interfaces \<Rightarrow> string \<Rightarrow> Target \<Rightarrow> state_Target \<Rightarrow> HookEvent \<Rightarrow> ('s, reconcile_error, unit) io" where
  "run_hook i targetID target next event =
     attempt (if_Run i (tg_Hook target) event) (\<lambda>ran. case ran of
       Inl err \<Rightarrow>
         attempt (if_Save i targetID (next\<lparr>st_HookError := err\<rparr>)) (\<lambda>saved. case saved of
           Inl saveErr \<Rightarrow> done_with (Inl (SaveHookFailure err saveErr))
         | Inr _ \<Rightarrow> done_with (Inl (RunHook targetID err)))
     | Inr _ \<Rightarrow> call (if_Save i targetID next) SaveRecord (\<lambda>_. done_with (Inr ())))"

text \<open>The part of \<open>Reconcile\<close> after a bundle was accepted.\<close>

definition deploy_target ::
  "'s interfaces \<Rightarrow> string \<Rightarrow> Target \<Rightarrow> string \<Rightarrow> int \<Rightarrow> Material \<Rightarrow> ('s, reconcile_error, unit) io" where
  "deploy_target i targetID target generation revision material =
     call (if_Load i targetID) LoadRecord (\<lambda>previous.
     call (if_Activate i material (tg_Output target)) (DeployTarget targetID) (\<lambda>result.
     if \<not> dr_Changed result \<and> st_HookError previous = [] then
       if st_Generation previous \<noteq> generation \<or> st_Digest previous \<noteq> mat_Digest material
       then call (if_Save i targetID (previous\<lparr>st_Generation := generation, st_Digest := mat_Digest material,
              st_Revision := revision\<rparr>)) SaveRecord (\<lambda>_. done_with (Inr ()))
       else done_with (Inr ())
     else
       let changed = map fm_Local (out_Mappings (tg_Output target));
           releaseDir = (if dr_ReleaseDir result = [] then dr_CurrentDir result else dr_ReleaseDir result) in
       with_now i (\<lambda>now.
       run_hook i targetID target
         \<lparr>st_Generation = generation, st_Digest = mat_Digest material, st_Revision = revision,
          st_ActivatedAt = now, st_HookError = []\<rparr>
         \<lparr>he_TargetID = targetID, he_Generation = generation, he_PreviousGeneration = st_Generation previous,
          he_EtcdRevision = revision, he_ReleaseDir = releaseDir, he_CurrentDir = dr_CurrentDir result,
          he_ChangedFiles = changed, he_BundleSHA256 = mat_Digest material, he_ActivatedAt = now\<rparr>)))"

definition Reconcile ::
  "crypto \<Rightarrow> 's interfaces \<Rightarrow> Controller \<Rightarrow> string \<Rightarrow> string \<Rightarrow> int \<Rightarrow> ('s, reconcile_error, unit) io" where
  "Reconcile L i c targetID generation revision =
     (case map_of (co_targets c) targetID of
        None \<Rightarrow> done_with (Inr ())
      | Some target \<Rightarrow>
          call (if_Acquire i) ContextEnded (\<lambda>_.
          call (if_FetchBundle i targetID generation revision) (FetchTarget targetID generation) (\<lambda>material.
          if m_Type (mat_Manifest material) \<noteq> tg_Type target
          then done_with (Inl (WrongBundleType targetID (tg_Type target) (m_Type (mat_Manifest material))))
          else
            with_now i (\<lambda>now.
            call (done_with (ValidatePolicy L now (Some material)
                \<lparr>pol_Now = Some now, pol_RejectExpired = va_RejectExpired (tg_Validation target),
                 pol_MinimumValidity = va_MinimumValidity (tg_Validation target),
                 pol_ServerNames = va_ServerNames (tg_Validation target)\<rparr>)) (ValidateTarget targetID) (\<lambda>_.
            if co_dryRun c then done_with (Inr ())
            else deploy_target i targetID target generation revision material)))))"

definition HandleDelete :: "Controller \<Rightarrow> string \<Rightarrow> ('s, reconcile_error, unit) io" where
  "HandleDelete c targetID =
     (case map_of (co_targets c) targetID of
        None \<Rightarrow> done_with (Inr ())
      | Some target \<Rightarrow>
          if tg_DeletePolicy target = ''retain'' then done_with (Inr ()) else done_with (Inl (PointerDeleted targetID)))"

text \<open>
  \<open>ReconcileSnapshot\<close> starts one goroutine per target. They are run here one after the other, in the order
  \<open>schedule\<close>, and the errors are joined in that order.
\<close>

fun reconcile_all ::
  "crypto \<Rightarrow> 's interfaces \<Rightarrow> Controller \<Rightarrow> Snapshot \<Rightarrow> reconcile_error list \<Rightarrow> string list \<Rightarrow>
   ('s, reconcile_error list, unit) io" where
  "reconcile_all L i c snapshot errors [] = done_with (if errors = [] then Inr () else Inl errors)"
| "reconcile_all L i c snapshot errors (targetID # ids) =
     attempt (case map_of (snap_Active snapshot) targetID of
         None \<Rightarrow> HandleDelete c targetID
       | Some generation \<Rightarrow> Reconcile L i c targetID generation (snap_Revision snapshot)) (\<lambda>r.
     reconcile_all L i c snapshot (case r of Inl e \<Rightarrow> errors @ [e] | Inr _ \<Rightarrow> errors) ids)"

definition ReconcileSnapshot ::
  "(string list \<Rightarrow> string list) \<Rightarrow> crypto \<Rightarrow> 's interfaces \<Rightarrow> Controller \<Rightarrow> Snapshot \<Rightarrow>
   ('s, reconcile_error list, unit) io" where
  "ReconcileSnapshot schedule L i c snapshot = reconcile_all L i c snapshot [] (schedule (TargetIDs c))"

section \<open>What the record says\<close>

text \<open>
  What the controller relies on: the store keeps a record per target that only \<open>Save\<close> changes, the roots
  are changed by \<open>Activate\<close> only and what the hooks change by \<open>Run\<close> only, in the states \<open>ok\<close> that all calls keep.
\<close>

locale recording =
  fixes i :: "'s interfaces" and ok :: "'s \<Rightarrow> bool" and recorded :: "'s \<Rightarrow> string \<Rightarrow> state_Target" and roots :: "'s \<Rightarrow> 'w"
    and hooks :: "'s \<Rightarrow> 'h"
  assumes load: "ok s \<Longrightarrow> if_Load i targetID s = (l, s') \<Longrightarrow>
      ok s' \<and> recorded s' = recorded s \<and> roots s' = roots s \<and> hooks s' = hooks s \<and> (\<forall>st. l = Inr st \<longrightarrow> st = recorded s targetID)"
    and save: "ok s \<Longrightarrow> if_Save i targetID st s = (r, s') \<Longrightarrow> - (2 ^ 63) \<le> st_Revision st \<Longrightarrow> st_Revision st < 2 ^ 63 \<Longrightarrow>
      ok s' \<and> roots s' = roots s \<and> hooks s' = hooks s \<and> (r = Inr () \<longrightarrow> recorded s' targetID = st)"
    and fetch: "ok s \<Longrightarrow> if_FetchBundle i targetID generation revision s = (x, s') \<Longrightarrow>
      ok s' \<and> recorded s' = recorded s \<and> roots s' = roots s \<and> hooks s' = hooks s"
    and activate: "ok s \<Longrightarrow> if_Activate i material out s = (y, s') \<Longrightarrow>
      ok s' \<and> recorded s' = recorded s \<and> hooks s' = hooks s"
    and run: "ok s \<Longrightarrow> if_Run i cfg event s = (z, s') \<Longrightarrow> ok s' \<and> recorded s' = recorded s \<and> roots s' = roots s"
    and acquire: "ok s \<Longrightarrow> if_Acquire i s = (u, s') \<Longrightarrow>
      ok s' \<and> recorded s' = recorded s \<and> roots s' = roots s \<and> hooks s' = hooks s"
begin

text \<open>
  How a successful reconciliation ends: the record names the generation and the digest and no failure of the
  hook; the activation was the last change of the roots; and the hook ran, or there was nothing to run it for.
\<close>

definition settled :: "string \<Rightarrow> Target \<Rightarrow> string \<Rightarrow> Material \<Rightarrow> 's \<Rightarrow> 's \<Rightarrow> bool" where
  "settled targetID target generation material s s' \<longleftrightarrow>
     st_Generation (recorded s' targetID) = generation \<and> st_Digest (recorded s' targetID) = mat_Digest material \<and>
     st_HookError (recorded s' targetID) = [] \<and>
     (\<exists>s1 a s2. roots s1 = roots s \<and> if_Activate i material (tg_Output target) s1 = (Inr a, s2) \<and> roots s' = roots s2 \<and>
        (\<not> dr_Changed a \<and> st_HookError (recorded s targetID) = [] \<and> hooks s' = hooks s \<or>
         (\<exists>event s3 s4. if_Run i (tg_Hook target) event s3 = (Inr (), s4) \<and> hooks s3 = hooks s \<and> hooks s' = hooks s4 \<and>
            he_BundleSHA256 event = mat_Digest material \<and> he_TargetID event = targetID \<and>
            he_PreviousGeneration event = st_Generation (recorded s targetID))))"

lemma run_hook_ok:
  assumes "ok s" "run_hook i targetID target next event s = (Inr (), s')"
    and "- (2 ^ 63) \<le> st_Revision next" "st_Revision next < 2 ^ 63"
  shows "recorded s' targetID = next \<and> roots s' = roots s \<and>
    (\<exists>s1 s2. if_Run i (tg_Hook target) event s1 = (Inr (), s2) \<and> hooks s1 = hooks s \<and> hooks s' = hooks s2)"
proof -
  obtain ran s1 where r: "if_Run i (tg_Hook target) event s = (ran, s1)" by fastforce
  have ok1: "ok s1" "roots s1 = roots s" using run [OF assms(1) r] by blast+
  show ?thesis
  proof (cases ran)
    case (Inl err)
    obtain q s2 where "if_Save i targetID (next\<lparr>st_HookError := err\<rparr>) s1 = (q, s2)" by fastforce
    then show ?thesis using assms(2) r Inl by (cases q) (auto simp: run_hook_def attempt_eq)
  next
    case (Inr u)
    then have "call (if_Save i targetID next) SaveRecord (\<lambda>_. done_with (Inr ())) s1 = (Inr (), s')"
      using assms(2) r by (auto simp: run_hook_def attempt_eq)
    then obtain x s2 where sv: "if_Save i targetID next s1 = (Inr x, s2)" "s' = s2" by (auto simp: call_Inr)
    then have "recorded s' targetID = next" "roots s' = roots s1" "hooks s' = hooks s1" using save [OF ok1(1) sv(1) assms(3,4)] by simp_all
    then show ?thesis using r Inr ok1(2) by (intro conjI exI [of _ s] exI [of _ s1]) simp_all
  qed
qed

lemma deploy_target_ok:
  assumes s: "ok s" and d: "deploy_target i targetID target generation revision material s = (Inr (), s')"
    and rev: "- (2 ^ 63) \<le> revision" "revision < 2 ^ 63"
  shows "settled targetID target generation material s s'"
proof -
  obtain previous s1 a s2 where l: "if_Load i targetID s = (Inr previous, s1)"
    and a: "if_Activate i material (tg_Output target) s1 = (Inr a, s2)"
    and rest: "(if \<not> dr_Changed a \<and> st_HookError previous = [] then
       if st_Generation previous \<noteq> generation \<or> st_Digest previous \<noteq> mat_Digest material
       then call (if_Save i targetID (previous\<lparr>st_Generation := generation, st_Digest := mat_Digest material,
              st_Revision := revision\<rparr>)) SaveRecord (\<lambda>_. done_with (Inr ()))
       else done_with (Inr ())
     else
       let changed = map fm_Local (out_Mappings (tg_Output target));
           releaseDir = (if dr_ReleaseDir a = [] then dr_CurrentDir a else dr_ReleaseDir a) in
       with_now i (\<lambda>now.
       run_hook i targetID target
         \<lparr>st_Generation = generation, st_Digest = mat_Digest material, st_Revision = revision,
          st_ActivatedAt = now, st_HookError = []\<rparr>
         \<lparr>he_TargetID = targetID, he_Generation = generation, he_PreviousGeneration = st_Generation previous,
          he_EtcdRevision = revision, he_ReleaseDir = releaseDir, he_CurrentDir = dr_CurrentDir a,
          he_ChangedFiles = changed, he_BundleSHA256 = mat_Digest material, he_ActivatedAt = now\<rparr>)) s2 = (Inr (), s')"
    using d unfolding deploy_target_def call_Inr by blast
  have s1: "ok s1" "recorded s1 = recorded s" "roots s1 = roots s" "previous = recorded s targetID"
    and h1: "hooks s1 = hooks s" using load [OF s l] by simp_all
  have s2: "ok s2" "recorded s2 = recorded s" "hooks s2 = hooks s" using activate [OF s1(1) a] s1(2) h1 by simp_all
  show ?thesis
  proof (cases "\<not> dr_Changed a \<and> st_HookError previous = []")
    case True
    show ?thesis
    proof (cases "st_Generation previous \<noteq> generation \<or> st_Digest previous \<noteq> mat_Digest material")
      case neq: True
      then obtain x where sv: "if_Save i targetID (previous\<lparr>st_Generation := generation, st_Digest := mat_Digest material,
              st_Revision := revision\<rparr>) s2 = (Inr x, s')" using rest True by (auto simp: call_Inr)
      have "recorded s' targetID = previous\<lparr>st_Generation := generation, st_Digest := mat_Digest material, st_Revision := revision\<rparr>"
        "roots s' = roots s2" "hooks s' = hooks s"
        using save [OF s2(1) sv] rev s2(3) by simp_all
      then show ?thesis using True a s1(3,4) unfolding settled_def by auto
    next
      case False
      then have "s' = s2" using rest True by simp
      then show ?thesis using True False a s1(3,4) s2(2,3) unfolding settled_def by auto
    qed
  next
    case False
    let ?next = "\<lparr>st_Generation = generation, st_Digest = mat_Digest material, st_Revision = revision,
          st_ActivatedAt = if_Now i s2, st_HookError = []\<rparr>"
    let ?event = "\<lparr>he_TargetID = targetID, he_Generation = generation, he_PreviousGeneration = st_Generation previous,
          he_EtcdRevision = revision, he_ReleaseDir = (if dr_ReleaseDir a = [] then dr_CurrentDir a else dr_ReleaseDir a),
          he_CurrentDir = dr_CurrentDir a, he_ChangedFiles = map fm_Local (out_Mappings (tg_Output target)),
          he_BundleSHA256 = mat_Digest material, he_ActivatedAt = if_Now i s2\<rparr>"
    have "run_hook i targetID target ?next ?event s2 = (Inr (), s')"
      using rest False by (simp only: if_False Let_def with_now_def)
    then have "recorded s' targetID = ?next \<and> roots s' = roots s2 \<and>
        (\<exists>s3 s4. if_Run i (tg_Hook target) ?event s3 = (Inr (), s4) \<and> hooks s3 = hooks s \<and> hooks s' = hooks s4)"
      using run_hook_ok [OF s2(1)] rev s2(3) by simp
    then show ?thesis using a s1(3,4) unfolding settled_def by fastforce
  qed
qed

lemma Reconcile_ok:
  assumes s: "ok s" and r: "Reconcile L i c targetID generation revision s = (Inr (), s')"
    and target: "map_of (co_targets c) targetID = Some target" and dry: "\<not> co_dryRun c"
    and rev: "- (2 ^ 63) \<le> revision" "revision < 2 ^ 63"
  shows "\<exists>material s0 s1. if_Acquire i s = (Inr (), s0) \<and>
    if_FetchBundle i targetID generation revision s0 = (Inr material, s1) \<and>
    m_Type (mat_Manifest material) = tg_Type target \<and> settled targetID target generation material s s'"
proof -
  obtain s0 material s1 where ac: "if_Acquire i s = (Inr (), s0)"
    and f: "if_FetchBundle i targetID generation revision s0 = (Inr material, s1)"
    and ty: "m_Type (mat_Manifest material) = tg_Type target"
    and d: "deploy_target i targetID target generation revision material s1 = (Inr (), s')"
    using r target dry unfolding Reconcile_def
    by (auto simp: call_Inr with_now_def split: if_split_asm)
  have s0: "ok s0" "recorded s0 = recorded s" "roots s0 = roots s" "hooks s0 = hooks s" using acquire [OF s ac] by simp_all
  have s1: "ok s1" "recorded s1 = recorded s" "roots s1 = roots s" "hooks s1 = hooks s" using fetch [OF s0(1) f] s0(2-4) by simp_all
  have "settled targetID target generation material s1 s'" by (rule deploy_target_ok [OF s1(1) d rev])
  then have "settled targetID target generation material s s'" unfolding settled_def s1(2-4) .
  then show ?thesis using ac f ty by blast
qed

end

end
