(* ===== verification/Agent_State.thy ===== *)
theory Agent_State
  imports Reconcile State_Facts Seed Etcd_Client
begin

text \<open>
  The interfaces of the controller filled with the models of the components, as \<open>New\<close> of
  \<open>internal/appcmd/agent/application.go\<close> does. The state of the whole is what each component changes: the etcd
  service, the file system with the output roots, the one with the state directory, and what the hook changes. The
  state directory and the output roots do not overlap, and hooks change neither.
\<close>

record ('e, 'h) system =
  sy_etcd :: 'e
  sy_roots :: world
  sy_state :: world
  sy_hooks :: 'h

text \<open>What the runtime is made of: the configured parts, and the library calls that are parameters of the models.\<close>

record ('e, 'h) runtime =
  rt_crypto :: crypto
  rt_client :: "'e Client"
  rt_newest_first :: "(string \<times> int) list \<Rightarrow> (string \<times> int) list"
  rt_codec :: time_codec
  rt_dir :: string
  rt_marshal_error :: "HookEvent \<Rightarrow> string"
  rt_LookupEnv :: "string \<Rightarrow> string option"
  rt_exec :: "Command \<Rightarrow> 'h \<Rightarrow> Finished \<times> 'h"
  rt_ended :: "('e, 'h) system \<Rightarrow> string option"

definition on_etcd :: "('e, 'x, 'a) io \<Rightarrow> (('e, 'h) system, 'x, 'a) io" where
  "on_etcd m s = (case m (sy_etcd s) of (r, e) \<Rightarrow> (r, s\<lparr>sy_etcd := e\<rparr>))"

definition on_roots :: "(world, 'x, 'a) io \<Rightarrow> (('e, 'h) system, 'x, 'a) io" where
  "on_roots m s = (case m (sy_roots s) of (r, w) \<Rightarrow> (r, s\<lparr>sy_roots := w\<rparr>))"

definition on_state :: "(world, 'x, 'a) io \<Rightarrow> (('e, 'h) system, 'x, 'a) io" where
  "on_state m s = (case m (sy_state s) of (r, w) \<Rightarrow> (r, s\<lparr>sy_state := w\<rparr>))"

definition on_hooks :: "('h, 'x, 'a) io \<Rightarrow> (('e, 'h) system, 'x, 'a) io" where
  "on_hooks m s = (case m (sy_hooks s) of (r, h) \<Rightarrow> (r, s\<lparr>sy_hooks := h\<rparr>))"

definition system_interfaces :: "('e, 'h) runtime \<Rightarrow> ('e, 'h) system interfaces" where
  "system_interfaces rt =
     \<lparr>if_FetchBundle = (\<lambda>targetID generation revision.
        on_etcd (FetchBundle (rt_crypto rt) (rt_client rt) targetID generation revision)),
      if_Activate = (\<lambda>material output. on_roots (Activate (rt_newest_first rt) material output)),
      if_Run = (\<lambda>cfg event. on_hooks (Hook_Run (rt_codec rt) (rt_marshal_error rt) (rt_LookupEnv rt) (rt_exec rt) cfg event)),
      if_Load = (\<lambda>targetID. on_state (Load (rt_codec rt) (rt_dir rt) targetID)),
      if_Save = (\<lambda>targetID st. on_state (Save (rt_codec rt) (rt_dir rt) targetID st)),
      if_Acquire = (\<lambda>s. (case rt_ended rt s of None \<Rightarrow> Inr () | Some e \<Rightarrow> Inl e, s)),
      if_Now = (\<lambda>s. now_of (sy_roots s))\<rparr>"

section \<open>The contract of the controller\<close>

text \<open>The state directory is there at every moment, below an absolute clean path.\<close>

definition system_ok :: "('e, 'h) runtime \<Rightarrow> ('e, 'h) system \<Rightarrow> bool" where
  "system_ok rt s \<longleftrightarrow>
     codec_ok (rt_codec rt) \<and> rt_dir rt = abs_path (path_steps (rt_dir rt)) \<and> path_steps (rt_dir rt) \<noteq> [] \<and>
     (\<forall>w \<in> set (path_steps (rt_dir rt)). plain_component w) \<and>
     hist (dir_at (path_steps (rt_dir rt))) (dir_at (path_steps (rt_dir rt))) (sy_state s)"

definition system_record :: "('e, 'h) runtime \<Rightarrow> ('e, 'h) system \<Rightarrow> string \<Rightarrow> state_Target" where
  "system_record rt s = file_record (rt_codec rt) (rt_dir rt) (w_tree (sy_state s))"

interpretation system: recording "system_interfaces rt" "system_ok rt" "system_record rt" sy_roots sy_hooks for rt
proof
  fix s s' :: "('a, 'b) system" and targetID l
  assume "system_ok rt s" "if_Load (system_interfaces rt) targetID s = (l, s')"
  then show "system_ok rt s' \<and> system_record rt s' = system_record rt s \<and> sy_roots s' = sy_roots s \<and> sy_hooks s' = sy_hooks s \<and>
      (\<forall>st. l = Inr st \<longrightarrow> st = system_record rt s targetID)"
    using Load_record [of "rt_codec rt" "rt_dir rt" targetID "sy_state s"]
    by (auto simp: system_interfaces_def on_state_def system_ok_def system_record_def hist_def split: prod.splits)
next
  fix s s' :: "('a, 'b) system" and targetID st r
  assume "system_ok rt s" "if_Save (system_interfaces rt) targetID st s = (r, s')"
    "- (2 ^ 63) \<le> st_Revision st" "st_Revision st < 2 ^ 63"
  then show "system_ok rt s' \<and> sy_roots s' = sy_roots s \<and> sy_hooks s' = sy_hooks s \<and> (r = Inr () \<longrightarrow> system_record rt s' targetID = st)"
    using Save_record [of "rt_codec rt" "rt_dir rt" "path_steps (rt_dir rt)" "sy_state s" targetID st r]
    by (auto simp: system_interfaces_def on_state_def system_ok_def system_record_def split: prod.splits)
qed (auto simp: system_interfaces_def on_etcd_def on_roots_def on_hooks_def system_ok_def system_record_def
    split: prod.splits)

end
