(* ===== verification/Reconcile_Properties.thy ===== *)
theory Reconcile_Properties
  imports Agent_State Seed_Properties State_Properties
begin

text \<open>The properties of a reconciliation of the whole agent, and a sample agent.\<close>

section \<open>Digests\<close>

lemma hex_digits: "list_all (\<lambda>n. hex_digit n \<in> set ''0123456789abcdef'') [0..<16]"
  by code_simp

lemma hex_digit_set: "n < 16 \<Longrightarrow> hex_digit n \<in> set ''0123456789abcdef''"
  using hex_digits unfolding list_all_iff by (metis atLeast0LessThan lessThan_iff set_upt)

lemma ManifestDigest_text:
  assumes "crypto_ok L"
  shows "digest_text (ManifestDigest L manifest files)"
proof -
  let ?x = "sha256 L (digest_input L manifest files)"
  have "length ?x = 32" using assms by (simp add: crypto_ok_def)
  then have "hex_encode ?x \<noteq> []" by (metis length_hex_encode list.size(3) mult_eq_0_iff zero_neq_numeral)
  moreover have "set (hex_encode bs) \<subseteq> set ''0123456789abcdef''" for bs
  proof
    fix c assume "c \<in> set (hex_encode bs)"
    then obtain b where "c = hex_digit (byte_val b div 16) \<or> c = hex_digit (byte_val b mod 16)"
      by (auto simp: hex_encode_def)
    moreover have "byte_val b div 16 < 16" "byte_val b mod 16 < 16" using byte_val_bound [of b] by (simp_all add: less_mult_imp_div_less)
    ultimately show "c \<in> set ''0123456789abcdef''" using hex_digit_set by blast
  qed
  ultimately show ?thesis by (auto simp: digest_text_def ManifestDigest_def)
qed

lemma FetchBundle_digest:
  assumes "crypto_ok L" "FetchBundle L c targetID generation revision s = (Inr material, s')"
  shows "digest_text (mat_Digest material)" "mat_Generation material = generation"
proof -
  obtain resp :: GetResponse and e :: KeyValue where "materialFromValue L targetID generation (kv_Value e) (resp_Revision resp) = Inr material"
  proof -
    let ?m = "\<lambda>resp :: GetResponse. case resp_Kvs resp of
        [e] \<Rightarrow> done_with (materialFromValue L targetID generation (kv_Value e) (resp_Revision resp))
      | _ \<Rightarrow> done_with (Inl (BundleMissing (Keys_BundleKey (cl_keys c) targetID generation)))"
    obtain resp t where "?m resp t = (Inr material, s')"
      using assms(2) by (auto simp: FetchBundle_def Let_def call_Inr split: if_split_asm)
    moreover obtain e where "resp_Kvs resp = [e]"
      using calculation by (cases "resp_Kvs resp" rule: remdups_adj.cases) simp_all
    ultimately show thesis using that [of e resp] by simp
  qed
  then have "\<exists>m f. mat_Digest material = ManifestDigest L m f" "mat_Generation material = generation"
    by (auto simp: materialFromValue_def and_then_Inr Decode_Inr split: prod.splits) blast
  then show "digest_text (mat_Digest material)" "mat_Generation material = generation"
    using ManifestDigest_text [OF assms(1)] by auto
qed

section \<open>A successful reconciliation\<close>

text \<open>C39: A successful reconciliation has brought the target to the bundle of etcd: the bundle has the type of
  the target, the current link selects its release with all mapped files, the record of the target names the
  generation and the digest and no failure of the hook, and the hook ran once, with this bundle and the
  previous generation of the record, or the release was active already, its last hook had not failed, and neither
  the roots nor anything that hooks change was touched.\<close>

theorem Reconcile_converges:
  assumes "crypto_ok (rt_crypto rt)" "system_ok rt s" "w_past (sy_roots s) = []"
    and "\<And>xs. set (rt_newest_first rt xs) \<subseteq> set xs"
    and "map_of (co_targets c) targetID = Some target" "\<not> co_dryRun c"
    and "layout (tg_Output target) R" "base R (w_tree (sy_roots s))"
    and "- (2 ^ 63) \<le> revision" "revision < 2 ^ 63"
    and "Reconcile (rt_crypto rt) (system_interfaces rt) c targetID generation revision s = (Inr (), s')"
  shows "\<exists>material etcd.
    FetchBundle (rt_crypto rt) (rt_client rt) targetID generation revision (sy_etcd s) = (Inr material, etcd) \<and>
    m_Type (mat_Manifest material) = tg_Type target \<and>
    view (w_tree (sy_roots s')) (R @ [out_CurrentLink (tg_Output target)]) = Some (LinkE (release_target (mat_Digest material))) \<and>
    release_content material (tg_Output target) (served R (out_CurrentLink (tg_Output target)) (w_tree (sy_roots s'))) \<and>
    st_Generation (system_record rt s' targetID) = generation \<and>
    st_Digest (system_record rt s' targetID) = mat_Digest material \<and>
    st_HookError (system_record rt s' targetID) = [] \<and>
    (w_tree (sy_roots s') = w_tree (sy_roots s) \<and> st_HookError (system_record rt s targetID) = [] \<and> sy_hooks s' = sy_hooks s \<or>
     (\<exists>event. he_TargetID event = targetID \<and> he_BundleSHA256 event = mat_Digest material \<and>
        he_PreviousGeneration event = st_Generation (system_record rt s targetID) \<and>
        Hook_Run (rt_codec rt) (rt_marshal_error rt) (rt_LookupEnv rt) (rt_exec rt) (tg_Hook target) event (sy_hooks s) =
          (Inr (), sy_hooks s')))"
proof -
  obtain material s0 s1 where ac: "if_Acquire (system_interfaces rt) s = (Inr (), s0)"
    and f: "if_FetchBundle (system_interfaces rt) targetID generation revision s0 = (Inr material, s1)"
    and ty: "m_Type (mat_Manifest material) = tg_Type target"
    and st: "system.settled rt targetID target generation material s s'"
    using system.Reconcile_ok [OF assms(2,11,5,6,9,10)] by blast
  have "s0 = s" using ac by (auto simp: system_interfaces_def split: option.splits)
  then obtain etcd where fetch: "FetchBundle (rt_crypto rt) (rt_client rt) targetID generation revision (sy_etcd s) = (Inr material, etcd)"
    using f by (auto simp: system_interfaces_def on_etcd_def split: prod.splits)
  obtain s2 a s3 where r: "sy_roots s2 = sy_roots s" "sy_roots s' = sy_roots s3"
    and a: "if_Activate (system_interfaces rt) material (tg_Output target) s2 = (Inr a, s3)"
    and why: "\<not> dr_Changed a \<and> st_HookError (system_record rt s targetID) = [] \<and> sy_hooks s' = sy_hooks s \<or>
         (\<exists>event s3 s4. if_Run (system_interfaces rt) (tg_Hook target) event s3 = (Inr (), s4) \<and>
            sy_hooks s3 = sy_hooks s \<and> sy_hooks s' = sy_hooks s4 \<and>
            he_BundleSHA256 event = mat_Digest material \<and> he_TargetID event = targetID \<and>
            he_PreviousGeneration event = st_Generation (system_record rt s targetID))"
    using st unfolding system.settled_def by blast
  have act: "Activate (rt_newest_first rt) material (tg_Output target) (sy_roots s) = (Inr a, sy_roots s')"
    using a r by (auto simp: system_interfaces_def on_roots_def split: prod.splits)
  note digest = FetchBundle_digest(1) [OF assms(1) fetch]
  have "hist (old_or_new R (out_CurrentLink (tg_Output target)) (w_tree (sy_roots s)) material (tg_Output target))
      (\<lambda>t. t = w_tree (sy_roots s)) (sy_roots s)"
    using assms(3) by (simp add: hist_def)
  note installed = tripleD [OF triple_Activate [OF assms(7,8) digest assms(4)] act this, unfolded sum.case hist_def]
  have hook: "if_Run (system_interfaces rt) cfg event t = (Inr (), t') \<Longrightarrow>
      Hook_Run (rt_codec rt) (rt_marshal_error rt) (rt_LookupEnv rt) (rt_exec rt) cfg event (sy_hooks t) = (Inr (), sy_hooks t')"
    for cfg event t t'
    by (auto simp: system_interfaces_def on_hooks_def split: prod.splits)
  have "w_tree (sy_roots s') = w_tree (sy_roots s) \<and> st_HookError (system_record rt s targetID) = [] \<and> sy_hooks s' = sy_hooks s \<or>
     (\<exists>event. he_TargetID event = targetID \<and> he_BundleSHA256 event = mat_Digest material \<and>
        he_PreviousGeneration event = st_Generation (system_record rt s targetID) \<and>
        Hook_Run (rt_codec rt) (rt_marshal_error rt) (rt_LookupEnv rt) (rt_exec rt) (tg_Hook target) event (sy_hooks s) =
          (Inr (), sy_hooks s'))"
    using why
  proof (elim disjE exE conjE)
    assume "\<not> dr_Changed a" "st_HookError (system_record rt s targetID) = []" "sy_hooks s' = sy_hooks s"
    then show ?thesis using installed by blast
  next
    fix event t t'
    assume run: "if_Run (system_interfaces rt) (tg_Hook target) event t = (Inr (), t')"
      and e: "sy_hooks t = sy_hooks s" "sy_hooks s' = sy_hooks t'" "he_BundleSHA256 event = mat_Digest material"
        "he_TargetID event = targetID" "he_PreviousGeneration event = st_Generation (system_record rt s targetID)"
    from hook [OF run] show ?thesis using e by auto
  qed
  then show ?thesis using fetch ty st installed unfolding system.settled_def by blast
qed

section \<open>A sample agent\<close>

definition web_digest :: string where
  "web_digest = ''4cf0'' @ concat (replicate 30 ''78'')"

definition web_material_of :: "Manifest \<Rightarrow> Material" where
  "web_material_of manifest = \<lparr>mat_TargetID = ''web'', mat_Generation = Generation web_digest, mat_Revision = 2,
     mat_Manifest = manifest, mat_Files = [(''privkey.pem'', ''K''), (''fullchain.pem'', ''LA'')],
     mat_Digest = web_digest, mat_Certificates = [Some (sample_cert ''L''), Some (sample_cert ''A'')],
     mat_Leaf = Some (sample_cert ''L'')\<rparr>"

definition web_material :: Material where
  "web_material = web_material_of (fst sample_manifest)"

definition web_target :: Target where
  "web_target = (so_Target sample_seed)\<lparr>tg_Hook := \<lparr>hk_Path = ''/h'', hk_Args = [], hk_Timeout = 0, hk_PassEnvironment = []\<rparr>\<rparr>"

text \<open>The hook of the sample counts its runs.\<close>

definition web_runtime :: "(script_state, nat) runtime" where
  "web_runtime = \<lparr>rt_crypto = sample_crypto, rt_client = script_client quiet, rt_newest_first = id, rt_codec = sample_codec,
     rt_dir = ''/s'', rt_marshal_error = (\<lambda>_. ''''), rt_LookupEnv = (\<lambda>_. None),
     rt_exec = (\<lambda>_ n. (\<lparr>fi_Chunks = [''reloaded''], fi_Err = None, fi_CtxErr = None\<rparr>, Suc n)), rt_ended = (\<lambda>_. None)\<rparr>"

definition web_etcd :: script_state where
  "web_etcd = \<lparr>sc_view = advance (put (Keys_BundleKey DefaultKeys ''web'' (Generation web_digest))
     (encoded (fst sample_manifest))) empty_view, sc_script = []\<rparr>"

text \<open>The release of the bundle is active already, but the target has no record.\<close>

definition web_roots :: world where
  "web_roots = sample_world\<lparr>w_clock := \<lambda>_. 0, w_tree := Directory 493 0 [(''o'', Directory 448 0
     [(''c'', Symlink (''.pemcast/releases/sha256-'' @ web_digest)),
      (''.pemcast'', Directory 448 0 [(''releases'', Directory 448 0
        [(''sha256-'' @ web_digest, Directory 448 0
          [(''.pemcast-digest'', File (web_digest @ [CHR 0x0A]) 384), (''k'', File ''K'' 384)])])])])]\<rparr>"

definition web_system :: "script_state \<Rightarrow> (script_state, nat) system" where
  "web_system etcd = \<lparr>sy_etcd = etcd, sy_roots = web_roots, sy_state = state_world, sy_hooks = 0\<rparr>"

definition web_controller :: Controller where
  "web_controller = \<lparr>co_targets = [(''web'', web_target)], co_dryRun = False\<rparr>"

lemma web_bundle_value:
  "case Manifest_ValidateFiles sample_crypto (fst sample_manifest) (decoded (fst sample_manifest)) of
     Inr (cs, l) \<Rightarrow> map Some cs = mat_Certificates web_material \<and> l = mat_Leaf web_material
   | Inl e \<Rightarrow> False"
  "decoded (fst sample_manifest) = mat_Files web_material"
  "ManifestDigest sample_crypto (fst sample_manifest) (decoded (fst sample_manifest)) = web_digest"
  "SafeName (Generation web_digest)"
  by code_simp+

lemma web_fetch:
  "FetchBundle sample_crypto (script_client quiet) ''web'' (Generation web_digest) 2 web_etcd =
     (Inr web_material, web_etcd)"
proof -
  have "materialFromValue sample_crypto ''web'' (Generation web_digest) (encoded (fst sample_manifest)) 2 = Inr web_material"
    using web_bundle_value(1-3) sample_valid(2)
    by (auto simp: materialFromValue_def ValidateGeneration_def web_material_def web_material_of_def split: sum.split_asm)
  moreover have "SafeName ''web''" by code_simp
  ultimately show ?thesis using web_bundle_value(4)
    by (simp add: FetchBundle_def web_etcd_def script_run Let_def call_def done_with_def exact_def WithRev_def
        selected_def version_at_def advance_def now_def put_def Etcd_Api.lookup_def)
qed

lemma web_policy:
  "ValidatePolicy sample_crypto 0 (Some web_material) \<lparr>pol_Now = Some 0, pol_RejectExpired = True,
     pol_MinimumValidity = 0, pol_ServerNames = []\<rparr> = Inr ()"
  by code_simp

lemma web_reconciles:
  "Reconcile sample_crypto (system_interfaces web_runtime) web_controller ''web'' (Generation web_digest) 2 (web_system web_etcd) =
     deploy_target (system_interfaces web_runtime) ''web'' web_target (Generation web_digest) 2 web_material (web_system web_etcd)"
proof -
  have f: "if_FetchBundle (system_interfaces web_runtime) ''web'' (Generation web_digest) 2 (web_system web_etcd) =
      (Inr web_material, web_system web_etcd)"
    using web_fetch by (simp add: system_interfaces_def web_runtime_def on_etcd_def web_system_def)
  have a: "if_Acquire (system_interfaces web_runtime) (web_system web_etcd) = (Inr (), web_system web_etcd)"
    by (simp add: system_interfaces_def web_runtime_def)
  have now: "if_Now (system_interfaces web_runtime) (web_system web_etcd) = 0"
    by (simp add: system_interfaces_def web_system_def web_roots_def now_of_def)
  have ty: "m_Type (mat_Manifest web_material) = tg_Type web_target"
    by (simp add: web_material_def web_material_of_def web_target_def sample_seed_def sample_manifest_def NewTLSManifest_def Let_def)
  have va: "tg_Validation web_target = \<lparr>va_RejectExpired = True, va_MinimumValidity = 0, va_ServerNames = []\<rparr>"
    by (simp add: web_target_def sample_seed_def)
  show ?thesis
    by (simp add: Reconcile_def web_controller_def call_def a f ty with_now_def now va web_policy done_with_def)
qed

text \<open>Activating what is active already succeeds when its release passes the check and no call fails.\<close>

lemma Activate_current:
  assumes "\<forall>m \<in> set (out_Mappings output). safeRelativePath (fm_Local m)" "w_fault w = (\<lambda>_. None)"
    and "fst (CurrentDigest output w) = Inr (mat_Digest material)"
    and "is_ok (fst (verifyRelease (PathJoin [out_Root output, managedDirectory, ''releases'', ''sha256-'' @ mat_Digest material])
      material output w))"
  shows "\<exists>a w'. Activate newest_first material output w = (Inr a, w') \<and> \<not> dr_Changed a"
proof -
  let ?X = "PathJoin [out_Root output, managedDirectory, ''releases'', ''sha256-'' @ mat_Digest material]"
  obtain w1 where c: "CurrentDigest output w = (Inr (mat_Digest material), w1)" using assms(3) by (metis prod.collapse)
  obtain u w0 where v: "verifyRelease ?X material output w = (Inr u, w0)" using assms(4) by (metis is_ok_iff prod.collapse)
  obtain r w2 where v1: "verifyRelease ?X material output w1 = (r, w2)" by fastforce
  note D = decides_verifyRelease [OF assms(1)]
  have "w_tree w1 = w_tree w" "w_fault w1 = (\<lambda>_. None)" using decidesD(1,3) [OF decides_CurrentDigest c] assms(2) by simp_all
  then have "r = Inr ()" using decidesD(4) [OF D v refl] decidesD(5) [OF D v1] by simp
  then show ?thesis using v1 c by (simp add: Activate_def call_def done_with_def)
qed

lemma web_current:
  "fst (CurrentDigest seed_output web_roots) = Inr web_digest"
  by code_simp

lemma web_verified:
  "is_ok (fst (verifyRelease (PathJoin [''/o'', managedDirectory, ''releases'', ''sha256-'' @ web_digest])
     (web_material_of manifest) seed_output web_roots))"
  by code_simp

lemma web_load: "Load sample_codec ''/s'' ''web'' state_world = (Inr (no_state sample_codec), tick state_world)"
proof -
  obtain q w where r: "ReadFile (path_steps (state_path ''/s'' ''web'')) state_world = (q, w)" by fastforce
  have "case fst (ReadFile (path_steps (state_path ''/s'' ''web'')) state_world) of Inl e \<Rightarrow> e = ENOENT | Inr b \<Rightarrow> False"
    by code_simp
  then have "q = Inl ENOENT" using r by (auto split: sum.splits)
  moreover have "w = tick state_world" using r by (auto simp: ReadFile_def dest: reading_world)
  ultimately show ?thesis using r by (simp add: Load_def attempt_eq)
qed

lemma web_save:
  "is_ok (fst (Save sample_codec ''/s'' ''web'' \<lparr>st_Generation = Generation web_digest, st_Digest = web_digest, st_Revision = 2,
     st_ActivatedAt = 0, st_HookError = []\<rparr> (tick state_world)))"
  by code_simp

lemma web_layout: "layout seed_output [''o'']" "base [''o''] (w_tree web_roots)"
proof -
  show "layout seed_output [''o'']" unfolding layout_def by code_simp
  show "base [''o''] (w_tree web_roots)" unfolding base_def proper_walk unlinked_prefixes dir_at_code by code_simp
qed

lemma web_ok: "system_ok web_runtime (web_system web_etcd)"
proof -
  have "path_steps ''/s'' = [''s'']" by code_simp
  then show ?thesis using sample_codec_ok state_world_ok
    by (simp add: system_ok_def web_runtime_def web_system_def hist_def) (simp add: state_world_def)
qed

lemma web_succeeds:
  "is_ok (fst (Reconcile sample_crypto (system_interfaces web_runtime) web_controller ''web'' (Generation web_digest) 2 (web_system web_etcd)))"
proof -
  have m: "web_material = web_material_of (fst sample_manifest)" "mat_Digest web_material = web_digest"
    by (simp_all add: web_material_def web_material_of_def)
  have o1: "tg_Output web_target = seed_output" by (simp add: web_target_def sample_seed_def)
  obtain a w where act: "Activate id web_material seed_output web_roots = (Inr a, w)" and same: "\<not> dr_Changed a"
  proof -
    have "\<forall>m \<in> set (out_Mappings seed_output). safeRelativePath (fm_Local m)" using web_layout(1) by (simp add: layout_def)
    moreover have "w_fault web_roots = (\<lambda>_. None)" by (simp add: web_roots_def sample_world_def)
    moreover have "out_Root seed_output = ''/o''" by (simp add: seed_output_def sample_output_def)
    moreover have "is_ok (fst (verifyRelease (PathJoin [''/o'', managedDirectory, ''releases'', ''sha256-'' @ web_digest])
        web_material seed_output web_roots))"
      unfolding m(1) by (rule web_verified)
    ultimately have "\<exists>a w. Activate id web_material seed_output web_roots = (Inr a, w) \<and> \<not> dr_Changed a"
      using Activate_current [of seed_output web_roots web_material id] web_current unfolding m(2) by simp
    then show thesis using that by blast
  qed
  let ?s = "web_system web_etcd"
  have i: "if_Load (system_interfaces web_runtime) ''web'' ?s = (Inr (no_state sample_codec), ?s\<lparr>sy_state := tick state_world\<rparr>)"
    "if_Activate (system_interfaces web_runtime) web_material seed_output (?s\<lparr>sy_state := tick state_world\<rparr>) =
      (Inr a, ?s\<lparr>sy_state := tick state_world, sy_roots := w\<rparr>)"
    using web_load act by (simp_all add: system_interfaces_def web_runtime_def on_state_def on_roots_def web_system_def)
  obtain w' where "Save sample_codec ''/s'' ''web'' \<lparr>st_Generation = Generation web_digest, st_Digest = web_digest, st_Revision = 2,
     st_ActivatedAt = 0, st_HookError = []\<rparr> (tick state_world) = (Inr (), w')"
    using web_save by (metis prod.collapse unit_ok)
  then have "is_ok (fst (if_Save (system_interfaces web_runtime) ''web'' \<lparr>st_Generation = Generation web_digest,
       st_Digest = web_digest, st_Revision = 2, st_ActivatedAt = 0, st_HookError = []\<rparr>
       (?s\<lparr>sy_state := tick state_world, sy_roots := w\<rparr>)))"
    by (simp add: system_interfaces_def web_runtime_def on_state_def)
  moreover have "(no_state sample_codec)\<lparr>st_Generation := g, st_Digest := d, st_Revision := r\<rparr> =
      \<lparr>st_Generation = g, st_Digest = d, st_Revision = r, st_ActivatedAt = 0, st_HookError = []\<rparr>" for g d r
    by (simp add: no_state_def sample_codec_def)
  moreover have "st_HookError (no_state sample_codec) = []" "st_Digest (no_state sample_codec) \<noteq> web_digest"
    by (simp_all add: no_state_def web_digest_def)
  ultimately show ?thesis
    by (auto simp: web_reconciles deploy_target_def o1 m(2) call_def i same done_with_def split: prod.splits sum.splits)
qed

lemma Reconcile_converges_witness:
  "st_Digest (system_record web_runtime (snd (Reconcile sample_crypto (system_interfaces web_runtime) web_controller ''web''
     (Generation web_digest) 2 (web_system web_etcd))) ''web'') = web_digest"
proof -
  let ?run = "Reconcile sample_crypto (system_interfaces web_runtime) web_controller ''web'' (Generation web_digest) 2 (web_system web_etcd)"
  have rt: "rt_crypto web_runtime = sample_crypto" "rt_client web_runtime = script_client quiet"
    "\<And>xs. set (rt_newest_first web_runtime xs) \<subseteq> set xs" by (simp_all add: web_runtime_def)
  have sy: "w_past (sy_roots (web_system web_etcd)) = []" "w_tree (sy_roots (web_system web_etcd)) = w_tree web_roots"
    "sy_etcd (web_system web_etcd) = web_etcd"
    by (simp_all add: web_system_def web_roots_def sample_world_def)
  have run: "Reconcile (rt_crypto web_runtime) (system_interfaces web_runtime) web_controller ''web'' (Generation web_digest) 2
      (web_system web_etcd) = (Inr (), snd ?run)"
    unfolding rt(1) using web_succeeds by (metis prod.collapse unit_ok)
  have co: "map_of (co_targets web_controller) ''web'' = Some web_target" "\<not> co_dryRun web_controller"
    by (simp_all add: web_controller_def)
  have o1: "layout (tg_Output web_target) [''o'']" using web_layout(1) by (simp add: web_target_def sample_seed_def)
  have "\<exists>material etcd. FetchBundle sample_crypto (script_client quiet) ''web'' (Generation web_digest) 2 web_etcd = (Inr material, etcd) \<and>
      st_Digest (system_record web_runtime (snd ?run) ''web'') = mat_Digest material"
    using Reconcile_converges [of web_runtime "web_system web_etcd" web_controller "''web''" web_target "[''o'']" 2
        "Generation web_digest" "snd ?run", OF _ web_ok sy(1) rt(3) co o1 _ _ _ run]
      web_layout(2) sample_crypto_ok unfolding rt(1,2) sy(2,3) by auto
  then show ?thesis using web_fetch by (auto simp: web_material_def web_material_of_def)
qed

end
