(* ===== verification/Root_Locks.thy ===== *)
theory Root_Locks
  imports Deploy
begin

text \<open>
  \<open>internal/deploy/lock.go\<close>: one exclusive advisory lock per output root. A lock is the path of its open file;
  \<open>w_locks\<close> of the world lists the locked files of all processes.
\<close>

datatype dir_error = DirFailed errno | PathNotDirectory string

datatype lock_error =
    CreateOutputRoot dir_error
  | CreateManagedDirectory dir_error
  | OpenLockFile errno
  | AlreadyManaged
  | AcquireFlock errno

definition lockFileName :: string where "lockFileName = ''agent.lock''"

section \<open>System calls\<close>

text \<open>\<open>os.OpenFile\<close> with \<open>O_CREATE|O_RDWR\<close>: an existing file is opened, a missing one created.\<close>

definition OpenCreate :: "path \<Rightarrow> perm \<Rightarrow> (world, errno, path) io" where
  "OpenCreate ws mode = writing (\<lambda>w.
     and_then (resolve_path (w_tree w) ws True) id (\<lambda>p.
     case lookup p (w_tree w) of
       None \<Rightarrow> Inr (p, set_at p (Some (File [] (masked w mode))) (now_of w) (w_tree w))
     | Some n \<Rightarrow> if is_dir n then Inl EISDIR else Inr (p, w_tree w)))"

text \<open>\<open>flock\<close> with \<open>LOCK_EX|LOCK_NB\<close>. Closing the file ends the lock.\<close>

definition Flock :: "path \<Rightarrow> (world, errno, unit) io" where
  "Flock p w =
     (case w_fault w (w_tick w) of
        Some k \<Rightarrow> (Inl EIO, tick w)
      | None \<Rightarrow> if p \<in> set (w_locks w) then (Inl EWOULDBLOCK, tick w) else (Inr (), tick (w\<lparr>w_locks := p # w_locks w\<rparr>)))"

definition Unlock :: "path \<Rightarrow> world \<Rightarrow> world" where
  "Unlock p w = w\<lparr>w_locks := remove1 p (w_locks w)\<rparr>"

section \<open>Locks\<close>

text \<open>A closed lock is \<open>None\<close>; the descriptor is released even when \<open>Close\<close> reports an error.\<close>

definition RootLock_Close :: "path option \<Rightarrow> world \<Rightarrow> (errno, unit) result \<times> path option \<times> world" where
  "RootLock_Close l w =
     (case l of
        None \<Rightarrow> (Inr (), None, w)
      | Some p \<Rightarrow> (case File_Close p w of (r, w') \<Rightarrow> (r, None, Unlock p w')))"

definition ensureDirectory :: "string \<Rightarrow> perm \<Rightarrow> (world, dir_error, unit) io" where
  "ensureDirectory p mode =
     call (MkdirAll (path_steps p) mode) DirFailed (\<lambda>_.
     call (Lstat (path_steps p)) DirFailed (\<lambda>info.
     if \<not> is_dir info then done_with (Inl (PathNotDirectory p))
     else if node_perm info \<noteq> mode then call (Chmod (path_steps p) mode) DirFailed (\<lambda>_. done_with (Inr ()))
     else done_with (Inr ())))"

definition ensureManagedRoot :: "string \<Rightarrow> perm \<Rightarrow> (world, lock_error, unit) io" where
  "ensureManagedRoot outputRoot mode = call (ensureDirectory outputRoot mode) CreateOutputRoot (\<lambda>_. done_with (Inr ()))"

definition lockRoot :: "string \<Rightarrow> perm \<Rightarrow> (world, lock_error, path option) io" where
  "lockRoot outputRoot mode =
     call (ensureManagedRoot outputRoot mode) id (\<lambda>_.
     let managedRoot = PathJoin [outputRoot, managedDirectory] in
     call (ensureDirectory managedRoot mode) CreateManagedDirectory (\<lambda>_.
     call (OpenCreate (path_steps (PathJoin [managedRoot, lockFileName])) 384) OpenLockFile (\<lambda>file.
     attempt (Flock file) (\<lambda>locked. case locked of
       Inl e \<Rightarrow> attempt (File_Close file) (\<lambda>_.
         done_with (Inl (if e = EWOULDBLOCK then AlreadyManaged else AcquireFlock e)))
     | Inr _ \<Rightarrow> done_with (Inr (Some file))))))"

fun closeRootLocks :: "path option list \<Rightarrow> world \<Rightarrow> world" where
  "closeRootLocks [] w = w"
| "closeRootLocks (l # ls) w = closeRootLocks ls (snd (snd (RootLock_Close l w)))"

fun lock_targets :: "path option list \<Rightarrow> Target list \<Rightarrow> (world, string \<times> lock_error, path option list) io" where
  "lock_targets locks [] w = (Inr locks, w)"
| "lock_targets locks (target # ts) w =
     (case lockRoot (out_Root (tg_Output target)) (FileMode_Perm (out_DirectoryMode (tg_Output target))) w of
        (Inl e, w') \<Rightarrow> (Inl (out_Root (tg_Output target), e), closeRootLocks locks w')
      | (Inr l, w') \<Rightarrow> lock_targets (locks @ [l]) ts w')"

definition LockRoots :: "Target list \<Rightarrow> (world, string \<times> lock_error, path option list) io" where
  "LockRoots targets = lock_targets [] (sort_key (\<lambda>t. out_Root (tg_Output t)) targets)"

section \<open>All or nothing\<close>

text \<open>No call but \<open>Flock\<close> and closing a lock changes the locks.\<close>

abbreviation locked :: "path list \<Rightarrow> world \<Rightarrow> bool" where "locked ls w \<equiv> w_locks w = ls"

lemma locked_reading: "keeping (locked ls) (reading f)"
  by (rule tripleI) (auto simp: reading_def split: option.splits)

lemma locked_writing: "keeping (locked ls) (writing f)"
  by (rule tripleI) (auto simp: writing_def store_def split: option.splits sum.splits prod.splits)

lemma locked_MkdirAll: "keeping (locked ls) (MkdirAll p mode)"
proof -
  have "keeping (locked ls) (mkdir_parents mode q)" for q
    by (induction q)
      (auto intro!: keeping_attempt keeping_call locked_reading locked_writing
        simp: Stat_def Lstat_def Mkdir_def create_node_def split: sum.split)
  then show ?thesis by (simp add: MkdirAll_def)
qed

lemma locked_ensureDirectory: "keeping (locked ls) (ensureDirectory p mode)"
  unfolding ensureDirectory_def Lstat_def Chmod_def
  by (auto intro!: keeping_call locked_MkdirAll locked_reading locked_writing)

lemma lockRoot_locks:
  assumes "lockRoot outputRoot mode w = (r, w')"
  shows "case r of Inl e \<Rightarrow> w_locks w' = w_locks w
    | Inr l \<Rightarrow> \<exists>p. l = Some p \<and> p \<notin> set (w_locks w) \<and> w_locks w' = p # w_locks w"
proof -
  have kept: "m v = (q, v') \<Longrightarrow> keeping (locked (w_locks v)) m \<Longrightarrow> w_locks v' = w_locks v"
    for m :: "(world, 'e, 'a) io" and v q v' using tripleD by fastforce
  note dir = kept [OF _ locked_ensureDirectory]
  have close: "w_locks v' = w_locks v" if "File_Close p v = (q, v')" for p v q v'
    using that by (auto simp: File_Close_def reading_def split: option.splits)
  have opened: "w_locks v' = w_locks v" if "OpenCreate p m v = (q, v')" for p m v q v'
    using that by (auto simp: OpenCreate_def writing_def store_def split: option.splits sum.splits prod.splits)
  from assms show ?thesis unfolding lockRoot_def Let_def
  proof (cases rule: call_cases)
    case (failed e)
    then show ?thesis using dir unfolding ensureManagedRoot_def by (auto elim!: call_cases)
  next
    case (passed u w1)
    have w1: "w_locks w1 = w_locks w" using passed(1) dir unfolding ensureManagedRoot_def by (auto elim!: call_cases)
    from passed(2) show ?thesis
    proof (cases rule: call_cases)
      case (failed e)
      then show ?thesis using dir w1 by simp
    next
      case (passed u w2)
      have w2: "w_locks w2 = w_locks w" using dir [OF passed(1)] w1 by simp
      from passed(2) show ?thesis
      proof (cases rule: call_cases)
        case (failed e)
        then show ?thesis using opened w2 by auto
      next
        case (passed f w3)
        have w3: "w_locks w3 = w_locks w" using opened [OF passed(1)] w2 by simp
        obtain q w4 where fl: "Flock f w3 = (q, w4)" by fastforce
        have q: "case q of Inl e \<Rightarrow> w_locks w4 = w_locks w | Inr u \<Rightarrow> f \<notin> set (w_locks w) \<and> w_locks w4 = f # w_locks w"
          using fl w3 by (auto simp: Flock_def split: option.splits if_splits)
        show ?thesis
          using passed(2) fl q close [of f w4] by (cases q) (auto simp: attempt_eq)
      qed
    qed
  qed
qed

lemma close_all:
  "distinct ps \<Longrightarrow> w_locks w = rev ps @ ls \<Longrightarrow> w_locks (closeRootLocks (map Some ps) w) = ls"
proof (induction ps arbitrary: w)
  case (Cons p ps)
  obtain q w1 where c: "File_Close p w = (q, w1)" by fastforce
  then have "w_locks w1 = w_locks w" by (auto simp: File_Close_def reading_def split: option.splits)
  moreover have "p \<notin> set (rev ps)" using Cons.prems(1) by simp
  ultimately have "w_locks (Unlock p w1) = rev ps @ ls" using Cons.prems(2) by (simp add: Unlock_def remove1_append)
  then show ?case using Cons.IH [of "Unlock p w1"] Cons.prems(1) c by (simp add: RootLock_Close_def)
qed simp

text \<open>
  \<open>LockRoots\<close> holds one lock per target at the end, none of which anybody held before, or it fails and has
  given back every lock it took.
\<close>

lemma lock_targets_all:
  assumes "lock_targets (map Some ps) ts w = (r, w')" "distinct ps" "w_locks w = rev ps @ ls" "set ps \<inter> set ls = {}"
  shows "case r of Inl e \<Rightarrow> w_locks w' = ls
    | Inr locks \<Rightarrow> \<exists>qs. locks = map Some qs \<and> length qs = length ps + length ts \<and> distinct qs \<and>
        set qs \<inter> set ls = {} \<and> w_locks w' = rev qs @ ls"
  using assms
proof (induction ts arbitrary: ps w)
  case (Cons t ts)
  obtain q w1 where l: "lockRoot (out_Root (tg_Output t)) (FileMode_Perm (out_DirectoryMode (tg_Output t))) w = (q, w1)"
    by fastforce
  note q = lockRoot_locks [OF l]
  show ?case
  proof (cases q)
    case (Inl e)
    then have "w_locks w1 = rev ps @ ls" using q Cons.prems(3) by simp
    then show ?thesis using Cons.prems(1) l Inl close_all [OF Cons.prems(2), of w1 ls] by auto
  next
    case (Inr lock)
    then obtain p where p: "lock = Some p" "p \<notin> set (w_locks w)" "w_locks w1 = p # w_locks w" using q by auto
    have "lock_targets (map Some (ps @ [p])) ts w1 = (r, w')" using Cons.prems(1) l Inr p(1) by simp
    from Cons.IH [OF this] p Cons.prems(2-4) show ?thesis by (cases r) auto
  qed
qed (auto split: sum.split)

lemma LockRoots_all:
  assumes "LockRoots targets w = (r, w')"
  shows "case r of Inl e \<Rightarrow> w_locks w' = w_locks w
    | Inr locks \<Rightarrow> \<exists>ps. locks = map Some ps \<and> length ps = length targets \<and> distinct ps \<and>
        set ps \<inter> set (w_locks w) = {} \<and> w_locks w' = rev ps @ w_locks w"
  using lock_targets_all [of "[]" "sort_key (\<lambda>t. out_Root (tg_Output t)) targets" w r w' "w_locks w"] assms
  by (cases r) (auto simp: LockRoots_def)

end
