(* ===== verification/Agent_Runtime.thy ===== *)
theory Agent_Runtime
  imports Agent_State Root_Locks "HOL-Library.Word"
begin

text \<open>
  \<open>internal/appcmd/agent/application.go\<close>: starting and closing the agent, one pass over a snapshot, and the loop
  that watches. The scheduler and the channels are a script: for each round whether the context has ended, what
  \<open>select\<close> delivers, and whether a sleep runs to its end.
\<close>

section \<open>Delays\<close>

text \<open>
  A \<open>time.Duration\<close> is an \<open>int64\<close>. The parameter \<open>jittered\<close> is \<open>time.Duration(rand.Float64() * jitter * float64(delay))\<close>.
  Division by two truncates toward zero.
\<close>

definition wrap64 :: "int \<Rightarrow> int" where
  "wrap64 x = sint (word_of_int x :: 64 word)"

definition half :: "int \<Rightarrow> int" where
  "half x = (if 0 \<le> x then x div 2 else - ((- x) div 2))"

fun retry_loop :: "nat \<Rightarrow> int \<Rightarrow> int \<Rightarrow> int" where
  "retry_loop 0 retryMax delay = delay"
| "retry_loop (Suc n) retryMax delay =
     (if half retryMax \<le> delay then retryMax else retry_loop n retryMax (wrap64 (delay * 2)))"

definition float_positive :: "float64 \<Rightarrow> bool" where
  "float_positive x = (case x of Finite q \<Rightarrow> 0 < q | NaN \<Rightarrow> False | PosInf \<Rightarrow> True | NegInf \<Rightarrow> False)"

definition retryDelay :: "(float64 \<Rightarrow> int \<Rightarrow> int) \<Rightarrow> WatchConfig \<Rightarrow> int \<Rightarrow> int" where
  "retryDelay jittered watch failures =
     (let looped = retry_loop (nat (max 0 (failures - 1))) (wc_RetryMax watch) (wc_RetryMin watch);
          delay = (if wc_RetryMax watch < looped then wc_RetryMax watch else looped) in
      if float_positive (wc_JitterRatio watch) then wrap64 (delay - jittered (wc_JitterRatio watch) delay) else delay)"

text \<open>The loop doubles without overflow: it computes the exponential delay, up to one unit at the maximum.\<close>

lemma wrap64_id: "- (2 ^ 63) \<le> x \<Longrightarrow> x < 2 ^ 63 \<Longrightarrow> wrap64 x = x"
  unfolding wrap64_def by transfer (simp add: signed_take_bit_int_eq_self)

lemma retry_loop_exponential:
  assumes "0 < delay" "delay \<le> retryMax" "retryMax < 2 ^ 63"
  shows "min retryMax (delay * 2 ^ n) \<le> retry_loop n retryMax delay \<and>
    retry_loop n retryMax delay \<le> min retryMax (delay * 2 ^ n + 1)"
  using assms
proof (induction n arbitrary: delay)
  case (Suc n)
  have h: "half retryMax = retryMax div 2" using Suc.prems by (simp add: half_def)
  have grow: "delay * 2 \<le> delay * 2 ^ Suc n"
    using Suc.prems(1) mult_left_mono [of "2 :: int" "2 ^ Suc n" delay] by simp
  show ?case
  proof (cases "half retryMax \<le> delay")
    case True
    then have "retryMax \<le> delay * 2 + 1" using h by linarith
    then have "retryMax \<le> delay * 2 ^ Suc n + 1" using grow by linarith
    then show ?thesis using True by simp
  next
    case False
    then have d: "delay * 2 \<le> retryMax" using h by linarith
    then have "wrap64 (delay * 2) = delay * 2" using Suc.prems by (intro wrap64_id) linarith+
    then show ?thesis using Suc.IH [of "delay * 2"] Suc.prems d False by (simp add: mult.assoc)
  qed
qed auto

text \<open>With the jitter of a configuration the delay stays within its limits.\<close>

definition jitter_ok :: "(float64 \<Rightarrow> int \<Rightarrow> int) \<Rightarrow> bool" where
  "jitter_ok jittered \<longleftrightarrow> (\<forall>ratio delay. float_positive ratio \<longrightarrow> \<not> float_at_least ratio 1 \<longrightarrow> 0 \<le> delay \<longrightarrow>
     0 \<le> jittered ratio delay \<and> jittered ratio delay \<le> delay)"

section \<open>Starting and closing\<close>

text \<open>What \<open>New\<close> builds; \<open>dial\<close> stands for the connection that \<open>etcdsource.New\<close> makes.\<close>

datatype agent_error =
    InvalidConfig config_error
  | StateStore state_error
  | LockFailed "string \<times> lock_error"
  | ConnectEtcd string
  | SnapshotFailed source_error
  | PassFailed "reconcile_error list"

record Application =
  ap_config :: Agent
  ap_controller :: Controller
  ap_store :: string
  ap_locks :: "path option list"

definition close_on_error :: "path option list \<Rightarrow> ('e, 'a) result \<times> world \<Rightarrow> ('e, 'a) result \<times> world" where
  "close_on_error locks rw = (case rw of (Inl e, w) \<Rightarrow> (Inl e, closeRootLocks locks w) | (Inr x, w) \<Rightarrow> (Inr x, w))"

definition Agent_New :: "(EtcdConfig \<Rightarrow> (string, unit) result) \<Rightarrow> Config \<Rightarrow> (world, agent_error, Application) io" where
  "Agent_New dial cfg =
     call (done_with (Config_Validate cfg)) InvalidConfig (\<lambda>_.
     call (done_with (Store_New (ag_StateDir (cf_Agent cfg)))) StateStore (\<lambda>dir.
     call (if ag_DryRun (cf_Agent cfg) then done_with (Inr []) else LockRoots (ag_Targets (cf_Agent cfg))) LockFailed (\<lambda>locks w.
     close_on_error locks
       (call (if ag_DryRun (cf_Agent cfg) then done_with (Inr ()) else Ensure dir) StateStore (\<lambda>_.
        call (done_with (dial (ag_Etcd (cf_Agent cfg)))) ConnectEtcd (\<lambda>_.
        done_with (Inr \<lparr>ap_config = cf_Agent cfg, ap_controller = Controller_New (cf_Agent cfg), ap_store = dir,
          ap_locks = locks\<rparr>))) w))))"

text \<open>\<open>Close\<close> joins the error of the client, unless it says that its context was canceled, with those of the locks.\<close>

fun close_locks :: "path option list \<Rightarrow> world \<Rightarrow> errno list \<times> world" where
  "close_locks [] w = ([], w)"
| "close_locks (l # ls) w =
     (case RootLock_Close l w of (r, _, w1) \<Rightarrow>
        (case close_locks ls w1 of (errs, w2) \<Rightarrow> ((case r of Inl e \<Rightarrow> e # errs | Inr _ \<Rightarrow> errs), w2)))"

definition Agent_Close :: "(string option \<times> bool) \<Rightarrow> Application \<Rightarrow> world \<Rightarrow> (string option \<times> errno list) \<times> world" where
  "Agent_Close srcErr app w =
     (let etcdCloseErr = (case srcErr of (None, _) \<Rightarrow> None | (Some e, canceled) \<Rightarrow> if canceled then None else Some e) in
      case close_locks (ap_locks app) w of (errs, w') \<Rightarrow> ((etcdCloseErr, errs), w'))"

lemma Ensure_locks: "Ensure dir w = (r, w') \<Longrightarrow> w_locks w' = w_locks w"
proof -
  have "keeping (locked ls) (Ensure dir)" for ls
    unfolding Ensure_def Lstat_def Chmod_def by (auto intro!: keeping_call locked_MkdirAll locked_reading locked_writing)
  then show "Ensure dir w = (r, w') \<Longrightarrow> w_locks w' = w_locks w" using tripleD by fastforce
qed

text \<open>A failing start gives back every lock.\<close>

lemma Agent_New_locks:
  assumes "Agent_New dial cfg w = (r, w')"
  shows "case r of Inl e \<Rightarrow> w_locks w' = w_locks w
    | Inr app \<Rightarrow> \<exists>ps. ap_locks app = map Some ps \<and> distinct ps \<and> set ps \<inter> set (w_locks w) = {} \<and>
        w_locks w' = rev ps @ w_locks w \<and> (\<not> ag_DryRun (cf_Agent cfg) \<longrightarrow> length ps = length (ag_Targets (cf_Agent cfg)))"
proof (cases "Config_Validate cfg")
  case (Inl e)
  then have "r = Inl (InvalidConfig e) \<and> w' = w" using assms by (simp add: Agent_New_def call_done)
  then show ?thesis by simp
next
  case valid: (Inr u)
  show ?thesis
  proof (cases "Store_New (ag_StateDir (cf_Agent cfg))")
    case (Inl e)
    then have "r = Inl (StateStore e) \<and> w' = w" using assms valid by (simp add: Agent_New_def call_done)
    then show ?thesis by simp
  next
    case store: (Inr dir)
    let ?dry = "ag_DryRun (cf_Agent cfg)"
    let ?rest = "\<lambda>locks. call (if ?dry then done_with (Inr ()) else Ensure dir) StateStore (\<lambda>_.
        call (done_with (dial (ag_Etcd (cf_Agent cfg)))) ConnectEtcd (\<lambda>_.
        done_with (Inr \<lparr>ap_config = cf_Agent cfg, ap_controller = Controller_New (cf_Agent cfg), ap_store = dir,
          ap_locks = locks\<rparr>)))"
    obtain q w1 where l: "(if ?dry then done_with (Inr []) else LockRoots (ag_Targets (cf_Agent cfg))) w = (q, w1)" by fastforce
    show ?thesis
    proof (cases q)
      case (Inl e)
      then have "w_locks w1 = w_locks w"
        using l LockRoots_all [of "ag_Targets (cf_Agent cfg)" w q w1] by (simp split: if_split_asm)
      moreover have "r = Inl (LockFailed e) \<and> w' = w1"
        using assms valid store l Inl by (simp add: Agent_New_def call_def done_with_def)
      ultimately show ?thesis by simp
    next
      case (Inr locks)
      obtain ps where ps: "locks = map Some ps" "distinct ps" "set ps \<inter> set (w_locks w) = {}" "w_locks w1 = rev ps @ w_locks w"
        "\<not> ?dry \<longrightarrow> length ps = length (ag_Targets (cf_Agent cfg))"
      proof (cases ?dry)
        case True
        then show thesis using that [of "[]"] l Inr by simp
      next
        case False
        then show thesis using that LockRoots_all [of "ag_Targets (cf_Agent cfg)" w q w1] l Inr by auto
      qed
      obtain r2 w2 where run: "?rest locks w1 = (r2, w2)" by fastforce
      have "w_locks w2 = w_locks w1" using run by (auto elim!: call_cases simp: Ensure_locks split: if_split_asm)
      moreover have "(r, w') = close_on_error locks (r2, w2)"
        using assms valid store l Inr run by (simp add: Agent_New_def call_done call_def [where k = "\<lambda>locks w. close_on_error locks (?rest locks w)"])
      moreover have "r2 = Inr app \<Longrightarrow> ap_locks app = locks" for app
        using run by (auto elim!: call_cases)
      ultimately show ?thesis using ps close_all [OF ps(2), of w2 "w_locks w"]
        by (cases r2) (auto simp: close_on_error_def)
    qed
  qed
qed

section \<open>Running\<close>

text \<open>One event that \<open>select\<close> can deliver; \<open>Resync\<close> needs a timer.\<close>

datatype signal = CtxDone | Resync | GotEvent ActiveEvent | EventsClosed | WatchError

datatype round_end = Stopped | Restart | Blocked

fun handle_signals ::
  "crypto \<Rightarrow> 's interfaces \<Rightarrow> Controller \<Rightarrow> bool \<Rightarrow> signal list \<Rightarrow> 's \<Rightarrow> round_end \<times> 's" where
  "handle_signals L i c timer [] s = (Blocked, s)"
| "handle_signals L i c timer (CtxDone # xs) s = (Stopped, s)"
| "handle_signals L i c timer (Resync # xs) s = (if timer then (Restart, s) else handle_signals L i c timer xs s)"
| "handle_signals L i c timer (GotEvent event # xs) s =
     (if \<not> HasTarget c (ae_TargetID event) then handle_signals L i c timer xs s
      else
        (case (if ae_Deleted event then HandleDelete c (ae_TargetID event)
               else Reconcile L i c (ae_TargetID event) (ae_Generation event) (ae_Revision event)) s of
           (r, s') \<Rightarrow> handle_signals L i c timer xs s'))"
| "handle_signals L i c timer (EventsClosed # xs) s = (Restart, s)"
| "handle_signals L i c timer (WatchError # xs) s = (Restart, s)"

text \<open>A round of the outer loop: whether the context has ended, the signals, and whether the sleep was not cut short.\<close>

record round =
  rd_ended :: bool
  rd_signals :: "signal list"
  rd_slept :: bool

datatype watch_end = Returned | Waiting

text \<open>The list gathers the delays slept so far, and each sleep draws its own jitter.\<close>

fun runWatch ::
  "(nat \<Rightarrow> float64 \<Rightarrow> int \<Rightarrow> int) \<Rightarrow> (string list \<Rightarrow> string list) \<Rightarrow> crypto \<Rightarrow> 's interfaces \<Rightarrow>
   ('s, source_error, Snapshot) io \<Rightarrow> WatchConfig \<Rightarrow> Controller \<Rightarrow> round list \<Rightarrow> int \<Rightarrow> int list \<Rightarrow> 's \<Rightarrow>
   (watch_end \<times> int list) \<times> 's" where
  "runWatch jittered schedule L i snapshot watch c [] failures delays s = ((Waiting, delays), s)"
| "runWatch jittered schedule L i snapshot watch c (r # rs) failures delays s =
     (if rd_ended r then ((Returned, delays), s)
      else (case snapshot s of
        (Inl e, s1) \<Rightarrow>
          let failures = failures + 1; delays = delays @ [retryDelay (jittered (length delays)) watch failures] in
          if \<not> rd_slept r then ((Returned, delays), s1)
          else runWatch jittered schedule L i snapshot watch c rs failures delays s1
      | (Inr snap, s1) \<Rightarrow>
          (case ReconcileSnapshot schedule L i c snap s1 of (_, s2) \<Rightarrow>
           (case handle_signals L i c (0 < wc_ResyncInterval watch) (rd_signals r) s2 of
              (Stopped, s3) \<Rightarrow> ((Returned, delays), s3)
            | (Blocked, s3) \<Rightarrow> ((Waiting, delays), s3)
            | (Restart, s3) \<Rightarrow>
                let delays = delays @ [retryDelay (jittered (length delays)) watch 1] in
                if \<not> rd_slept r then ((Returned, delays), s3)
                else runWatch jittered schedule L i snapshot watch c rs 0 delays s3))))"

definition Agent_Run ::
  "(nat \<Rightarrow> float64 \<Rightarrow> int \<Rightarrow> int) \<Rightarrow> (string list \<Rightarrow> string list) \<Rightarrow> crypto \<Rightarrow> 's interfaces \<Rightarrow>
   ('s, source_error, Snapshot) io \<Rightarrow> Agent \<Rightarrow> Controller \<Rightarrow> round list \<Rightarrow> 's \<Rightarrow>
   (agent_error, watch_end) result \<times> 's" where
  "Agent_Run jittered schedule L i snapshot cfg c rounds =
     (if ag_Once cfg then
        call snapshot SnapshotFailed (\<lambda>snap.
        call (ReconcileSnapshot schedule L i c snap) PassFailed (\<lambda>_. done_with (Inr Returned)))
      else (\<lambda>s. case runWatch jittered schedule L i snapshot (ag_Watch cfg) c rounds 0 [] s of
        ((ended, _), s') \<Rightarrow> (Inr ended, s')))"

text \<open>Every delay that the loop sleeps is one of \<open>retryDelay\<close> for at least one failure.\<close>

lemma runWatch_delays:
  assumes "runWatch jittered schedule L i snapshot watch c rs failures delays s = ((e, delays'), s')" "0 \<le> failures"
    and Q: "\<And>n k. 1 \<le> k \<Longrightarrow> Q (retryDelay (jittered n) watch k)" and "\<forall>d \<in> set delays. Q d"
  shows "\<forall>d \<in> set delays'. Q d"
  using assms(1,2,4)
proof (induction rs arbitrary: failures delays s)
  case (Cons r rs)
  have ok: "\<forall>d \<in> set (delays @ [retryDelay (jittered (length delays)) watch k]). Q d" if "1 \<le> k" for k
    using Cons.prems(3) Q that by auto
  have more: "1 \<le> failures + 1" "0 \<le> failures + 1" using Cons.prems(2) by simp_all
  show ?case
    using Cons.prems(1) Cons.IH [OF _ more(2) ok [OF more(1)]] Cons.IH [of 0, OF _ _ ok [of 1]] ok [OF more(1)] ok [of 1] Cons.prems(3)
    by (auto simp: Let_def split: if_split_asm prod.split_asm sum.split_asm round_end.split_asm)
qed auto

end
