(* ===== verification/Agent_Properties.thy ===== *)
theory Agent_Properties
  imports Agent_Runtime
begin




end
