(* ===== verification/Status.thy ===== *)
theory Status
  imports State_Store Deploy_Facts
begin

text \<open>
  \<open>internal/status/status.go\<close>: what the command \<open>status\<close> reports of each target, without contacting etcd. The
  texts of errors are kept as the errors themselves; no error is \<open>None\<close>.
\<close>

datatype status_error =
    StoreError state_error
  | StatLink errno
  | NotASymlink
  | ReadLinkFailed errno
  | DigestError deploy_error
  | ResolveLink errno

record CurrentStatus =
  cu_Status :: string
  cu_Symlink :: string
  cu_ReleaseDir :: string
  cu_LocalDigest :: string
  cu_Error :: "status_error option"

record TargetStatus =
  ts_ID :: string
  ts_Type :: string
  ts_OutputRoot :: string
  ts_CurrentLink :: string
  ts_StateStatus :: string
  ts_State :: state_Target
  ts_StateError :: "status_error option"
  ts_Current :: CurrentStatus

record Report =
  rp_StateDir :: string
  rp_Targets :: "TargetStatus list"

definition plain_status :: "string \<Rightarrow> status_error option \<Rightarrow> CurrentStatus" where
  "plain_status st e = \<lparr>cu_Status = st, cu_Symlink = [], cu_ReleaseDir = [], cu_LocalDigest = [], cu_Error = e\<rparr>"

text \<open>\<open>filepath.EvalSymlinks\<close> of an absolute path: the path without links, which has to exist.\<close>

definition EvalSymlinks :: "path \<Rightarrow> (world, errno, string) io" where
  "EvalSymlinks ws = reading (\<lambda>t. and_then (resolve_path t ws True) id (\<lambda>p.
     if lookup p t = None then Inl ENOENT else Inr (abs_path p)))"

text \<open>Functions without an error result are state transformers.\<close>

definition inspectState :: "time_codec \<Rightarrow> string \<Rightarrow> string \<Rightarrow> world \<Rightarrow> (string \<times> state_Target \<times> status_error option) \<times> world" where
  "inspectState tc dir targetID w =
     (case Exists dir targetID w of
        (Inl e, w') \<Rightarrow> ((''error'', no_state tc, Some (StoreError e)), w')
      | (Inr False, w') \<Rightarrow> ((''missing'', no_state tc, None), w')
      | (Inr True, w') \<Rightarrow>
          (case Load tc dir targetID w' of
             (Inl e, w'') \<Rightarrow> ((''error'', no_state tc, Some (StoreError e)), w'')
           | (Inr saved, w'') \<Rightarrow> ((''present'', saved, None), w'')))"

definition inspectCurrent :: "Output \<Rightarrow> world \<Rightarrow> CurrentStatus \<times> world" where
  "inspectCurrent output w =
     (let linkPath = path_steps (PathJoin [out_Root output, out_CurrentLink output]) in
      case Lstat linkPath w of
        (Inl e, w1) \<Rightarrow> (if e = ENOENT then plain_status ''missing'' None else plain_status ''error'' (Some (StatLink e)), w1)
      | (Inr info, w1) \<Rightarrow>
          if \<not> is_symlink info then (plain_status ''invalid'' (Some NotASymlink), w1)
          else (case Readlink linkPath w1 of
            (Inl e, w2) \<Rightarrow> (plain_status ''invalid'' (Some (ReadLinkFailed e)), w2)
          | (Inr target, w2) \<Rightarrow>
              let result = (plain_status ''invalid'' None)\<lparr>cu_Symlink := target\<rparr> in
              (case CurrentDigest output w2 of
                 (Inl e, w3) \<Rightarrow> (result\<lparr>cu_Error := Some (DigestError e)\<rparr>, w3)
               | (Inr digest, w3) \<Rightarrow>
                   (case EvalSymlinks linkPath w3 of
                      (Inl e, w4) \<Rightarrow> (result\<lparr>cu_Error := Some (ResolveLink e)\<rparr>, w4)
                    | (Inr resolved, w4) \<Rightarrow>
                        (result\<lparr>cu_Status := ''active'', cu_ReleaseDir := resolved, cu_LocalDigest := digest\<rparr>, w4)))))"

fun target_statuses :: "time_codec \<Rightarrow> (state_error, string) result \<Rightarrow> Target list \<Rightarrow> world \<Rightarrow> TargetStatus list \<times> world" where
  "target_statuses tc source [] w = ([], w)"
| "target_statuses tc source (target # ts) w =
     (case (case source of Inl e \<Rightarrow> ((''error'', no_state tc, Some (StoreError e)), w)
                        | Inr dir \<Rightarrow> inspectState tc dir (tg_ID target) w) of
        ((st, saved, e), w1) \<Rightarrow>
          (case inspectCurrent (tg_Output target) w1 of
             (current, w2) \<Rightarrow>
               (case target_statuses tc source ts w2 of
                  (items, w3) \<Rightarrow>
                    (\<lparr>ts_ID = tg_ID target, ts_Type = tg_Type target, ts_OutputRoot = out_Root (tg_Output target),
                      ts_CurrentLink = out_CurrentLink (tg_Output target), ts_StateStatus = st, ts_State = saved,
                      ts_StateError = e, ts_Current = current\<rparr> # items, w3))))"

definition status_Build :: "time_codec \<Rightarrow> Config \<Rightarrow> world \<Rightarrow> Report \<times> world" where
  "status_Build tc cfg w =
     (case target_statuses tc (Store_New (ag_StateDir (cf_Agent cfg))) (ag_Targets (cf_Agent cfg)) w of
        (items, w') \<Rightarrow> (\<lparr>rp_StateDir = ag_StateDir (cf_Agent cfg), rp_Targets = items\<rparr>, w'))"

section \<open>Reporting changes nothing\<close>

abbreviation same_files :: "world \<Rightarrow> world \<Rightarrow> bool" where
  "same_files w w' \<equiv> w_tree w' = w_tree w \<and> w_past w' = w_past w"

lemma reading_same: "reading f w = (r, w') \<Longrightarrow> same_files w w'"
  by (auto simp: reading_def split: option.splits)

lemma attempt_reading_same:
  assumes "attempt (reading f) (\<lambda>r. done_with (g r)) w = (q, w')"
  shows "same_files w w'"
  using assms by (auto simp: attempt_eq dest: reading_same)

lemma Exists_same: "Exists dir targetID w = (q, w') \<Longrightarrow> same_files w w'"
  and Load_same: "Load tc dir targetID w = (r, w') \<Longrightarrow> same_files w w'"
proof -
  have e: "Exists dir targetID = attempt (Stat (path_steps (state_path dir targetID))) (\<lambda>r. done_with (case r of
      Inl e \<Rightarrow> if e = ENOENT then Inr False else Inl (StatState e) | Inr _ \<Rightarrow> Inr True))"
    unfolding Exists_def by (rule arg_cong [of _ _ "attempt _"]) (auto split: sum.split)
  have l: "Load tc dir targetID = attempt (ReadFile (path_steps (state_path dir targetID))) (\<lambda>r. done_with (case r of
      Inl e \<Rightarrow> if e = ENOENT then Inr (no_state tc) else Inl (ReadState e)
    | Inr data \<Rightarrow> case state_Unmarshal tc data of None \<Rightarrow> Inl DecodeState | Some st \<Rightarrow> Inr st))"
    unfolding Load_def by (rule arg_cong [of _ _ "attempt _"]) (auto split: sum.split)
  show "Exists dir targetID w = (q, w') \<Longrightarrow> same_files w w'"
    unfolding e Stat_def by (rule attempt_reading_same)
  show "Load tc dir targetID w = (r, w') \<Longrightarrow> same_files w w'"
    unfolding l ReadFile_def by (rule attempt_reading_same)
qed

lemma inspectState_same: "inspectState tc dir targetID w = (x, w') \<Longrightarrow> same_files w w'"
proof -
  assume run: "inspectState tc dir targetID w = (x, w')"
  obtain q w1 where e: "Exists dir targetID w = (q, w1)" by fastforce
  obtain r w2 where l: "Load tc dir targetID w1 = (r, w2)" by fastforce
  show "same_files w w'" using run e l Exists_same [OF e] Load_same [OF l]
    by (cases q) (auto simp: inspectState_def split: sum.splits bool.splits)
qed

lemma inspectCurrent_same: "inspectCurrent output w = (x, w') \<Longrightarrow> same_files w w'"
  unfolding inspectCurrent_def Let_def Lstat_def Readlink_def EvalSymlinks_def
  by (auto split: prod.splits sum.splits if_splits dest!: reading_same dest: decidesD(1,2) [OF decides_CurrentDigest])

lemma target_statuses_same: "target_statuses tc source ts w = (items, w') \<Longrightarrow> same_files w w' \<and> map ts_ID items = map tg_ID ts"
proof (induction ts arbitrary: w items w')
  case (Cons t ts)
  obtain st saved e w1 where s: "(case source of Inl e \<Rightarrow> ((''error'', no_state tc, Some (StoreError e)), w)
      | Inr dir \<Rightarrow> inspectState tc dir (tg_ID t) w) = ((st, saved, e), w1)" by (metis prod_cases3 surj_pair)
  obtain current w2 where c: "inspectCurrent (tg_Output t) w1 = (current, w2)" by fastforce
  obtain rest w3 where r: "target_statuses tc source ts w2 = (rest, w3)" by fastforce
  have "same_files w w1" using s inspectState_same by (auto split: sum.splits)
  moreover have "same_files w1 w2" using inspectCurrent_same [OF c] .
  ultimately show ?case using Cons.IH [OF r] Cons.prems s c r by auto
qed simp

text \<open>The report has one entry per configured target, in their order, and the file system stays as it is.\<close>

lemma status_Build_same:
  "status_Build tc cfg w = (report, w') \<Longrightarrow>
     same_files w w' \<and> map ts_ID (rp_Targets report) = map tg_ID (ag_Targets (cf_Agent cfg))"
  using target_statuses_same by (auto simp: status_Build_def split: prod.splits)

end
