(* ===== verification/Spec2Isabelle.thy ===== *)
theory Spec2Isabelle
  imports Bundle_Properties Pack_Properties Publish_Properties Prune_Properties Upgrade_Properties
    Configuration_Properties Seed_Properties State_Properties Target_Properties Reconcile_Properties
    Agent_Properties Status
begin

text \<open>
  A verification development for pemcast, a Go program that distributes TLS bundles through etcd. Paths of source
  files are relative to \<open>src/internal\<close>.

  The program. A pack is built from PEM files and holds one immutable bundle, named by the digest of its content.
  Publishing stores the bundle under its own key and moves the active pointer of a target to it by a conditional
  transaction. The agent follows the pointers: it fetches and checks the bundle, writes a release directory, switches
  a symbolic link to it, runs a hook, and records the outcome in a state file. Prune deletes bundles that expired,
  upgrade converts those of the previous protocol, seed installs a pack without etcd, status reports.

  Conventions (\<open>Pem_Prelude\<close>). A Go string or byte slice is a list of characters. A result with an error is a sum
  whose left side is the error. A call that changes a shared state is a function from the state to the result and the
  next state; \<open>call\<close>, \<open>attempt\<close>, \<open>deferring\<close> and \<open>each\<close> are sequencing with the early return of Go, without it, with a
  deferred call, and in a loop. \<open>triple\<close> and \<open>keeping\<close> are the Hoare triples over them. A Go map is an association
  list, latest store first. Errors carry what their messages depend on, not the text.

  The standard library and the kernel. \<open>Go_Strings\<close>, \<open>Go_Encoding\<close>, \<open>Go_Strconv\<close>, \<open>Go_Paths\<close> and \<open>Go_Json\<close> model what
  the code uses of the packages strings, encoding, strconv, path and encoding/json/v2; \<open>Go_Os\<close> models the file system
  as a tree with links, permissions, a umask, temporary names, a clock, locks and a failure oracle for every call, and
  keeps every tree that ever existed, so that a lemma can speak of all moments a reader can see. \<open>Os_Facts\<close> and
  \<open>Path_Facts\<close> reduce these calls to updates of the map from paths to entries.

  Components.
  \<^item> \<open>Keyspace\<close> (keyspace/keys.go): prefixes and keys. \<open>Bundle\<close>, \<open>Bundle_Facts\<close> (bundle): manifests, encoding, digests,
    checks of files and certificates, policy. The cryptographic library is the parameter \<open>crypto\<close> with the laws
    \<open>crypto_ok\<close>: the length of a sum, and that decoding a PEM block consumes input. No collision freeness is assumed
    except on two named inputs. \<open>Bundle_Properties\<close> has the round trip, the identity of generations, the exact
    decisions, and the termination of the PEM loop.
  \<^item> \<open>Pack\<close>, \<open>Pack_Properties\<close> (pack/pack.go): building and validating packs, the etcdctl transaction.
  \<^item> \<open>Etcd_Api\<close>: the client library of etcd as the record \<open>clientv3\<close> of three calls. \<open>etcd_ok\<close> states its documented
    behaviour: linearizable reads, revisions, conditional transactions, lost answers; a relation \<open>R\<close> bounds what other
    clients do between two calls. \<open>Kv_Store\<close> has the interface of the commands and its contract as locales,
    \<open>Etcd_Client\<close> (etcdsource) the client and the interpretations of these locales.
  \<^item> \<open>Publisher\<close>, \<open>Prune\<close>, \<open>Upgrade\<close> with \<open>Upgrade_Facts\<close> and \<open>Legacy\<close> (publisher, prune, upgrade): the commands over
    the interface, proved in the locales; the theories \<open>Publish_Properties\<close>, \<open>Prune_Properties\<close> and
    \<open>Upgrade_Properties\<close> state the results on the client: no dangling pointers, no lost update, what may be deleted,
    what a migration has done, and a race between publishing and pruning that leaves a dangling pointer.
  \<^item> \<open>Configuration\<close>, \<open>Configuration_Properties\<close> (config): records, defaults, file modes and all checks.
    \<open>Target_Properties\<close> relates the checks of a target to its activation.
  \<^item> \<open>Deploy\<close> (deploy/deployer.go): one definition per function. \<open>Deploy_Facts\<close> decides what the reading calls return and
    characterizes \<open>verifyRelease\<close>; \<open>Deploy_Atomic\<close> and \<open>Deploy_Activate\<close> show what a reader below the current link sees
    at every moment and under any failure; \<open>Deploy_Properties\<close> states this. \<open>Root_Locks\<close> (deploy/lock.go): the locks of
    the output roots, all of them or none.
  \<^item> \<open>Seed\<close>, \<open>Seed_Properties\<close> (seed/seed.go). \<open>State_Store\<close>, \<open>State_Facts\<close>, \<open>State_Properties\<close> (state/store.go): the
    state files, atomic replacement and round trip. The text of an instant is the parameter \<open>time_codec\<close>.
  \<^item> \<open>Hook\<close> (hook/runner.go): the environment, the bounded output, which captures the longest prefix that fits, and the
    outcome. Running a process is the parameter \<open>exec\<close>.
  \<^item> \<open>Reconcile\<close> (reconcile/controller.go): the controller over a record of its interfaces; the locale \<open>recording\<close> holds
    what it relies on. \<open>Agent_State\<close> fills the interfaces with the models above and interprets the locale on them;
    \<open>Reconcile_Properties\<close> has the theorem on a whole reconciliation.
  \<^item> \<open>Agent_Runtime\<close>, \<open>Agent_Properties\<close> (appcmd/agent/application.go): start, stop, watch loop and retry delays, these
    in 64-bit arithmetic. \<open>Status\<close> (status/status.go): the report, which changes nothing.

  \<open>Sample_Crypto\<close> and \<open>Sample_Etcd\<close> are a concrete cryptographic library and a concrete service with scripted faults and
  other clients; they satisfy the contracts, and the witnesses run the code on them.

  Fuel and bounds. The PEM loop has one unit per byte plus one, and \<open>parseCertificates_terminates\<close> shows that it ends
  before. The JSON parser has two units per byte plus two, which \<open>parse_enough_fuel\<close> shows to be enough for
  any text. The number
  of links that the kernel follows is forty, the tries of a temporary name are ten thousand, both as in the source of
  the called library. \<open>parent_dirs\<close> returns nothing when the loop of the code would not end, which
  \<open>parents_of_local\<close> excludes for checked paths. The retry loop runs once per failure, as in the code.

  Not modelled. Loading and templating the configuration (package cfgm), building the TLS connection to etcd, starting
  and killing processes, logging, and the command line. Goroutines: the targets of a snapshot are processed one after
  the other in any order, so the mutexes and the semaphore of the controller do not appear; the select of the watch
  loop is a script of signals. Loss of unsynced data in a crash of the machine. Contexts only end calls early, as a
  failure of the call. The state directory and the output roots are taken to be disjoint, and hooks to change neither.
\<close>

end
